(* ===== verification/Proxy_Prelude.thy ===== *)
theory Proxy_Prelude
  imports Main "HOL-Library.Word"
begin

text \<open>
  Shared vocabulary of the development: machine integers, results, and the part of
  Rust's string library that the proxy uses.

  A Rust \<open>String\<close>, \<open>&str\<close>, \<open>Bytes\<close> or \<open>Vec<u8>\<close> is a list of bytes, and an Isabelle
  \<open>char\<close> is exactly a byte, so all four are \<open>char list\<close>; a \<open>str\<close> is such a list that
  happens to be UTF-8.  \<open>len()\<close> is therefore \<open>length\<close>, and \<open>as_bytes()\<close> the identity.
  A \<open>Result\<close> is a sum, written with the abbreviations \<open>Ok\<close> and \<open>Err\<close>.
\<close>

named_theorems str_simps \<open>evaluation of the string library\<close>
named_theorems result_simps \<open>unfolding of result plumbing\<close>

section \<open>Integers and results\<close>

type_synonym u8 = "8 word"
type_synonym u16 = "16 word"
type_synonym u64 = "64 word"
type_synonym i64 = "64 word"
type_synonym bytes = "char list"

abbreviation Ok :: "'a \<Rightarrow> 'e + 'a" where
  "Ok x \<equiv> Inr x"

abbreviation Err :: "'e \<Rightarrow> 'e + 'a" where
  "Err e \<equiv> Inl e"

text \<open>The \<open>?\<close> operator: continue with the value, or return the error.\<close>

definition and_then :: "'e + 'a \<Rightarrow> ('a \<Rightarrow> 'e + 'b) \<Rightarrow> 'e + 'b" where
  "and_then r f = (case r of Inl e \<Rightarrow> Inl e | Inr x \<Rightarrow> f x)"

definition ok_or :: "'e \<Rightarrow> 'a option \<Rightarrow> 'e + 'a" where
  "ok_or e x = (case x of None \<Rightarrow> Inl e | Some y \<Rightarrow> Inr y)"

definition unwrap_or :: "'a \<Rightarrow> 'a option \<Rightarrow> 'a" where
  "unwrap_or d x = (case x of None \<Rightarrow> d | Some y \<Rightarrow> y)"

definition filter_option :: "('a \<Rightarrow> bool) \<Rightarrow> 'a option \<Rightarrow> 'a option" where
  "filter_option P x = (case x of None \<Rightarrow> None | Some y \<Rightarrow> if P y then Some y else None)"

definition or_else :: "'a option \<Rightarrow> 'a option \<Rightarrow> 'a option" where
  "or_else x y = (case x of None \<Rightarrow> y | Some z \<Rightarrow> Some z)"

lemma and_then_simps [simp, result_simps]:
  "and_then (Ok x) f = f x"
  "and_then (Err e) f = Err e"
  by (simp_all add: and_then_def)

lemma and_then_eq_Ok:
  "and_then r f = Ok y \<longleftrightarrow> (\<exists>x. r = Ok x \<and> f x = Ok y)"
  by (cases r) auto

lemma option_plumbing_simps [simp, result_simps]:
  "ok_or e None = Err e" "ok_or e (Some a) = Ok a"
  "unwrap_or d None = d" "unwrap_or d (Some b) = b"
  "filter_option P None = None"
  "filter_option P (Some c) = (if P c then Some c else None)"
  "or_else None x = x" "or_else (Some z) x = Some z"
  by (simp_all add: ok_or_def unwrap_or_def filter_option_def or_else_def)

lemma ok_or_eq_Ok [simp]: "ok_or e x = Ok y \<longleftrightarrow> x = Some y"
  by (cases x) auto

lemma filter_option_eq_Some: "filter_option P x = Some y \<longleftrightarrow> x = Some y \<and> P y"
  by (cases x) auto

lemma unwrap_or_filter:
  "P d \<Longrightarrow> P (unwrap_or d (filter_option P x))"
  by (cases x) auto

text \<open>
  Errors are \<open>anyhow::Error\<close> values.  The code distinguishes the ones it later
  downcasts; every other error is its message.
\<close>

record reqwest_error =
  is_timeout :: bool
  is_connect :: bool
  is_body :: bool
  is_decode :: bool
  is_request :: bool
  reqwest_text :: string

datatype anyhow =
    Message string
  | ImageFetchStatus nat
  | Reqwest reqwest_error
  | WaitTimeout nat nat
  | Structured string string string string

section \<open>Strings\<close>

definition starts_with :: "string \<Rightarrow> string \<Rightarrow> bool" where
  "starts_with s p \<longleftrightarrow> take (length p) s = p"

definition ends_with :: "string \<Rightarrow> string \<Rightarrow> bool" where
  "ends_with s p \<longleftrightarrow> starts_with (rev s) (rev p)"

definition strip_prefix :: "string \<Rightarrow> string \<Rightarrow> string option" where
  "strip_prefix p s = (if starts_with s p then Some (drop (length p) s) else None)"

text \<open>
  \<open>str::trim\<close> removes characters with the Unicode White\_Space property.  On UTF-8
  bytes these are six one-byte, two two-byte and several three-byte sequences.
\<close>

definition ws1 :: "char \<Rightarrow> bool" where
  "ws1 c \<longleftrightarrow> c = CHR '' '' \<or> c = CHR 0x09 \<or> c = CHR 0x0A \<or> c = CHR 0x0B \<or> c = CHR 0x0C \<or> c = CHR 0x0D"

definition ws2 :: "char \<Rightarrow> char \<Rightarrow> bool" where
  "ws2 c d \<longleftrightarrow> c = CHR 0xC2 \<and> (d = CHR 0x85 \<or> d = CHR 0xA0)"

definition ws3 :: "char \<Rightarrow> char \<Rightarrow> char \<Rightarrow> bool" where
  "ws3 c d e \<longleftrightarrow>
     (c = CHR 0xE1 \<and> d = CHR 0x9A \<and> e = CHR 0x80)
   \<or> (c = CHR 0xE2 \<and> d = CHR 0x80 \<and>
        (e = CHR 0x80 \<or> e = CHR 0x81 \<or> e = CHR 0x82 \<or> e = CHR 0x83 \<or> e = CHR 0x84 \<or> e = CHR 0x85
       \<or> e = CHR 0x86 \<or> e = CHR 0x87 \<or> e = CHR 0x88 \<or> e = CHR 0x89 \<or> e = CHR 0x8A
       \<or> e = CHR 0xA8 \<or> e = CHR 0xA9 \<or> e = CHR 0xAF))
   \<or> (c = CHR 0xE2 \<and> d = CHR 0x81 \<and> e = CHR 0x9F)
   \<or> (c = CHR 0xE3 \<and> d = CHR 0x80 \<and> e = CHR 0x80)"

fun trim_start :: "string \<Rightarrow> string" where
  "trim_start [] = []"
| "trim_start (c # s) =
     (if ws1 c then trim_start s
      else (case s of
              [] \<Rightarrow> [c]
            | d # s' \<Rightarrow>
                if ws2 c d then trim_start s'
                else (case s' of
                        [] \<Rightarrow> c # s
                      | e # s'' \<Rightarrow> if ws3 c d e then trim_start s'' else c # s)))"

text \<open>The same from the end: the string is reversed, so the sequences are too.\<close>

fun trim_rev :: "string \<Rightarrow> string" where
  "trim_rev [] = []"
| "trim_rev (c # s) =
     (if ws1 c then trim_rev s
      else (case s of
              [] \<Rightarrow> [c]
            | d # s' \<Rightarrow>
                if ws2 d c then trim_rev s'
                else (case s' of
                        [] \<Rightarrow> c # s
                      | e # s'' \<Rightarrow> if ws3 e d c then trim_rev s'' else c # s)))"

definition trim_end :: "string \<Rightarrow> string" where
  "trim_end s = rev (trim_rev (rev s))"

definition str_trim :: "string \<Rightarrow> string" where
  "str_trim s = trim_end (trim_start s)"

text \<open>\<open>trim_matches(c)\<close>, \<open>trim_start_matches(c)\<close> and \<open>trim_end_matches(c)\<close> for one ASCII character.\<close>

definition trim_start_matches :: "char \<Rightarrow> string \<Rightarrow> string" where
  "trim_start_matches c s = dropWhile (\<lambda>d. d = c) s"

definition trim_end_matches :: "char \<Rightarrow> string \<Rightarrow> string" where
  "trim_end_matches c s = rev (dropWhile (\<lambda>d. d = c) (rev s))"

definition trim_matches :: "char \<Rightarrow> string \<Rightarrow> string" where
  "trim_matches c s = trim_end_matches c (trim_start_matches c s)"

definition ascii_lower :: "char \<Rightarrow> char" where
  "ascii_lower c =
     (let n = (of_char c :: nat) in if 65 \<le> n \<and> n \<le> 90 then char_of (n + 32) else c)"

definition to_ascii_lowercase :: "string \<Rightarrow> string" where
  "to_ascii_lowercase s = map ascii_lower s"

definition eq_ignore_ascii_case :: "string \<Rightarrow> string \<Rightarrow> bool" where
  "eq_ignore_ascii_case s t \<longleftrightarrow> to_ascii_lowercase s = to_ascii_lowercase t"

text \<open>\<open>str::split(c)\<close> and \<open>str::split_once(c)\<close> for one ASCII character.\<close>

fun split_on :: "char \<Rightarrow> string \<Rightarrow> string list" where
  "split_on c [] = [[]]"
| "split_on c (d # s) =
     (if d = c then [] # split_on c s
      else (case split_on c s of [] \<Rightarrow> [[d]] | p # ps \<Rightarrow> (d # p) # ps))"

fun split_once :: "char \<Rightarrow> string \<Rightarrow> (string \<times> string) option" where
  "split_once c [] = None"
| "split_once c (d # s) =
     (if d = c then Some ([], s)
      else map_option (\<lambda>(a, b). (d # a, b)) (split_once c s))"

text \<open>\<open>str::split_once(p)\<close> and \<open>str::find(p)\<close> for a string pattern.\<close>

fun split_once_str :: "string \<Rightarrow> string \<Rightarrow> (string \<times> string) option" where
  "split_once_str p [] = (if p = [] then Some ([], []) else None)"
| "split_once_str p (d # s) =
     (if starts_with (d # s) p then Some ([], drop (length p) (d # s))
      else map_option (\<lambda>(a, b). (d # a, b)) (split_once_str p s))"

text \<open>\<open>str::replace(c, p)\<close> for one ASCII character.\<close>

definition replace_char :: "char \<Rightarrow> string \<Rightarrow> string \<Rightarrow> string" where
  "replace_char c p s = concat (map (\<lambda>d. if d = c then p else [d]) s)"

subsection \<open>Decimal numbers\<close>

definition digit_val :: "char \<Rightarrow> nat option" where
  "digit_val c = (let n = (of_char c :: nat) in if 48 \<le> n \<and> n \<le> 57 then Some (n - 48) else None)"

fun digits_val :: "nat \<Rightarrow> string \<Rightarrow> nat option" where
  "digits_val acc [] = Some acc"
| "digits_val acc (c # s) =
     (case digit_val c of None \<Rightarrow> None | Some d \<Rightarrow> digits_val (10 * acc + d) s)"

text \<open>
  \<open>str::parse\<close> at an unsigned type: a non-empty digit string with an optional leading
  \<open>+\<close>, and an error when the value does not fit.
\<close>

definition parse_unsigned :: "nat \<Rightarrow> string \<Rightarrow> nat option" where
  "parse_unsigned bound s =
     (let ds = (case s of c # r \<Rightarrow> if c = CHR ''+'' then r else s | [] \<Rightarrow> [])
      in if ds = [] then None
         else filter_option (\<lambda>n. n < bound) (digits_val 0 ds))"

definition parse_u64 :: "string \<Rightarrow> u64 option" where
  "parse_u64 s = map_option of_nat (parse_unsigned (2 ^ 64) s)"

definition parse_u16 :: "string \<Rightarrow> u16 option" where
  "parse_u16 s = map_option of_nat (parse_unsigned (2 ^ 16) s)"

definition parse_u8 :: "string \<Rightarrow> u8 option" where
  "parse_u8 s = map_option of_nat (parse_unsigned (2 ^ 8) s)"

text \<open>\<open>format!("{n}")\<close> for an unsigned number.\<close>

fun show_nat :: "nat \<Rightarrow> string" where
  "show_nat n =
     (if n < 10 then [char_of (48 + n)] else show_nat (n div 10) @ [char_of (48 + n mod 10)])"

declare show_nat.simps [simp del]

section \<open>Lemmas on the string library\<close>

lemma starts_with_append [simp]: "starts_with (p @ s) p"
  by (simp add: starts_with_def)

lemma starts_with_iff: "starts_with s p \<longleftrightarrow> (\<exists>r. s = p @ r)"
  by (metis append_take_drop_id starts_with_append starts_with_def)

lemma ends_with_iff: "ends_with s p \<longleftrightarrow> (\<exists>r. s = r @ p)"
proof
  assume "ends_with s p"
  then obtain r where "rev s = rev p @ r"
    by (auto simp: ends_with_def starts_with_iff)
  then have "s = rev r @ p" by (metis rev_append rev_rev_ident)
  then show "\<exists>r. s = r @ p" ..
qed (auto simp: ends_with_def starts_with_iff)

lemma strip_prefix_eq_Some: "strip_prefix p s = Some r \<longleftrightarrow> s = p @ r"
  by (auto simp: strip_prefix_def starts_with_iff)

lemma split_once_append:
  "split_once c s = Some (a, b) \<Longrightarrow> s = a @ c # b \<and> c \<notin> set a"
  by (induction s arbitrary: a b) (auto split: if_splits)

lemma split_once_None: "split_once c s = None \<longleftrightarrow> c \<notin> set s"
  by (induction s) auto

lemma split_once_hit [simp]: "c \<notin> set a \<Longrightarrow> split_once c (a @ c # b) = Some (a, b)"
  by (induction a) auto

lemma split_once_str_append: "split_once_str p s = Some (a, b) \<Longrightarrow> s = a @ p @ b"
proof (induction s arbitrary: a b)
  case (Cons d s)
  show ?case
  proof (cases "starts_with (d # s) p")
    case True
    then have "take (length p) (d # s) = p" by (simp add: starts_with_def)
    with True Cons.prems show ?thesis by (metis append_Nil append_take_drop_id option.inject prod.inject split_once_str.simps(2))
  next
    case False
    with Cons show ?thesis by (auto split: prod.splits)
  qed
qed (auto split: if_splits)

lemma split_on_nonempty [simp]: "split_on c s \<noteq> []"
  by (induction s) (auto split: list.splits)

lemma split_on_no_sep: "c \<notin> set s \<Longrightarrow> split_on c s = [s]"
  by (induction s) auto

lemma split_on_append:
  "c \<notin> set a \<Longrightarrow> split_on c (a @ c # b) = a # split_on c b"
  by (induction a) auto

lemma split_on_parts: "p \<in> set (split_on c s) \<Longrightarrow> c \<notin> set p"
  by (induction s arbitrary: p) (auto split: if_splits list.splits)

lemma replace_char_append: "replace_char c p (s @ t) = replace_char c p s @ replace_char c p t"
  by (simp add: replace_char_def)

lemma replace_char_Cons:
  "replace_char c p (d # s) = (if d = c then p else [d]) @ replace_char c p s"
  by (simp add: replace_char_def)

lemma replace_char_Nil [simp]: "replace_char c p [] = []"
  by (simp add: replace_char_def)

lemma ascii_lower_idem [simp]: "ascii_lower (ascii_lower c) = ascii_lower c"
proof -
  have lt: "(of_char c :: nat) < 256" by simp
  show ?thesis
  proof (cases "65 \<le> (of_char c :: nat) \<and> (of_char c :: nat) \<le> 90")
    case True
    then have "(of_char (char_of (of_char c + 32 :: nat) :: char) :: nat) = of_char c + 32"
      by simp
    with True show ?thesis by (simp add: ascii_lower_def Let_def)
  qed (auto simp: ascii_lower_def Let_def)
qed

lemma to_ascii_lowercase_idem [simp]: "to_ascii_lowercase (to_ascii_lowercase s) = to_ascii_lowercase s"
  by (simp add: to_ascii_lowercase_def comp_def)

lemma length_to_ascii_lowercase [simp]: "length (to_ascii_lowercase s) = length s"
  by (simp add: to_ascii_lowercase_def)

lemma to_ascii_lowercase_Nil_iff [simp]: "to_ascii_lowercase s = [] \<longleftrightarrow> s = []"
  by (simp add: to_ascii_lowercase_def)

lemma to_ascii_lowercase_append [simp]:
  "to_ascii_lowercase (s @ t) = to_ascii_lowercase s @ to_ascii_lowercase t"
  by (simp add: to_ascii_lowercase_def)

lemma parse_unsigned_bound: "parse_unsigned b s = Some n \<Longrightarrow> n < b"
  by (auto simp: parse_unsigned_def Let_def filter_option_eq_Some split: if_splits)

lemma parse_unsigned_nonempty: "parse_unsigned b s = Some n \<Longrightarrow> s \<noteq> []"
  by (auto simp: parse_unsigned_def Let_def split: list.splits if_splits)

definition graphic :: "char \<Rightarrow> bool" where
  "graphic c \<longleftrightarrow> 32 < (of_char c :: nat) \<and> (of_char c :: nat) < 128"

lemma graphic_not_ws: "graphic c \<Longrightarrow> \<not> ws1 c" "graphic c \<Longrightarrow> \<not> ws2 c d" "graphic c \<Longrightarrow> \<not> ws3 c d e"
  "graphic d \<Longrightarrow> \<not> ws2 c d" "graphic e \<Longrightarrow> \<not> ws3 c d e"
  by (auto simp: graphic_def ws1_def ws2_def ws3_def)

lemma trim_start_graphic: "list_all graphic s \<Longrightarrow> trim_start s = s"
proof (cases s)
  case (Cons c s')
  assume "list_all graphic s"
  with Cons show ?thesis by (simp add: graphic_not_ws split: list.split)
qed simp

lemma trim_rev_graphic: "list_all graphic s \<Longrightarrow> trim_rev s = s"
proof (cases s)
  case (Cons c s')
  assume "list_all graphic s"
  with Cons show ?thesis by (simp add: graphic_not_ws split: list.split)
qed simp

lemma str_trim_graphic: "list_all graphic s \<Longrightarrow> str_trim s = s"
  by (simp add: str_trim_def trim_end_def trim_start_graphic trim_rev_graphic)

subsection \<open>Decimal text and its reading are inverse\<close>

lemma digit_val_char_of [simp]: "n < 10 \<Longrightarrow> digit_val (char_of (48 + n)) = Some n"
  by (simp add: digit_val_def)

lemma digits_val_append:
  "digits_val acc (s @ t) = (case digits_val acc s of None \<Rightarrow> None | Some v \<Rightarrow> digits_val v t)"
  by (induction s arbitrary: acc) (auto split: option.splits)

lemma digits_val_show_nat: "digits_val 0 (show_nat n) = Some n"
proof (induction n rule: show_nat.induct)
  case (1 n)
  show ?case
  proof (cases "n < 10")
    case True
    then show ?thesis by (simp add: show_nat.simps [of n])
  next
    case False
    with 1 have "digits_val 0 (show_nat (n div 10)) = Some (n div 10)" by simp
    with False show ?thesis
      by (simp add: show_nat.simps [of n] digits_val_append)
  qed
qed

lemma show_nat_nonempty [simp]: "show_nat n \<noteq> []"
  by (subst show_nat.simps) simp

lemma show_nat_inj: "show_nat m = show_nat n \<Longrightarrow> m = n"
  by (metis digits_val_show_nat option.inject)

lemma show_nat_eq_iff [simp]: "show_nat m = show_nat n \<longleftrightarrow> m = n"
  using show_nat_inj by blast

lemma show_nat_digits: "c \<in> set (show_nat n) \<Longrightarrow> digit_val c \<noteq> None"
proof (induction n rule: show_nat.induct)
  case (1 n)
  then show ?case
    by (cases "n < 10") (auto simp: show_nat.simps [of n])
qed

lemma digit_not_special [simp]:
  "digit_val (CHR ''/'') = None" "digit_val (CHR ''~'') = None" "digit_val (CHR ''+'') = None"
  by (simp_all add: digit_val_def)

lemma show_nat_no_special [simp]:
  "CHR ''/'' \<notin> set (show_nat n)" "CHR ''~'' \<notin> set (show_nat n)" "CHR ''+'' \<notin> set (show_nat n)"
  using show_nat_digits digit_not_special by blast+

lemma parse_unsigned_show_nat: "n < b \<Longrightarrow> parse_unsigned b (show_nat n) = Some n"
  using show_nat_no_special(3) [of n] show_nat_nonempty [of n] digits_val_show_nat [of n]
  by (cases "show_nat n") (auto simp: parse_unsigned_def)

section \<open>Words\<close>

definition checked_add :: "u64 \<Rightarrow> u64 \<Rightarrow> u64 option" where
  "checked_add a b = (if unat a + unat b < 2 ^ 64 then Some (a + b) else None)"

definition saturating_sub :: "u64 \<Rightarrow> u64 \<Rightarrow> u64" where
  "saturating_sub a b = (if b \<le> a then a - b else 0)"

lemma unat_add_no_wrap: "unat (a :: u64) + unat b < 2 ^ 64 \<Longrightarrow> unat (a + b) = unat a + unat b"
  by (simp add: unat_word_ariths)

lemma checked_add_eq_Some:
  "checked_add a b = Some c \<longleftrightarrow> unat a + unat b < 2 ^ 64 \<and> c = a + b"
  by (auto simp: checked_add_def)

lemma checked_add_unat: "checked_add a b = Some c \<Longrightarrow> unat c = unat a + unat b"
  by (auto simp: checked_add_eq_Some unat_add_no_wrap)

lemma unat_saturating_sub: "unat (saturating_sub a b) = unat a - unat b"
  by (auto simp: saturating_sub_def unat_sub word_le_nat_alt)

lemma unat_of_nat_u64: "n < 2 ^ 64 \<Longrightarrow> unat (of_nat n :: u64) = n"
  by (simp add: unat_of_nat)

lemma unat_succ: "(a :: u64) \<noteq> - 1 \<Longrightarrow> unat (a + 1) = unat a + 1"
proof -
  assume "a \<noteq> - 1"
  then have "unat a \<noteq> unat (- 1 :: u64)" by (simp only: word_unat_eq_iff not_False_eq_True)
  then have "unat a \<noteq> 2 ^ 64 - 1" by (simp add: unsigned_minus_1_eq_mask mask_eq_exp_minus_1)
  moreover have "unat a < 2 ^ 64" using unsigned_less [of a] by simp
  ultimately show ?thesis using unat_add_no_wrap [of a 1] by simp
qed

lemmas string_defs [str_simps] =
  starts_with_def ends_with_def strip_prefix_def trim_end_def str_trim_def ws1_def ws2_def ws3_def
  trim_start_matches_def trim_end_matches_def trim_matches_def ascii_lower_def
  to_ascii_lowercase_def eq_ignore_ascii_case_def replace_char_def digit_val_def
  parse_unsigned_def parse_u64_def parse_u16_def parse_u8_def Let_def

end
