(* ===== verification/Interleaving.thy ===== *)
theory Interleaving
  imports Proxy_Prelude
begin

text \<open>
  Tasks that share a state and are interleaved: the runtime moves one task at a time, from one
  of its await points to the next, in any order.  The pool maps the number of a task to what is
  left of it; a task that is dropped vanishes at its await point without running any further.

  The locale \<open>owned_tasks\<close> is the discipline under which such tasks do not disturb each other: a
  task may own one handle of a shared store, it creates the entry itself, and no step destroys
  an entry that another task may own.  Under it every owned entry is the one its owner made, and
  an entry whose owner has left stays for good.
\<close>

section \<open>The pool\<close>

inductive pool_step :: "('t \<Rightarrow> 's \<Rightarrow> 't \<Rightarrow> 's \<Rightarrow> bool) \<Rightarrow> ('t \<Rightarrow> bool) \<Rightarrow> ('t \<Rightarrow> bool)
    \<Rightarrow> (nat \<Rightarrow> 't option) \<times> 's \<Rightarrow> (nat \<Rightarrow> 't option) \<times> 's \<Rightarrow> bool"
  for step arrival droppable where
  arrive: "pool i = None \<Longrightarrow> arrival t \<Longrightarrow> pool_step step arrival droppable (pool, s) (pool(i \<mapsto> t), s)"
| move: "pool i = Some t \<Longrightarrow> step t s t' s' \<Longrightarrow> pool_step step arrival droppable (pool, s) (pool(i \<mapsto> t'), s')"
| dropped: "pool i = Some t \<Longrightarrow> droppable t \<Longrightarrow> pool_step step arrival droppable (pool, s) (pool(i := None), s)"

inductive_cases pool_stepE: "pool_step step arrival droppable (pool, s) c"

section \<open>The discipline\<close>

locale owned_tasks =
  fixes step :: "'t \<Rightarrow> 's \<Rightarrow> 't \<Rightarrow> 's \<Rightarrow> bool"
    and arrival :: "'t \<Rightarrow> bool"
    and ok :: "'t \<Rightarrow> bool"
    and good :: "'s \<Rightarrow> bool"
    and contents :: "'s \<Rightarrow> 'h \<Rightarrow> 'b option"
    and owns :: "'t \<Rightarrow> 'h option"
    and due :: "'t \<Rightarrow> 'b \<Rightarrow> bool"
  assumes arrival_ok: "arrival t \<Longrightarrow> ok t \<and> owns t = None"
    and step_good: "step t s t' s' \<Longrightarrow> good s \<Longrightarrow> ok t \<Longrightarrow> \<forall>h. owns t = Some h \<longrightarrow> (\<exists>b. contents s h = Some b \<and> due t b) \<Longrightarrow>
      good s' \<and> ok t'"
    and step_frame: "step t s t' s' \<Longrightarrow> good s \<Longrightarrow> ok t \<Longrightarrow> \<forall>h. owns t = Some h \<longrightarrow> (\<exists>b. contents s h = Some b \<and> due t b) \<Longrightarrow>
      contents s h = Some b \<Longrightarrow> owns t \<noteq> Some h \<Longrightarrow>
      contents s' h = Some b"
    and step_makes: "step t s t' s' \<Longrightarrow> good s \<Longrightarrow> ok t \<Longrightarrow> owns t' = Some h \<Longrightarrow>
      contents s h = None \<and> (\<exists>b. contents s' h = Some b \<and> due t' b)"
begin

definition held :: "'t \<Rightarrow> 's \<Rightarrow> bool" where
  "held t s \<longleftrightarrow> ok t \<and> (\<forall>h. owns t = Some h \<longrightarrow> (\<exists>b. contents s h = Some b \<and> due t b))"

definition separate :: "(nat \<Rightarrow> 't option) \<times> 's \<Rightarrow> bool" where
  "separate c \<longleftrightarrow>
     good (snd c) \<and> (\<forall>i t. fst c i = Some t \<longrightarrow> held t (snd c))
   \<and> (\<forall>i j t u h. fst c i = Some t \<longrightarrow> fst c j = Some u \<longrightarrow> owns t = Some h \<longrightarrow> owns u = Some h \<longrightarrow> i = j)"

lemma separateD:
  assumes "separate (pool, s)"
  shows "good s" "pool i = Some t \<Longrightarrow> held t s"
    "pool i = Some t \<Longrightarrow> pool j = Some u \<Longrightarrow> owns t = Some h \<Longrightarrow> owns u = Some h \<Longrightarrow> i = j"
  using assms unfolding separate_def fst_conv snd_conv by blast+

lemma separateI:
  assumes "good s" "\<And>i t. pool i = Some t \<Longrightarrow> held t s"
    and "\<And>i j t u h. pool i = Some t \<Longrightarrow> pool j = Some u \<Longrightarrow> owns t = Some h \<Longrightarrow> owns u = Some h \<Longrightarrow> i = j"
  shows "separate (pool, s)"
  using assms unfolding separate_def fst_conv snd_conv by blast

lemma held_step: "step t s t' s' \<Longrightarrow> good s \<Longrightarrow> held t s \<Longrightarrow> good s' \<and> held t' s'"
  using step_good [of t s t' s'] step_makes [of t s t' s'] unfolding held_def by blast

lemma held_other:
  assumes "step t s t' s'" "good s" "held t s" "held u s" "\<And>h. owns u = Some h \<Longrightarrow> owns t \<noteq> Some h"
  shows "held u s'"
  using assms step_frame [OF assms(1,2)] unfolding held_def by metis

lemma makes_other: "step t s t' s' \<Longrightarrow> good s \<Longrightarrow> held t s \<Longrightarrow> held u s \<Longrightarrow> owns u = Some h \<Longrightarrow> owns t' \<noteq> Some h"
  using step_makes [of t s t' s' h] unfolding held_def by fastforce

lemma separate_start: "good s \<Longrightarrow> separate (Map.empty, s)"
  by (intro separateI) simp_all

lemma separate_arrive:
  assumes "separate (pool, s)" "arrival t"
  shows "separate (pool(i \<mapsto> t), s)"
proof (rule separateI)
  note t = arrival_ok [OF assms(2)] and D = separateD [OF assms(1)]
  show "good s" by (rule D(1))
  show "held u s" if "(pool(i \<mapsto> t)) j = Some u" for j u
    using that t D(2) by (cases "j = i") (simp_all add: held_def)
  show "a = b" if "(pool(i \<mapsto> t)) a = Some x" "(pool(i \<mapsto> t)) b = Some y" "owns x = Some h" "owns y = Some h" for a b x y h
    using that t D(3) [of a x b y h] by (cases "a = i"; cases "b = i") simp_all
qed

lemma separate_move:
  assumes "separate (pool, s)" "pool i = Some t" "step t s t' s'"
  shows "separate (pool(i \<mapsto> t'), s')"
proof (rule separateI)
  note D = separateD [OF assms(1)]
  note own = D(2) [OF assms(2)]
  show "good s'" using held_step [OF assms(3) D(1) own] ..
  show "held u s'" if "(pool(i \<mapsto> t')) j = Some u" for j u
  proof (cases "j = i")
    case True
    then show ?thesis using that held_step [OF assms(3) D(1) own] by simp
  next
    case False
    then have u: "pool j = Some u" using that by simp
    show ?thesis using False D(3) [OF assms(2) u] by (intro held_other [OF assms(3) D(1) own D(2) [OF u]]) blast
  qed
  have new: "owns t' \<noteq> Some h" if "pool j = Some u" "owns u = Some h" for j u h
    using makes_other [OF assms(3) D(1) own D(2) [OF that(1)] that(2)] .
  show "a = b" if "(pool(i \<mapsto> t')) a = Some x" "(pool(i \<mapsto> t')) b = Some y" "owns x = Some h" "owns y = Some h" for a b x y h
    using that new [of a x h] new [of b y h] D(3) [of a x b y h] by (cases "a = i"; cases "b = i") simp_all
qed

lemma separate_drop: "separate (pool, s) \<Longrightarrow> separate (pool(i := None), s)"
  unfolding separate_def by (auto split: if_splits)

lemma separate_step: "pool_step step arrival droppable c c' \<Longrightarrow> separate c \<Longrightarrow> separate c'"
proof (induction rule: pool_step.induct)
  case (arrive pool i t s)
  show ?case using arrive(3,2) by (rule separate_arrive)
next
  case (move pool i t s t' s')
  show ?case using move(3,1,2) by (rule separate_move)
next
  case (dropped pool i t s)
  show ?case using dropped(3) by (rule separate_drop)
qed

lemma separate_reachable:
  assumes "(pool_step step arrival droppable)\<^sup>*\<^sup>* (Map.empty, s0) c" "good s0"
  shows "separate c"
  using assms(1)
proof (induction rule: rtranclp_induct)
  case base
  show ?case using assms(2) by (rule separate_start)
next
  case (step y z)
  show ?case using step(2,3) by (rule separate_step)
qed

text \<open>What a task owns stays as it is while another moves.\<close>

lemma owned_stable:
  assumes "separate (pool, s)" "pool i = Some t" "owns t = Some h" "pool j = Some u" "j \<noteq> i" "step u s u' s'"
  shows "contents s' h = contents s h"
proof -
  note D = separateD [OF assms(1)]
  from D(2) [OF assms(2)] assms(3) obtain b where b: "contents s h = Some b" unfolding held_def by blast
  have u: "ok u" "owns u \<noteq> Some h" using D(2) [OF assms(4)] D(3) [OF assms(2,4,3)] assms(5) unfolding held_def by blast+
  have "\<forall>h. owns u = Some h \<longrightarrow> (\<exists>b. contents s h = Some b \<and> due u b)" using D(2) [OF assms(4)] unfolding held_def by blast
  from step_frame [OF assms(6) D(1) u(1) this b u(2)] b show ?thesis by simp
qed

text \<open>An entry that no task owns any more stays: nothing but its owner would have removed it.\<close>

definition abandoned :: "'h \<Rightarrow> 'b \<Rightarrow> (nat \<Rightarrow> 't option) \<times> 's \<Rightarrow> bool" where
  "abandoned h b c \<longleftrightarrow> contents (snd c) h = Some b \<and> (\<forall>i t. fst c i = Some t \<longrightarrow> owns t \<noteq> Some h)"

lemma abandoned_step: "pool_step step arrival droppable c c' \<Longrightarrow> separate c \<Longrightarrow> abandoned h b c \<Longrightarrow> abandoned h b c'"
proof (induction rule: pool_step.induct)
  case (arrive pool i t s)
  then show ?case using arrival_ok [of t] by (auto simp: abandoned_def)
next
  case (move pool i t s t' s')
  note own = separateD(2) [OF move(3,1)]
  have other: "contents s h = Some b" "owns t \<noteq> Some h" using move(1,4) by (auto simp: abandoned_def)
  have "contents s' h = Some b" using step_frame [OF move(2) separateD(1) [OF move(3)]] own other unfolding held_def by blast
  moreover have "owns t' \<noteq> Some h"
    using step_makes [OF move(2) separateD(1) [OF move(3)]] own other(1) unfolding held_def by fastforce
  ultimately show ?case using move(4) by (auto simp: abandoned_def)
next
  case (dropped pool i t s)
  then show ?case by (auto simp: abandoned_def)
qed

lemma abandoned_forever:
  assumes "(pool_step step arrival droppable)\<^sup>*\<^sup>* c c'" "separate c" "abandoned h b c"
  shows "abandoned h b c'"
proof -
  have "separate c' \<and> abandoned h b c'"
    using assms(1)
  proof (induction rule: rtranclp_induct)
    case base
    show ?case using assms(2,3) ..
  next
    case (step y z)
    then show ?case using separate_step abandoned_step by blast
  qed
  then show ?thesis ..
qed

end

end
