(* ===== verification/Json_Value.thy ===== *)
theory Json_Value
  imports Proxy_Prelude
begin

text \<open>
  JSON documents as the proxy handles them: \<open>serde_json::Value\<close>, built with the crate's
  \<open>preserve_order\<close> feature (rust-sync-proxy/Cargo.toml).  An object is then a list of
  entries in insertion order with distinct keys: \<open>insert\<close> replaces the value of an
  existing key in place and appends a new one, \<open>remove\<close> is documented as a swap-remove,
  which moves the last entry into the gap.

  The file holds the data type, the accessors the code calls, RFC 6901 pointers with the
  proxy's own token escaping, the well-formedness predicate (distinct keys everywhere), and
  the locale \<open>string_map\<close>: what the clients of an object may rely on.
\<close>

named_theorems json_simps \<open>accessors of JSON values\<close>

section \<open>Values\<close>

datatype number = PosInt u64 | NegInt i64 | Float u64

datatype json =
    JNull
  | JBool bool
  | JNumber number
  | JString string
  | JArray "json list"
  | JObject "(string \<times> json) list"

type_synonym fields = "(string \<times> json) list"

definition map_get :: "fields \<Rightarrow> string \<Rightarrow> json option" where
  "map_get m k = map_of m k"

fun map_insert :: "string \<Rightarrow> json \<Rightarrow> fields \<Rightarrow> fields" where
  "map_insert k v [] = [(k, v)]"
| "map_insert k v ((k', v') # m) =
     (if k' = k then (k, v) # m else (k', v') # map_insert k v m)"

fun map_remove :: "string \<Rightarrow> fields \<Rightarrow> fields" where
  "map_remove k [] = []"
| "map_remove k ((k', v') # m) =
     (if k' = k then (if m = [] then [] else last m # butlast m)
      else (k', v') # map_remove k m)"

definition map_or_insert :: "string \<Rightarrow> json \<Rightarrow> fields \<Rightarrow> fields" where
  "map_or_insert k d m = (case map_get m k of None \<Rightarrow> map_insert k d m | Some _ \<Rightarrow> m)"

text \<open>Mutation of the value stored under a key (\<open>get_mut\<close>).\<close>

fun map_modify :: "string \<Rightarrow> (json \<Rightarrow> json) \<Rightarrow> fields \<Rightarrow> fields" where
  "map_modify k f [] = []"
| "map_modify k f ((k', v') # m) =
     (if k' = k then (k', f v') # m else (k', v') # map_modify k f m)"

fun as_str :: "json \<Rightarrow> string option" where
  "as_str (JString s) = Some s"
| "as_str _ = None"

fun as_object :: "json \<Rightarrow> fields option" where
  "as_object (JObject m) = Some m"
| "as_object _ = None"

fun as_array :: "json \<Rightarrow> json list option" where
  "as_array (JArray xs) = Some xs"
| "as_array _ = None"

text \<open>\<open>as_i64\<close>: a non-negative integer above \<open>i64::MAX\<close> does not fit.\<close>

fun as_i64 :: "json \<Rightarrow> i64 option" where
  "as_i64 (JNumber (PosInt n)) = (if unat n < 2 ^ 63 then Some n else None)"
| "as_i64 (JNumber (NegInt n)) = Some n"
| "as_i64 _ = None"

definition json_get :: "json \<Rightarrow> string \<Rightarrow> json option" where
  "json_get v k = (case v of JObject m \<Rightarrow> map_get m k | _ \<Rightarrow> None)"

section \<open>Pointers\<close>

text \<open>\<open>str::replace\<close> for a two-character pattern, left to right, without overlaps.\<close>

fun replace_pair :: "char \<Rightarrow> char \<Rightarrow> string \<Rightarrow> string \<Rightarrow> string" where
  "replace_pair a b p (c # d # s) =
     (if c = a \<and> d = b then p @ replace_pair a b p s else c # replace_pair a b p (d # s))"
| "replace_pair a b p s = s"

definition unescape_token :: "string \<Rightarrow> string" where
  "unescape_token t = replace_pair (CHR ''~'') (CHR ''0'') ''~'' (replace_pair (CHR ''~'') (CHR ''1'') ''/'' t)"

definition escape_json_pointer_token :: "string \<Rightarrow> string" where
  "escape_json_pointer_token t =
     replace_char (CHR ''/'') ''~1'' (replace_char (CHR ''~'') ''~0'' t)"

definition parse_index :: "string \<Rightarrow> nat option" where
  "parse_index t =
     (if starts_with t ''+'' \<or> (starts_with t ''0'' \<and> length t \<noteq> 1) \<or> t = [] then None
      else digits_val 0 t)"

fun resolve :: "string list \<Rightarrow> json \<Rightarrow> json option" where
  "resolve [] v = Some v"
| "resolve (t # ts) v =
     (case v of
        JObject m \<Rightarrow> (case map_get m t of None \<Rightarrow> None | Some w \<Rightarrow> resolve ts w)
      | JArray xs \<Rightarrow>
          (case parse_index t of
             None \<Rightarrow> None
           | Some i \<Rightarrow> if i < length xs then resolve ts (xs ! i) else None)
      | _ \<Rightarrow> None)"

definition pointer_tokens :: "string \<Rightarrow> string list option" where
  "pointer_tokens p =
     (case p of
        [] \<Rightarrow> Some []
      | c # r \<Rightarrow> if c = CHR ''/'' then Some (map unescape_token (split_on (CHR ''/'') r)) else None)"

definition pointer :: "string \<Rightarrow> json \<Rightarrow> json option" where
  "pointer p v = (case pointer_tokens p of None \<Rightarrow> None | Some ts \<Rightarrow> resolve ts v)"

text \<open>Mutation through \<open>pointer_mut\<close>: nothing happens when the pointer does not resolve.\<close>

fun update_at :: "string list \<Rightarrow> (json \<Rightarrow> json) \<Rightarrow> json \<Rightarrow> json" where
  "update_at [] f v = f v"
| "update_at (t # ts) f v =
     (case v of
        JObject m \<Rightarrow> JObject (map_modify t (update_at ts f) m)
      | JArray xs \<Rightarrow>
          (case parse_index t of
             None \<Rightarrow> v
           | Some i \<Rightarrow> if i < length xs then JArray (xs[i := update_at ts f (xs ! i)]) else v)
      | _ \<Rightarrow> v)"

definition pointer_modify :: "string \<Rightarrow> (json \<Rightarrow> json) \<Rightarrow> json \<Rightarrow> json" where
  "pointer_modify p f v = (case pointer_tokens p of None \<Rightarrow> v | Some ts \<Rightarrow> update_at ts f v)"

section \<open>Well-formed documents\<close>

fun json_wf :: "json \<Rightarrow> bool"
  and fields_wf :: "fields \<Rightarrow> bool"
  and items_wf :: "json list \<Rightarrow> bool" where
  "json_wf (JObject m) = (distinct (map fst m) \<and> fields_wf m)"
| "json_wf (JArray xs) = items_wf xs"
| "json_wf JNull = True"
| "json_wf (JBool b) = True"
| "json_wf (JNumber n) = True"
| "json_wf (JString s) = True"
| "fields_wf [] = True"
| "fields_wf ((k, v) # m) = (json_wf v \<and> fields_wf m)"
| "items_wf [] = True"
| "items_wf (x # xs) = (json_wf x \<and> items_wf xs)"

lemma fields_wf_iff: "fields_wf m \<longleftrightarrow> (\<forall>(k, v) \<in> set m. json_wf v)"
  by (induction m) auto

lemma items_wf_iff: "items_wf xs \<longleftrightarrow> (\<forall>x \<in> set xs. json_wf x)"
  by (induction xs) auto

section \<open>What objects promise\<close>

text \<open>
  The interface between \<open>serde_json::Map\<close> and its clients: a lookup after an insert or a
  removal, for maps that satisfy the invariant, and that both keep the invariant.
\<close>

locale string_map =
  fixes get :: "'m \<Rightarrow> string \<Rightarrow> 'v option"
    and ins :: "string \<Rightarrow> 'v \<Rightarrow> 'm \<Rightarrow> 'm"
    and rem :: "string \<Rightarrow> 'm \<Rightarrow> 'm"
    and inv :: "'m \<Rightarrow> bool"
  assumes get_ins: "inv m \<Longrightarrow> get (ins k v m) = (get m)(k := Some v)"
    and get_rem: "inv m \<Longrightarrow> get (rem k m) = (get m)(k := None)"
    and inv_ins: "inv m \<Longrightarrow> inv (ins k v m)"
    and inv_rem: "inv m \<Longrightarrow> inv (rem k m)"
begin

lemma get_rem_same: "inv m \<Longrightarrow> get (rem k m) k = None"
  by (simp add: get_rem)

lemma get_rem_other: "inv m \<Longrightarrow> k' \<noteq> k \<Longrightarrow> get (rem k m) k' = get m k'"
  by (simp add: get_rem)

lemma get_ins_same: "inv m \<Longrightarrow> get (ins k v m) k = Some v"
  by (simp add: get_ins)

lemma get_ins_other: "inv m \<Longrightarrow> k' \<noteq> k \<Longrightarrow> get (ins k v m) k' = get m k'"
  by (simp add: get_ins)

lemma get_ins_twice:
  "inv m \<Longrightarrow> k1 \<noteq> k2 \<Longrightarrow> get (ins k2 v2 (ins k1 v1 m)) = (get m)(k1 \<mapsto> v1, k2 \<mapsto> v2)"
  by (simp add: get_ins inv_ins)

lemma get_rem_twice:
  "inv m \<Longrightarrow> get (rem k2 (rem k1 m)) = (get m)(k1 := None, k2 := None)"
  by (simp add: get_rem inv_rem)

end

lemma map_of_map_insert: "map_of (map_insert k v m) = (map_of m)(k \<mapsto> v)"
  by (induction m rule: map_insert.induct) auto

lemma keys_map_insert: "fst ` set (map_insert k v m) = insert k (fst ` set m)"
  by (induction k v m rule: map_insert.induct) auto

lemma distinct_map_insert: "distinct (map fst m) \<Longrightarrow> distinct (map fst (map_insert k v m))"
  by (induction k v m rule: map_insert.induct) (auto simp: keys_map_insert)

lemma swap_last:
  assumes "m \<noteq> []"
  shows "set (last m # butlast m) = set m"
    and "distinct (map fst m) \<Longrightarrow> distinct (map fst (last m # butlast m))"
proof -
  obtain xs x where m: "m = xs @ [x]" using assms by (metis append_butlast_last_id)
  show "set (last m # butlast m) = set m" by (simp add: m)
  show "distinct (map fst m) \<Longrightarrow> distinct (map fst (last m # butlast m))" by (simp add: m)
qed

lemma map_of_swap_last:
  assumes "m \<noteq> []" "distinct (map fst m)"
  shows "map_of (last m # butlast m) = map_of m"
  using swap_last [OF assms(1)] assms(2) by (metis map_of_eqI map_of_inject_set set_map)

lemma set_map_remove:
  "distinct (map fst m) \<Longrightarrow> set (map_remove k m) = {(k', v) \<in> set m. k' \<noteq> k}"
proof (induction m)
  case (Cons e m)
  obtain k' v' where e: "e = (k', v')" by (cases e)
  show ?case
  proof (cases "k' = k")
    case True
    with Cons.prems e have "k \<notin> fst ` set m" by (auto simp: image_iff)
    with True e show ?thesis
      using swap_last(1) [of m] by (cases "m = []") (auto simp: image_iff)
  next
    case False
    with Cons e show ?thesis by auto
  qed
qed simp

lemma distinct_map_remove: "distinct (map fst m) \<Longrightarrow> distinct (map fst (map_remove k m))"
proof (induction m)
  case (Cons e m)
  obtain k' v' where e: "e = (k', v')" by (cases e)
  have sub: "fst ` set (map_remove k m) \<subseteq> fst ` set m"
    using Cons.prems set_map_remove [of m k] by auto
  show ?case
    using Cons sub swap_last(2) [of m] e by auto
qed simp

lemma map_of_map_remove:
  "distinct (map fst m) \<Longrightarrow> map_of (map_remove k m) = (map_of m)(k := None)"
proof (induction m)
  case (Cons e m)
  obtain k' v' where e: "e = (k', v')" by (cases e)
  show ?case
  proof (cases "k' = k")
    case True
    with Cons.prems e have "map_of m k = None" by (simp add: map_of_eq_None_iff)
    with True e Cons.prems show ?thesis
      using map_of_swap_last [of m] by (cases "m = []") (auto simp: fun_eq_iff)
  next
    case False
    with Cons e show ?thesis by auto
  qed
qed simp

interpretation obj: string_map map_get map_insert map_remove "\<lambda>m. distinct (map fst m)"
  by unfold_locales
    (auto simp: map_get_def map_of_map_insert map_of_map_remove distinct_map_insert
       distinct_map_remove fun_eq_iff)

lemmas obj_laws = obj.get_ins obj.get_rem obj.inv_ins obj.inv_rem

lemma map_get_Nil [simp]: "map_get [] k = None"
  by (simp add: map_get_def)

lemma map_get_Cons [simp]: "map_get ((k', v) # m) k = (if k' = k then Some v else map_get m k)"
  by (simp add: map_get_def)

lemma map_get_in_set: "map_get m k = Some v \<Longrightarrow> (k, v) \<in> set m"
  by (simp add: map_get_def map_of_SomeD)

lemma map_get_eq_Some_iff:
  "distinct (map fst m) \<Longrightarrow> map_get m k = Some v \<longleftrightarrow> (k, v) \<in> set m"
  by (simp add: map_get_def)

lemma map_get_None_iff: "map_get m k = None \<longleftrightarrow> k \<notin> fst ` set m"
  by (simp add: map_get_def map_of_eq_None_iff)

lemma fields_wf_get: "fields_wf m \<Longrightarrow> map_get m k = Some v \<Longrightarrow> json_wf v"
  by (auto simp: fields_wf_iff dest: map_get_in_set)

lemma fields_wf_insert: "fields_wf m \<Longrightarrow> json_wf v \<Longrightarrow> fields_wf (map_insert k v m)"
  by (induction k v m rule: map_insert.induct) auto

lemma fields_wf_remove:
  "distinct (map fst m) \<Longrightarrow> fields_wf m \<Longrightarrow> fields_wf (map_remove k m)"
  by (auto simp: fields_wf_iff set_map_remove)

lemma map_modify_keys [simp]: "map fst (map_modify k f m) = map fst m"
  by (induction k f m rule: map_modify.induct) auto

lemma map_get_modify:
  "map_get (map_modify k f m) k' =
     (if k' = k then map_option f (map_get m k) else map_get m k')"
  by (induction k f m rule: map_modify.induct) auto

lemma fields_wf_modify:
  "fields_wf m \<Longrightarrow> (\<And>v. json_wf v \<Longrightarrow> json_wf (f v)) \<Longrightarrow> fields_wf (map_modify k f m)"
  by (induction k f m rule: map_modify.induct) auto

section \<open>Lemmas on pointers\<close>

lemma escape_token_Nil [simp]: "escape_json_pointer_token [] = []"
  by (simp add: escape_json_pointer_token_def)

lemma escape_token_Cons:
  "escape_json_pointer_token (c # t) =
     (if c = CHR ''~'' then ''~0'' else if c = CHR ''/'' then ''~1'' else [c])
     @ escape_json_pointer_token t"
  by (auto simp: escape_json_pointer_token_def replace_char_Cons replace_char_append)

lemma escape_token_no_slash [simp]: "CHR ''/'' \<notin> set (escape_json_pointer_token t)"
  by (induction t) (auto simp: escape_token_Cons)

lemma replace_pair_no_head: "c \<noteq> a \<Longrightarrow> replace_pair a b p (c # s) = c # replace_pair a b p s"
  by (cases s) auto

lemma unescape_slash_pass:
  "replace_pair (CHR ''~'') (CHR ''1'') ''/'' (escape_json_pointer_token t) =
     replace_char (CHR ''~'') ''~0'' t"
proof (induction t)
  case (Cons c t)
  then show ?case
    by (cases "c = CHR ''~''"; cases "c = CHR ''/''")
      (auto simp: escape_token_Cons replace_char_Cons replace_pair_no_head)
qed simp

lemma unescape_tilde_pass:
  "replace_pair (CHR ''~'') (CHR ''0'') ''~'' (replace_char (CHR ''~'') ''~0'' t) = t"
proof (induction t)
  case (Cons c t)
  then show ?case
    by (cases "c = CHR ''~''") (auto simp: replace_char_Cons replace_pair_no_head)
qed simp

lemma unescape_escape [simp]: "unescape_token (escape_json_pointer_token t) = t"
  by (simp add: unescape_token_def unescape_slash_pass unescape_tilde_pass)

lemma escape_token_inj: "escape_json_pointer_token s = escape_json_pointer_token t \<Longrightarrow> s = t"
  by (metis unescape_escape)

lemma replace_pair_absent: "a \<notin> set s \<Longrightarrow> replace_pair a b p s = s"
  by (induction a b p s rule: replace_pair.induct) auto

lemma unescape_show_nat [simp]: "unescape_token (show_nat n) = show_nat n"
  by (simp add: unescape_token_def replace_pair_absent)

lemma show_nat_leading_zero: "hd (show_nat n) = CHR ''0'' \<Longrightarrow> n = 0"
proof (induction n rule: show_nat.induct)
  case (1 n)
  show ?case
  proof (cases "n < 10")
    case True
    with 1 have "(of_char (char_of (48 + n) :: char) :: nat) = of_char (CHR ''0'')"
      by (simp add: show_nat.simps [of n])
    with True show ?thesis by simp
  next
    case False
    with 1 have "n div 10 = 0"
      by (simp add: show_nat.simps [of n] hd_append)
    with False show ?thesis by simp
  qed
qed

lemma parse_index_show_nat [simp]: "parse_index (show_nat n) = Some n"
proof -
  have plus: "\<not> starts_with (show_nat n) ''+''"
    by (metis append_Cons list.set_intros(1) show_nat_no_special(3) starts_with_iff)
  have zero: "starts_with (show_nat n) ''0'' \<Longrightarrow> length (show_nat n) = 1"
    using show_nat_leading_zero [of n] by (auto simp: starts_with_iff show_nat.simps [of 0])
  from plus zero show ?thesis by (auto simp: parse_index_def digits_val_show_nat)
qed

lemma digit_val_Some: "digit_val c = Some d \<Longrightarrow> d < 10 \<and> c = char_of (48 + d)"
  by (auto simp: digit_val_def Let_def split: if_splits)

lemma show_nat_digits_val:
  assumes "digits_val 0 t = Some n" "t \<noteq> []" "hd t = CHR ''0'' \<Longrightarrow> length t = 1"
  shows "show_nat n = t"
  using assms
proof (induction t arbitrary: n rule: rev_induct)
  case (snoc c s)
  then obtain m where m: "digits_val 0 s = Some m"
    by (auto simp: digits_val_append split: option.splits)
  obtain d where d: "digit_val c = Some d" "n = 10 * m + d"
    using snoc.prems(1) m by (auto simp: digits_val_append split: option.splits)
  note d' = digit_val_Some [OF d(1)]
  show ?case
  proof (cases "s = []")
    case True
    then show ?thesis using m d d' by (simp add: show_nat.simps [of d])
  next
    case False
    then have hd: "hd s \<noteq> CHR ''0''" using snoc.prems(3) by auto
    then have s: "show_nat m = s" using snoc.IH [OF m False] by simp
    moreover have "show_nat 0 = ''0''" by code_simp
    ultimately have "m \<noteq> 0" using hd by (metis list.sel(1))
    then show ?thesis using s d d' by (subst show_nat.simps) simp
  qed
qed simp

lemma parse_index_Some: "parse_index t = Some i \<longleftrightarrow> t = show_nat i"
proof
  assume p: "parse_index t = Some i"
  then have "hd t = CHR ''0'' \<Longrightarrow> length t = 1"
    by (cases t) (auto simp: parse_index_def starts_with_def split: if_splits)
  with p show "t = show_nat i"
    using show_nat_digits_val [of t i] by (auto simp: parse_index_def split: if_splits)
qed simp

lemma resolve_append:
  "resolve (ts @ us) v = (case resolve ts v of None \<Rightarrow> None | Some w \<Rightarrow> resolve us w)"
  by (induction ts v rule: resolve.induct) (auto split: json.splits option.splits)

lemma json_wf_resolve: "json_wf v \<Longrightarrow> resolve ts v = Some w \<Longrightarrow> json_wf w"
  by (induction ts v rule: resolve.induct)
    (auto split: json.splits option.splits if_splits
      simp: items_wf_iff dest: fields_wf_get)

lemma json_wf_update_at:
  "json_wf v \<Longrightarrow> (\<And>w. json_wf w \<Longrightarrow> json_wf (f w)) \<Longrightarrow> json_wf (update_at ts f v)"
proof (induction ts f v rule: update_at.induct)
  case (2 t ts f v)
  then show ?case
    by (cases v)
      (auto simp: items_wf_iff fields_wf_modify split: option.splits dest!: set_update_subset_insert [THEN subsetD])
qed simp

lemma json_wf_pointer_modify:
  "json_wf v \<Longrightarrow> (\<And>w. json_wf w \<Longrightarrow> json_wf (f w)) \<Longrightarrow> json_wf (pointer_modify p f v)"
  by (auto simp: pointer_modify_def json_wf_update_at split: option.splits)

lemma map_get_insert: "map_get (map_insert k v m) t = (if t = k then Some v else map_get m t)"
  by (simp add: map_get_def map_of_map_insert)

lemma map_get_map_values: "map_get (map (\<lambda>(k, v). (k, f v)) m) t = map_option f (map_get m t)"
  by (induction m) auto

section \<open>The number of nodes\<close>

text \<open>
  A measure for the traversals that change a document while they walk it: replacing strings
  by strings keeps the number of nodes.
\<close>

fun nodes :: "json \<Rightarrow> nat"
  and fields_nodes :: "fields \<Rightarrow> nat"
  and items_nodes :: "json list \<Rightarrow> nat" where
  "nodes (JObject m) = Suc (fields_nodes m)"
| "nodes (JArray xs) = Suc (items_nodes xs)"
| "nodes JNull = 1"
| "nodes (JBool b) = 1"
| "nodes (JNumber n) = 1"
| "nodes (JString s) = 1"
| "fields_nodes [] = 0"
| "fields_nodes ((k, v) # m) = nodes v + fields_nodes m"
| "items_nodes [] = 0"
| "items_nodes (x # xs) = nodes x + items_nodes xs"

lemma nodes_pos [simp]: "0 < nodes v"
  by (cases v) auto

lemma nodes_field: "(k, v) \<in> set m \<Longrightarrow> nodes v \<le> fields_nodes m"
  by (induction m) auto

lemma nodes_item: "x \<in> set xs \<Longrightarrow> nodes x \<le> items_nodes xs"
  by (induction xs) auto

lemma fields_nodes_insert:
  "map_get m k = Some (JString s) \<Longrightarrow> fields_nodes (map_insert k (JString t) m) = fields_nodes m"
  by (induction k "JString t" m rule: map_insert.induct) (auto split: if_splits)

lemma fields_nodes_modify:
  "(\<And>w. nodes (f w) = nodes w) \<Longrightarrow> fields_nodes (map_modify k f m) = fields_nodes m"
  by (induction k f m rule: map_modify.induct) auto

end
