(* ===== verification/Request_Scan.thy ===== *)
theory Request_Scan
  imports Json_Value
begin

text \<open>
  The scan for remote images in a request body (rust-sync-proxy/src/request_scan.rs): a
  depth-first walk that records, for every object with an \<open>inlineData.data\<close> URL, the JSON
  pointer of the \<open>inlineData\<close> object, and that gives up at the eighth hit.

  Shown here: the walk returns exactly the list of hits of the document, in document order,
  when there are at most seven and fails otherwise; the recorded pointers are pairwise
  distinct, resolve to the objects they were recorded for, and no hit is missed.
\<close>

section \<open>The walk\<close>

record request_image_ref =
  json_pointer :: string
  ref_url :: string

definition MAX_INLINE_DATA_URLS :: nat where
  "MAX_INLINE_DATA_URLS = 7"

definition is_http_url :: "string \<Rightarrow> bool" where
  "is_http_url value = (starts_with value ''http://'' \<or> starts_with value ''https://'')"

text \<open>The URL an object carries in \<open>inlineData.data\<close>, if any.\<close>

definition inline_data_url :: "fields \<Rightarrow> string option" where
  "inline_data_url m =
     (case map_get m ''inlineData'' of
        Some (JObject inline_data) \<Rightarrow>
          (case map_get inline_data ''data'' of
             Some (JString u) \<Rightarrow> if is_http_url u then Some u else None
           | _ \<Rightarrow> None)
      | _ \<Rightarrow> None)"

definition push_match :: "string \<Rightarrow> fields \<Rightarrow> request_image_ref list \<Rightarrow> anyhow + request_image_ref list" where
  "push_match path m matches =
     (case inline_data_url m of
        None \<Rightarrow> Ok matches
      | Some u \<Rightarrow>
          (let matches' = matches @ [\<lparr>json_pointer = path @ ''/inlineData'', ref_url = u\<rparr>]
           in if length matches' > MAX_INLINE_DATA_URLS then Err (Message ''too many inlineData URLs'')
              else Ok matches'))"

fun walk :: "json \<Rightarrow> string \<Rightarrow> request_image_ref list \<Rightarrow> anyhow + request_image_ref list"
  and walk_fields :: "fields \<Rightarrow> string \<Rightarrow> request_image_ref list \<Rightarrow> anyhow + request_image_ref list"
  and walk_items :: "json list \<Rightarrow> nat \<Rightarrow> string \<Rightarrow> request_image_ref list \<Rightarrow> anyhow + request_image_ref list" where
  "walk (JObject m) path matches =
     (case push_match path m matches of
        Inl e \<Rightarrow> Err e
      | Inr matches' \<Rightarrow> walk_fields m path matches')"
| "walk (JArray xs) path matches = walk_items xs 0 path matches"
| "walk JNull path matches = Ok matches"
| "walk (JBool b) path matches = Ok matches"
| "walk (JNumber n) path matches = Ok matches"
| "walk (JString s) path matches = Ok matches"
| "walk_fields [] path matches = Ok matches"
| "walk_fields ((k, child) # m) path matches =
     (case walk child (path @ ''/'' @ escape_json_pointer_token k) matches of
        Inl e \<Rightarrow> Err e
      | Inr matches' \<Rightarrow> walk_fields m path matches')"
| "walk_items [] i path matches = Ok matches"
| "walk_items (child # xs) i path matches =
     (case walk child (path @ ''/'' @ show_nat i) matches of
        Inl e \<Rightarrow> Err e
      | Inr matches' \<Rightarrow> walk_items xs (i + 1) path matches')"

definition scan_request_image_urls :: "json \<Rightarrow> anyhow + request_image_ref list" where
  "scan_request_image_urls body = walk body [] []"

section \<open>Specification: the hits of a document\<close>

text \<open>All hits in document order, each with the tokens of the path to its object.\<close>

fun hits :: "json \<Rightarrow> (string list \<times> string) list"
  and hits_fields :: "fields \<Rightarrow> (string list \<times> string) list"
  and hits_items :: "json list \<Rightarrow> nat \<Rightarrow> (string list \<times> string) list" where
  "hits (JObject m) =
     (case inline_data_url m of None \<Rightarrow> [] | Some u \<Rightarrow> [([''inlineData''], u)]) @ hits_fields m"
| "hits (JArray xs) = hits_items xs 0"
| "hits JNull = []"
| "hits (JBool b) = []"
| "hits (JNumber n) = []"
| "hits (JString s) = []"
| "hits_fields [] = []"
| "hits_fields ((k, v) # m) = map (apfst (Cons k)) (hits v) @ hits_fields m"
| "hits_items [] i = []"
| "hits_items (v # xs) i = map (apfst (Cons (show_nat i))) (hits v) @ hits_items xs (i + 1)"

definition render :: "string list \<Rightarrow> string" where
  "render ts = concat (map (\<lambda>t. CHR ''/'' # escape_json_pointer_token t) ts)"

definition to_ref :: "string \<Rightarrow> string list \<times> string \<Rightarrow> request_image_ref" where
  "to_ref path h = \<lparr>json_pointer = path @ render (fst h), ref_url = snd h\<rparr>"

lemma escape_plain:
  "CHR ''~'' \<notin> set t \<Longrightarrow> CHR ''/'' \<notin> set t \<Longrightarrow> escape_json_pointer_token t = t"
  by (induction t) (auto simp: escape_token_Cons)

lemma escape_show_nat [simp]: "escape_json_pointer_token (show_nat n) = show_nat n"
  by (rule escape_plain) simp_all

lemma render_simps [simp]:
  "render [] = []" "render (t # ts) = CHR ''/'' # escape_json_pointer_token t @ render ts"
  by (simp_all add: render_def)

lemma escape_inlineData [simp]: "escape_json_pointer_token ''inlineData'' = ''inlineData''"
  by (rule escape_plain) simp_all

lemma map_to_ref_Cons:
  "map (to_ref path) (map (apfst (Cons k)) hs) = map (to_ref (path @ ''/'' @ escape_json_pointer_token k)) hs"
  by (auto simp: to_ref_def)

text \<open>The walk appends the hits and fails exactly when they do not fit.\<close>

definition limited :: "request_image_ref list \<Rightarrow> anyhow + request_image_ref list" where
  "limited ms = (if length ms \<le> MAX_INLINE_DATA_URLS then Ok ms else Err (Message ''too many inlineData URLs''))"

lemma limited_fits [simp]: "length ms \<le> MAX_INLINE_DATA_URLS \<Longrightarrow> limited ms = Ok ms"
  by (simp add: limited_def)

lemma push_match_eq:
  "length ms \<le> MAX_INLINE_DATA_URLS \<Longrightarrow>
   push_match path m ms =
     limited (ms @ map (to_ref path) (case inline_data_url m of None \<Rightarrow> [] | Some u \<Rightarrow> [([''inlineData''], u)]))"
  by (auto simp: push_match_def limited_def Let_def to_ref_def split: option.splits)

lemma walk_eq:
  "length ms \<le> MAX_INLINE_DATA_URLS \<Longrightarrow> walk v path ms = limited (ms @ map (to_ref path) (hits v))"
  "length ms \<le> MAX_INLINE_DATA_URLS \<Longrightarrow> walk_fields m path ms = limited (ms @ map (to_ref path) (hits_fields m))"
  "length ms \<le> MAX_INLINE_DATA_URLS \<Longrightarrow> walk_items xs i path ms = limited (ms @ map (to_ref path) (hits_items xs i))"
proof (induction v path ms and m path ms and xs i path ms rule: walk_walk_fields_walk_items.induct)
  case (1 m path ms)
  have "walk_fields m path ms' = limited (ms' @ map (to_ref path) (hits_fields m))"
    if "length ms' \<le> MAX_INLINE_DATA_URLS" "push_match path m ms = Ok ms'" for ms'
    using 1 that by blast
  with 1(2) show ?case
    by (auto simp: push_match_eq limited_def split: if_splits)
next
  case (8 k child m path ms)
  have "walk_fields m path ms' = limited (ms' @ map (to_ref path) (hits_fields m))"
    if "length ms' \<le> MAX_INLINE_DATA_URLS" "walk child (path @ ''/'' @ escape_json_pointer_token k) ms = Ok ms'" for ms'
    using 8 that by blast
  with 8(1) [OF 8(3)] show ?case
    by (auto simp: limited_def map_to_ref_Cons [simplified] split: if_splits)
next
  case (10 child xs i path ms)
  have "walk_items xs (i + 1) path ms' = limited (ms' @ map (to_ref path) (hits_items xs (i + 1)))"
    if "length ms' \<le> MAX_INLINE_DATA_URLS" "walk child (path @ ''/'' @ show_nat i) ms = Ok ms'" for ms'
    using 10 that by blast
  with 10(1) [OF 10(3)] show ?case
    using map_to_ref_Cons [of path "show_nat i" "hits child"]
    by (auto simp: limited_def split: if_splits)
qed simp_all

lemma scan_eq: "scan_request_image_urls v = limited (map (to_ref []) (hits v))"
  using walk_eq(1) [of "[]" v "[]"] by (simp add: scan_request_image_urls_def MAX_INLINE_DATA_URLS_def)

section \<open>The recorded pointers\<close>

lemma split_on_render:
  "CHR ''/'' \<notin> set a \<Longrightarrow> split_on (CHR ''/'') (a @ render ts) = a # map escape_json_pointer_token ts"
proof (induction ts arbitrary: a)
  case (Cons t ts)
  from Cons.IH [of "escape_json_pointer_token t"] show ?case
    using split_on_append [OF Cons.prems, of "escape_json_pointer_token t @ render ts"] by simp
qed (simp add: split_on_no_sep)

lemma pointer_tokens_render [simp]: "pointer_tokens (render ts) = Some ts"
  by (cases ts) (simp_all add: pointer_tokens_def split_on_render comp_def)

lemma render_inj: "render ts = render us \<longleftrightarrow> ts = us"
  by (metis option.inject pointer_tokens_render)

lemma pointer_render: "pointer (render ts) v = resolve ts v"
  by (simp add: pointer_def)

definition is_hit :: "json \<Rightarrow> string list \<Rightarrow> string \<Rightarrow> bool" where
  "is_hit v ts u \<longleftrightarrow> ts \<noteq> [] \<and> last ts = ''inlineData'' \<and> is_http_url u
     \<and> (\<exists>m. resolve ts v = Some (JObject m) \<and> map_get m ''data'' = Some (JString u))"

lemma is_hit_simps:
  "\<not> is_hit v [] u"
  "is_hit (JObject m) (k # ts) u \<longleftrightarrow>
     (ts = [] \<and> k = ''inlineData'' \<and> inline_data_url m = Some u)
   \<or> (\<exists>w. map_get m k = Some w \<and> is_hit w ts u)"
  "is_hit (JArray xs) (k # ts) u \<longleftrightarrow> (\<exists>i < length xs. k = show_nat i \<and> is_hit (xs ! i) ts u)"
  "\<not> is_hit JNull ts u" "\<not> is_hit (JBool b) ts u" "\<not> is_hit (JNumber n) ts u" "\<not> is_hit (JString s) ts u"
proof -
  show "is_hit (JObject m) (k # ts) u \<longleftrightarrow>
     (ts = [] \<and> k = ''inlineData'' \<and> inline_data_url m = Some u)
   \<or> (\<exists>w. map_get m k = Some w \<and> is_hit w ts u)"
    by (cases "ts = []")
      (auto simp: is_hit_def inline_data_url_def split: option.splits json.splits if_splits)
  have idx: "parse_index ''inlineData'' = None"
    by (simp add: parse_index_def starts_with_def digit_val_def)
  show "is_hit (JArray xs) (k # ts) u \<longleftrightarrow> (\<exists>i < length xs. k = show_nat i \<and> is_hit (xs ! i) ts u)"
    using idx by (cases "ts = []")
      (auto simp: is_hit_def parse_index_Some split: option.splits if_splits)
qed (auto simp: is_hit_def neq_Nil_conv)

lemma apfst_Cons_image:
  "(p, u) \<in> apfst (Cons k) ` S \<longleftrightarrow> (\<exists>ts. p = k # ts \<and> (ts, u) \<in> S)"
  by force

lemma hits_set:
  "json_wf v \<Longrightarrow> set (hits v) = {(ts, u). is_hit v ts u}"
  "fields_wf m \<Longrightarrow> set (hits_fields m) = {(k # ts, u) | k v ts u. (k, v) \<in> set m \<and> is_hit v ts u}"
  "items_wf xs \<Longrightarrow> set (hits_items xs i) = {(show_nat (i + j) # ts, u) | j ts u. j < length xs \<and> is_hit (xs ! j) ts u}"
proof (induction v and m and xs i rule: hits_hits_fields_hits_items.induct)
  case (1 m)
  have "(ts, u) \<in> set (hits (JObject m)) \<longleftrightarrow> is_hit (JObject m) ts u" for ts u
  proof (cases ts)
    case Nil
    with 1 show ?thesis by (auto simp: is_hit_simps split: option.splits)
  next
    case (Cons k ts')
    with 1 show ?thesis
      by (auto simp: is_hit_simps map_get_eq_Some_iff split: option.splits)
  qed
  then show ?case by auto
next
  case (2 xs)
  have "(ts, u) \<in> set (hits (JArray xs)) \<longleftrightarrow> is_hit (JArray xs) ts u" for ts u
    using 2 by (cases ts) (auto simp: is_hit_simps)
  then show ?case by auto
next
  case (8 k v m)
  then show ?case by (auto simp: apfst_Cons_image)
next
  case (10 v xs i)
  have "{(show_nat (i + j) # ts, u) | j ts u. j < length (v # xs) \<and> is_hit ((v # xs) ! j) ts u} =
      {(show_nat i # ts, u) | ts u. is_hit v ts u}
    \<union> {(show_nat (i + 1 + j) # ts, u) | j ts u. j < length xs \<and> is_hit (xs ! j) ts u}"
    (is "?L = ?A \<union> ?B")
  proof
    show "?L \<subseteq> ?A \<union> ?B"
    proof
      fix x
      assume "x \<in> ?L"
      then obtain j ts u where "x = (show_nat (i + j) # ts, u)" "j < length (v # xs)" "is_hit ((v # xs) ! j) ts u"
        by blast
      then show "x \<in> ?A \<union> ?B" by (cases j) auto
    qed
    show "?A \<union> ?B \<subseteq> ?L" by force
  qed
  with 10 show ?case by (auto simp: apfst_Cons_image)
qed (simp_all add: is_hit_simps)

lemma hits_paths:
  "(ts, u) \<in> set (hits v) \<Longrightarrow> ts \<noteq> []"
  "(ts, u) \<in> set (hits_fields m) \<Longrightarrow> \<exists>k ts'. ts = k # ts' \<and> ts' \<noteq> [] \<and> k \<in> fst ` set m"
  "(ts, u) \<in> set (hits_items xs i) \<Longrightarrow> \<exists>j ts'. i \<le> j \<and> ts = show_nat j # ts' \<and> ts' \<noteq> []"
proof (induction v and m and xs i arbitrary: ts and ts and ts rule: hits_hits_fields_hits_items.induct)
  case (1 m)
  then show ?case by (cases "inline_data_url m") auto
next
  case (2 xs)
  then show ?case by auto
next
  case (8 k v m)
  from 8(3) consider ts' where "ts = k # ts'" "(ts', u) \<in> set (hits v)"
    | "(ts, u) \<in> set (hits_fields m)" by (auto simp: apfst_Cons_image)
  then show ?case
  proof cases
    case 2
    from 8(2) [OF this] obtain k' ts' where "ts = k' # ts'" "ts' \<noteq> []" "k' \<in> fst ` set m" by blast
    then show ?thesis by simp
  qed (use 8(1) in auto)
next
  case (10 v xs i)
  from 10(3) consider ts' where "ts = show_nat i # ts'" "(ts', u) \<in> set (hits v)"
    | "(ts, u) \<in> set (hits_items xs (i + 1))" by (auto simp: apfst_Cons_image)
  then show ?case
  proof cases
    case 2
    then obtain j ts' where "i + 1 \<le> j" "ts = show_nat j # ts'" "ts' \<noteq> []" using 10(2) by blast
    then show ?thesis by (intro exI [of _ j]) simp
  qed (use 10(1) in auto)
qed simp_all

lemma hits_keys:
  "ts \<in> fst ` set (hits v) \<Longrightarrow> ts \<noteq> []"
  "ts \<in> fst ` set (hits_fields m) \<Longrightarrow> \<exists>k ts'. ts = k # ts' \<and> ts' \<noteq> [] \<and> k \<in> fst ` set m"
  "ts \<in> fst ` set (hits_items xs i) \<Longrightarrow> \<exists>j ts'. i \<le> j \<and> ts = show_nat j # ts' \<and> ts' \<noteq> []"
  using hits_paths by fastforce+

lemma map_fst_apfst: "map fst (map (apfst f) hs) = map f (map fst hs)"
  by simp

lemma hits_distinct:
  "json_wf v \<Longrightarrow> distinct (map fst (hits v))"
  "fields_wf m \<Longrightarrow> distinct (map fst m) \<Longrightarrow> distinct (map fst (hits_fields m))"
  "items_wf xs \<Longrightarrow> distinct (map fst (hits_items xs i))"
proof (induction v and m and xs i rule: hits_hits_fields_hits_items.induct)
  case (1 m)
  then have "[''inlineData''] \<notin> fst ` set (hits_fields m)" using hits_keys(2) by fastforce
  with 1 show ?case by (simp split: option.splits)
next
  case (8 k v m)
  have "k \<notin> fst ` set m" using 8(4) by simp
  then have "p \<notin> fst ` set (hits_fields m)" if p: "p \<in> Cons k ` fst ` set (hits v)" for p
  proof -
    from p obtain ts where "p = k # ts" by blast
    with \<open>k \<notin> fst ` set m\<close> show ?thesis using hits_keys(2) [of p m] by (metis list.inject)
  qed
  with 8 show ?case
    unfolding hits_fields.simps map_append map_fst_apfst
    by (auto simp: distinct_map inj_on_def)
next
  case (10 v xs i)
  have "p \<notin> fst ` set (hits_items xs (i + 1))" if "p \<in> Cons (show_nat i) ` fst ` set (hits v)" for p
    using that hits_keys(3) [of p xs "i + 1"] by fastforce
  with 10 show ?case
    unfolding hits_items.simps map_append map_fst_apfst
    by (auto simp: distinct_map inj_on_def)
qed simp_all

section \<open>Properties\<close>

text \<open>
  The scan succeeds exactly when the document has at most seven image URLs, and it then
  returns all of them in document order; otherwise it fails with the documented message.
\<close>

theorem scan_limit:
  "scan_request_image_urls body =
     (if length (hits body) \<le> 7 then Ok (map (to_ref []) (hits body))
      else Err (Message ''too many inlineData URLs''))"
  by (simp add: scan_eq limited_def MAX_INLINE_DATA_URLS_def)

lemma scan_Ok_refs:
  assumes "scan_request_image_urls body = Ok refs"
  shows "refs = map (to_ref []) (hits body)"
  using assms by (auto simp: scan_eq limited_def split: if_splits)

lemma scan_Ok_set:
  assumes "json_wf body" "scan_request_image_urls body = Ok refs"
  shows "set refs = {\<lparr>json_pointer = render ts, ref_url = u\<rparr> | ts u. is_hit body ts u}"
proof -
  have "set refs = to_ref [] ` {(ts, u). is_hit body ts u}"
    using scan_Ok_refs [OF assms(2)] hits_set(1) [OF assms(1)] by simp
  then show ?thesis by (auto simp: to_ref_def image_def)
qed

lemma scan_Ok_distinct:
  assumes "json_wf body" "scan_request_image_urls body = Ok refs"
  shows "distinct (map json_pointer refs)"
proof -
  have "map json_pointer refs = map render (map fst (hits body))"
    using scan_Ok_refs [OF assms(2)] by (simp add: to_ref_def)
  with hits_distinct(1) [OF assms(1)] show ?thesis
    by (simp add: distinct_map inj_on_def render_inj del: map_map)
qed

text \<open>
  C21: In a well-formed document the scan finds the image URLs and nothing else: a reference
  \<open>(p, u)\<close> is returned exactly when \<open>p\<close> is the rendering of a path that ends in
  \<open>inlineData\<close> and resolves to an object whose \<open>data\<close> is the http(s) URL \<open>u\<close>.  The
  pointers are pairwise distinct, and \<open>Value::pointer\<close> finds the object again.
\<close>

theorem scan_finds_exactly:
  assumes "json_wf body" "scan_request_image_urls body = Ok refs"
  shows "distinct (map json_pointer refs)
    \<and> (\<forall>p u. \<lparr>json_pointer = p, ref_url = u\<rparr> \<in> set refs \<longleftrightarrow>
         (\<exists>ts m. p = render (ts @ [''inlineData'']) \<and> pointer p body = Some (JObject m)
            \<and> map_get m ''data'' = Some (JString u) \<and> is_http_url u))"
proof -
  have "is_hit body ts u \<longleftrightarrow> (\<exists>us m. ts = us @ [''inlineData''] \<and> resolve ts body = Some (JObject m)
      \<and> map_get m ''data'' = Some (JString u) \<and> is_http_url u)" for ts u
    by (auto simp: is_hit_def) (metis append_butlast_last_id)
  with scan_Ok_set [OF assms] scan_Ok_distinct [OF assms] show ?thesis
    by (auto simp: pointer_render)
qed

definition demo_request :: json where
  "demo_request = JObject [(''contents'', JArray [JObject [(''inlineData'',
     JObject [(''mimeType'', JString ''image/png''), (''data'', JString ''http://h/a'')])]])]"

lemma demo_request_scan:
  "json_wf demo_request"
  "scan_request_image_urls demo_request = Ok [\<lparr>json_pointer = ''/contents/0/inlineData'', ref_url = ''http://h/a''\<rparr>]"
  by code_simp+

theorem scan_finds_exactly_witness:
  "\<exists>ts m. ''/contents/0/inlineData'' = render (ts @ [''inlineData''])
     \<and> pointer ''/contents/0/inlineData'' demo_request = Some (JObject m)
     \<and> map_get m ''data'' = Some (JString ''http://h/a'')"
proof -
  let ?r = "\<lparr>json_pointer = ''/contents/0/inlineData'', ref_url = ''http://h/a''\<rparr> :: request_image_ref"
  have "?r \<in> set [?r]" by simp
  with scan_finds_exactly [OF demo_request_scan] show ?thesis by blast
qed

end
