(* ===== verification/Json_Text.thy ===== *)
theory Json_Text
  imports Json_Value
begin

text \<open>
  Compact JSON text.  \<open>serde_json::to_vec\<close> is not part of the repository and is a parameter
  \<open>ser\<close> of the code that uses it; the locale \<open>json_compact\<close> states what the proxy's own
  writer relies on: how objects and arrays are put together from their parts, and that a
  string without special characters is its bytes between quotes.  The locale is interpreted
  on a printer that follows the crate's compact formatter; only the digits of a
  floating-point number are left open there.
\<close>

fun comma_sep :: "string list \<Rightarrow> string" where
  "comma_sep [] = []"
| "comma_sep [x] = x"
| "comma_sep (x # y # r) = x @ '','' @ comma_sep (y # r)"

definition plain_char :: "char \<Rightarrow> bool" where
  "plain_char c \<longleftrightarrow> c \<noteq> CHR 0x22 \<and> c \<noteq> CHR 0x5C \<and> 32 \<le> (of_char c :: nat)"

definition quoted :: "string \<Rightarrow> string" where
  "quoted s = CHR 0x22 # s @ [CHR 0x22]"

locale json_compact =
  fixes ser :: "json \<Rightarrow> bytes"
  assumes ser_object: "ser (JObject m) = ''{'' @ comma_sep (map (\<lambda>(k, v). ser (JString k) @ '':'' @ ser v) m) @ ''}''"
    and ser_array: "ser (JArray xs) = ''['' @ comma_sep (map ser xs) @ '']''"
    and ser_plain: "list_all plain_char s \<Longrightarrow> ser (JString s) = quoted s"

section \<open>The compact printer\<close>

definition hex_digit :: "nat \<Rightarrow> char" where
  "hex_digit n = ''0123456789abcdef'' ! n"

definition escape_char :: "char \<Rightarrow> string" where
  "escape_char c =
     (let n = (of_char c :: nat)
      in if c = CHR 0x22 then [CHR 0x5C, CHR 0x22]
         else if c = CHR 0x5C then [CHR 0x5C, CHR 0x5C]
         else if n = 8 then [CHR 0x5C, CHR ''b'']
         else if n = 9 then [CHR 0x5C, CHR ''t'']
         else if n = 10 then [CHR 0x5C, CHR ''n'']
         else if n = 12 then [CHR 0x5C, CHR ''f'']
         else if n = 13 then [CHR 0x5C, CHR ''r'']
         else if n < 32 then [CHR 0x5C] @ ''u00'' @ [hex_digit (n div 16), hex_digit (n mod 16)]
         else [c])"

fun number_text :: "(u64 \<Rightarrow> string) \<Rightarrow> number \<Rightarrow> string" where
  "number_text fl (PosInt n) = show_nat (unat n)"
| "number_text fl (NegInt n) = ''-'' @ show_nat (unat (- n))"
| "number_text fl (Float x) = fl x"

fun json_text :: "(u64 \<Rightarrow> string) \<Rightarrow> json \<Rightarrow> string"
  and fields_text :: "(u64 \<Rightarrow> string) \<Rightarrow> fields \<Rightarrow> string list"
  and items_text :: "(u64 \<Rightarrow> string) \<Rightarrow> json list \<Rightarrow> string list" where
  "json_text fl JNull = ''null''"
| "json_text fl (JBool b) = (if b then ''true'' else ''false'')"
| "json_text fl (JNumber n) = number_text fl n"
| "json_text fl (JString s) = quoted (concat (map escape_char s))"
| "json_text fl (JArray xs) = ''['' @ comma_sep (items_text fl xs) @ '']''"
| "json_text fl (JObject m) = ''{'' @ comma_sep (fields_text fl m) @ ''}''"
| "fields_text fl [] = []"
| "fields_text fl ((k, v) # m) =
     (quoted (concat (map escape_char k)) @ '':'' @ json_text fl v) # fields_text fl m"
| "items_text fl [] = []"
| "items_text fl (x # xs) = json_text fl x # items_text fl xs"

lemma fields_text_map:
  "fields_text fl m = map (\<lambda>(k, v). json_text fl (JString k) @ '':'' @ json_text fl v) m"
  by (induction m) auto

lemma items_text_map: "items_text fl xs = map (json_text fl) xs"
  by (induction xs) auto

lemma escape_char_plain: "plain_char c \<Longrightarrow> escape_char c = [c]"
  by (auto simp: plain_char_def escape_char_def Let_def)

lemma escape_plain_string: "list_all plain_char s \<Longrightarrow> concat (map escape_char s) = s"
  by (induction s) (auto simp: escape_char_plain)

interpretation compact: json_compact "json_text fl" for fl
  by unfold_locales (simp_all add: fields_text_map items_text_map escape_plain_string)

end
