(* ===== verification/Base64_Engine.thy ===== *)
theory Base64_Engine
  imports Proxy_Prelude
begin

text \<open>
  Base64.  The \<open>base64\<close> crate is not part of the repository, so the code that uses it takes
  the engine's \<open>encode\<close> and \<open>decode\<close> as parameters.  What the proxy relies on is the locale
  \<open>base64_engine\<close>: the standard alphabet with canonical padding (RFC 4648), encoded and
  decoded group by group.  The locale is interpreted on the encoder and decoder of the RFC.
\<close>

section \<open>What the proxy relies on\<close>

definition b64_alphabet :: string where
  "b64_alphabet = ''ABCDEFGHIJKLMNOPQRSTUVWXYZabcdefghijklmnopqrstuvwxyz0123456789+/''"

text \<open>The trailing padding characters of an encoding.\<close>

definition padding :: "bytes \<Rightarrow> nat" where
  "padding a = length (takeWhile (\<lambda>c. c = CHR ''='') (rev a))"

locale base64_engine =
  fixes enc :: "bytes \<Rightarrow> bytes"
    and dec :: "bytes \<Rightarrow> bytes option"
  assumes enc_groups: "3 dvd length a \<Longrightarrow> enc (a @ b) = enc a @ enc b"
    and enc_len: "length (enc b) = (length b + 2) div 3 * 4"
    and enc_alphabet: "set (enc b) \<subseteq> insert (CHR ''='') (set b64_alphabet)"
    and dec_enc: "dec (enc b) = Some b"
    and dec_groups: "4 dvd length a \<Longrightarrow> CHR ''='' \<notin> set a \<Longrightarrow>
      dec (a @ b) = (case dec a of None \<Rightarrow> None | Some x \<Rightarrow> map_option (append x) (dec b))"
    and dec_len: "dec a = Some x \<Longrightarrow> 4 dvd length a \<and> length x + padding a = length a div 4 * 3 \<and> padding a \<le> 2"
    and dec_pad_last: "dec (a @ b) = Some x \<Longrightarrow> b \<noteq> [] \<Longrightarrow> 4 dvd length a \<Longrightarrow> CHR ''='' \<notin> set a"
begin

lemma enc_Nil [simp]: "enc [] = []"
  using enc_len [of "[]"] by simp

lemma dec_Nil [simp]: "dec [] = Some []"
  using dec_enc [of "[]"] by simp

lemma enc_empty_iff: "enc b = [] \<longleftrightarrow> b = []"
  by (metis dec_enc enc_Nil option.inject)

lemma enc_inj: "enc a = enc b \<Longrightarrow> a = b"
  by (metis dec_enc option.inject)

text \<open>Encoding a stream group by group, with a carry of at most two bytes.\<close>

lemma enc_split: "enc (take (3 * n) b) @ enc (drop (3 * n) b) = enc b"
proof (cases "3 * n \<le> length b")
  case True
  then have "enc (take (3 * n) b @ drop (3 * n) b) = enc (take (3 * n) b) @ enc (drop (3 * n) b)"
    by (intro enc_groups) simp
  then show ?thesis by simp
qed simp

lemma dec_split:
  assumes "4 dvd n" "CHR ''='' \<notin> set (take n a)"
  shows "dec a = (case dec (take n a) of None \<Rightarrow> None | Some x \<Rightarrow> map_option (append x) (dec (drop n a)))"
proof (cases "n \<le> length a")
  case True
  with assms dec_groups [of "take n a" "drop n a"] show ?thesis by simp
qed (auto split: option.splits)

end

section \<open>The encoder and decoder of RFC 4648\<close>

definition b64_char :: "nat \<Rightarrow> char" where
  "b64_char n = b64_alphabet ! n"

definition b64_val :: "char \<Rightarrow> nat option" where
  "b64_val c = map_of (zip b64_alphabet [0..<64]) c"

definition byte :: "nat \<Rightarrow> char" where
  "byte n = char_of n"

fun rfc_encode :: "bytes \<Rightarrow> bytes" where
  "rfc_encode [] = []"
| "rfc_encode [a] =
     [b64_char (of_char a div 4), b64_char (of_char a mod 4 * 16), CHR ''='', CHR ''='']"
| "rfc_encode [a, b] =
     [b64_char (of_char a div 4), b64_char (of_char a mod 4 * 16 + of_char b div 16),
      b64_char (of_char b mod 16 * 4), CHR ''='']"
| "rfc_encode (a # b # c # r) =
     [b64_char (of_char a div 4), b64_char (of_char a mod 4 * 16 + of_char b div 16),
      b64_char (of_char b mod 16 * 4 + of_char c div 64), b64_char (of_char c mod 64)]
     @ rfc_encode r"

text \<open>Padding ends the text, and the unused bits of the last character are zero.\<close>

fun decode_group :: "char \<Rightarrow> char \<Rightarrow> char \<Rightarrow> char \<Rightarrow> bool \<Rightarrow> bytes option" where
  "decode_group w x y z final =
     (if z = CHR ''='' then
        (if \<not> final then None
         else if y = CHR ''='' then
           (case (b64_val w, b64_val x) of
              (Some p, Some q) \<Rightarrow>
                if q mod 16 = 0 then Some [byte (p * 4 + q div 16)] else None
            | _ \<Rightarrow> None)
         else
           (case (b64_val w, b64_val x, b64_val y) of
              (Some p, Some q, Some r) \<Rightarrow>
                if r mod 4 = 0 then Some [byte (p * 4 + q div 16), byte (q mod 16 * 16 + r div 4)]
                else None
            | _ \<Rightarrow> None))
      else
        (case (b64_val w, b64_val x, b64_val y, b64_val z) of
           (Some p, Some q, Some r, Some t) \<Rightarrow>
             Some [byte (p * 4 + q div 16), byte (q mod 16 * 16 + r div 4), byte (r mod 4 * 64 + t)]
         | _ \<Rightarrow> None))"

fun rfc_decode :: "bytes \<Rightarrow> bytes option" where
  "rfc_decode [] = Some []"
| "rfc_decode (w # x # y # z # r) =
     (case decode_group w x y z (r = []) of
        None \<Rightarrow> None
      | Some g \<Rightarrow> map_option (append g) (rfc_decode r))"
| "rfc_decode _ = None"

declare decode_group.simps [simp del]

lemma alphabet_facts:
  "length b64_alphabet = 64" "distinct b64_alphabet" "CHR ''='' \<notin> set b64_alphabet"
  by (simp_all add: b64_alphabet_def)

lemma b64_val_char [simp]: "n < 64 \<Longrightarrow> b64_val (b64_char n) = Some n"
  using alphabet_facts
  by (simp add: b64_val_def b64_char_def map_of_zip_nth)

lemma b64_char_in: "n < 64 \<Longrightarrow> b64_char n \<in> set b64_alphabet"
  using alphabet_facts by (simp add: b64_char_def)

lemma b64_char_not_pad [simp]: "n < 64 \<Longrightarrow> b64_char n \<noteq> CHR ''=''"
  using b64_char_in alphabet_facts(3) by metis

lemma b64_val_pad [simp]: "b64_val (CHR ''='') = None"
  by code_simp

lemma byte_of_char [simp]: "byte (of_char c) = c"
  by (simp add: byte_def)

lemma of_char_lt: "(of_char c :: nat) < 256"
  by simp

lemma quotient_bounds: "(of_char b :: nat) div 16 < 16" "(of_char b :: nat) div 64 < 4" "(of_char b :: nat) div 4 < 64"
  using of_char_lt [of b] by (simp_all add: less_mult_imp_div_less)

lemma sextet_bounds:
  "(of_char a :: nat) div 4 < 64" "of_char a mod 4 * 16 < (64 :: nat)" "of_char b mod 16 * 4 < (64 :: nat)"
  "of_char a mod 4 * 16 + of_char b div 16 < (64 :: nat)"
  "of_char b mod 16 * 4 + of_char c div 64 < (64 :: nat)"
proof -
  have "(of_char a mod 4 :: nat) < 4" "(of_char b mod 16 :: nat) < 16" by simp_all
  with quotient_bounds [of a] quotient_bounds [of b] quotient_bounds [of c]
  show "(of_char a :: nat) div 4 < 64" "of_char a mod 4 * 16 < (64 :: nat)" "of_char b mod 16 * 4 < (64 :: nat)"
    "of_char a mod 4 * 16 + of_char b div 16 < (64 :: nat)"
    "of_char b mod 16 * 4 + of_char c div 64 < (64 :: nat)"
    by linarith+
qed

lemma sextet_join:
  fixes a x :: nat
  shows "x < 16 \<Longrightarrow> (a * 16 + x) div 16 = a" "x < 16 \<Longrightarrow> (a * 16 + x) mod 16 = x"
    and "x < 4 \<Longrightarrow> (a * 4 + x) div 4 = a" "x < 4 \<Longrightarrow> (a * 4 + x) mod 4 = x"
  by simp_all

lemmas char_sextet_split =
  sextet_join(1,2) [OF quotient_bounds(1)] sextet_join(3,4) [OF quotient_bounds(2)]
  mod_less [OF quotient_bounds(1)] mod_less [OF quotient_bounds(2)]

lemma rfc_dec_enc: "rfc_decode (rfc_encode b) = Some b"
proof (induction b rule: rfc_encode.induct)
  case (2 a)
  show ?case
    by (simp add: decode_group.simps sextet_bounds)
next
  case (3 a b)
  show ?case
    by (simp add: decode_group.simps sextet_bounds char_sextet_split)
next
  case (4 a b c r)
  then show ?case by (simp add: decode_group.simps sextet_bounds char_sextet_split)
qed simp

lemma rfc_enc_len: "length (rfc_encode b) = (length b + 2) div 3 * 4"
proof (induction b rule: rfc_encode.induct)
  case (4 a b c r)
  have "(length (a # b # c # r) + 2) div 3 = (length r + 2) div 3 + 1" by simp
  with 4 show ?case by simp
qed simp_all

lemma rfc_enc_alphabet: "set (rfc_encode b) \<subseteq> insert (CHR ''='') (set b64_alphabet)"
proof (induction b rule: rfc_encode.induct)
  case (2 a)
  show ?case by (simp add: sextet_bounds b64_char_in)
next
  case (3 a b)
  show ?case by (simp add: sextet_bounds b64_char_in)
next
  case (4 a b c r)
  then show ?case by (simp add: sextet_bounds b64_char_in)
qed simp

lemma rfc_enc_groups: "3 dvd length a \<Longrightarrow> rfc_encode (a @ b) = rfc_encode a @ rfc_encode b"
proof (induction a rule: rfc_encode.induct)
  case (4 x y z r)
  have "3 dvd length r" using 4(2) by simp presburger
  with 4(1) show ?case by simp
next
  case (3 x y)
  then have "3 dvd (2 :: nat)" by (simp add: numeral_2_eq_2)
  then show ?case by simp
qed auto

lemma not_group: "\<not> 4 dvd Suc 0" "\<not> 4 dvd Suc (Suc 0)" "\<not> 4 dvd Suc (Suc (Suc 0))"
  by presburger+

lemma rfc_dec_groups:
  "4 dvd length a \<Longrightarrow> CHR ''='' \<notin> set a \<Longrightarrow>
   rfc_decode (a @ b) = (case rfc_decode a of None \<Rightarrow> None | Some x \<Rightarrow> map_option (append x) (rfc_decode b))"
proof (induction a rule: rfc_decode.induct)
  case (2 w x y z r)
  have r: "4 dvd length r" using 2(2) by simp presburger
  have g: "decode_group w x y z f = decode_group w x y z True" for f
    using 2(3) by (auto simp: decode_group.simps)
  from 2(1) r 2(3) show ?case
    by (cases "rfc_decode b") (auto simp: g [of "_ = []"] g [of "_ \<and> _"] split: option.splits)
next
  case 1
  then show ?case by (cases "rfc_decode b") simp_all
qed (simp_all add: not_group)

lemma decode_group_len:
  "decode_group w x y z f = Some g \<Longrightarrow>
     length g + padding [w, x, y, z] = 3 \<and> padding [w, x, y, z] \<le> 2 \<and> (z = CHR ''='' \<longrightarrow> f) \<and> w \<noteq> CHR ''='' \<and> x \<noteq> CHR ''=''"
  by (auto simp: decode_group.simps padding_def split: if_splits option.splits)

lemma padding_append_nonpad: "CHR ''='' \<notin> set b \<Longrightarrow> b \<noteq> [] \<Longrightarrow> padding (a @ b) = 0"
  by (cases b rule: rev_cases) (auto simp: padding_def)

lemma padding_append: "c \<in> set b \<Longrightarrow> c \<noteq> CHR ''='' \<Longrightarrow> padding (a @ b) = padding b"
  by (simp add: padding_def takeWhile_append1 [of c])

lemma rfc_dec_len:
  "rfc_decode a = Some x \<Longrightarrow> 4 dvd length a \<and> length x + padding a = length a div 4 * 3 \<and> padding a \<le> 2"
proof (induction a arbitrary: x rule: rfc_decode.induct)
  case (2 w v y z r)
  then obtain g x' where g: "decode_group w v y z (r = []) = Some g" "rfc_decode r = Some x'" "x = g @ x'"
    by (auto split: option.splits)
  note gl = decode_group_len [OF g(1)]
  have r: "4 dvd length r" "length x' + padding r = length r div 4 * 3" "padding r \<le> 2" using 2(1) [OF g(1,2)] by auto
  show ?case
  proof (cases "r = []")
    case True
    with gl g(2,3) show ?thesis by simp presburger
  next
    case False
    then obtain w' v' r' where r': "r = w' # v' # r'" using r(1) by (cases r rule: rfc_decode.cases) auto
    then have nz: "w' \<noteq> CHR ''=''"
      using g(2) decode_group_len by (cases r rule: rfc_decode.cases) (auto split: option.splits dest: decode_group_len)
    have "padding (w # v # y # z # r) = padding r"
      using padding_append [of w' r "[w, v, y, z]"] nz r' by simp
    moreover have "padding [w, v, y, z] = 0" using gl False by (auto simp: padding_def)
    moreover have "4 dvd length (w # v # y # z # r)" using r(1) by simp presburger
    ultimately show ?thesis using r gl g(3) by simp
  qed
qed (auto simp: padding_def)

lemma decode_group_inner: "decode_group w x y z False = Some g \<Longrightarrow> CHR ''='' \<notin> {w, x, y, z}"
  by (auto simp: decode_group.simps split: if_splits option.splits)

lemma rfc_dec_pad_last:
  "rfc_decode (a @ b) = Some x \<Longrightarrow> b \<noteq> [] \<Longrightarrow> 4 dvd length a \<Longrightarrow> CHR ''='' \<notin> set a"
proof (induction a arbitrary: x rule: rfc_decode.induct)
  case (2 w u y z r)
  then obtain g x' where g: "decode_group w u y z False = Some g" "rfc_decode (r @ b) = Some x'"
    by (auto split: option.splits)
  have "4 dvd length r" using 2(4) by simp presburger
  with 2(1) g 2(3) decode_group_inner [OF g(1)] show ?case
    by (cases "decode_group w u y z (r = [])") (auto simp: decode_group.simps split: if_splits option.splits)
qed (simp_all add: not_group)

interpretation rfc: base64_engine rfc_encode rfc_decode
  by unfold_locales
    (fact rfc_enc_groups rfc_enc_len rfc_enc_alphabet rfc_dec_enc rfc_dec_groups rfc_dec_len rfc_dec_pad_last)+

end
