(* ===== verification/Blob_Runtime.thy ===== *)
theory Blob_Runtime
  imports Proxy_Prelude
begin

text \<open>
  The blob runtime (rust-sync-proxy/src/blob_runtime.rs): image and request bodies are kept
  in memory while a global budget of hot bytes lasts and are spilled to files otherwise.

  A handle is an \<open>Arc\<close> to a \<open>BlobInner\<close> whose \<open>removed\<close> flag all clones share, so the state
  has an arena \<open>heap\<close> of all blobs ever built and a handle is an index into it.  The file
  system is part of the state: \<open>files\<close> holds the contents, and \<open>io_error p = Some t\<close> says
  that the operating system refuses every access to the path \<open>p\<close> with the text \<open>t\<close> (such an
  access changes nothing).  The atomic counters are 64-bit words: \<open>fetch_add\<close> and
  \<open>fetch_sub\<close> wrap around.

  Shown here: the budget invariant (\<open>blob_inv\<close>) for every operation, that the runtime is a
  store of byte strings (locale \<open>blob_store\<close>), that a stored blob is read back and a removed
  one releases its budget exactly once, and that the compare-exchange loop keeps the budget
  under every interleaving of threads.
\<close>

section \<open>State\<close>

record blob_runtime_config =
  inline_max_bytes :: u64
  request_hot_budget_bytes :: u64
  global_hot_budget_bytes :: u64
  spill_dir :: string

record blob_meta =
  blob_mime_type :: string
  size_bytes :: u64

datatype blob_storage = Inline bytes | Shared bytes | Spilled string

record blob_inner =
  blob_id :: u64
  meta :: blob_meta
  storage :: blob_storage
  removed :: bool

type_synonym blob_handle = nat

record runtime =
  cfg :: blob_runtime_config
  next_id_ctr :: u64
  global_hot_bytes :: u64
  spill_count :: u64
  spill_bytes_total :: u64
  heap :: "blob_inner list"
  files :: "string \<Rightarrow> bytes option"
  io_error :: "string \<Rightarrow> string option"

record blob_runtime_stats_snapshot =
  snapshot_spill_count :: u64
  snapshot_spill_bytes_total :: u64

definition runtime_new :: "blob_runtime_config \<Rightarrow> (string \<Rightarrow> bytes option) \<Rightarrow> (string \<Rightarrow> string option) \<Rightarrow> runtime" where
  "runtime_new c fs io =
     \<lparr>cfg = c, next_id_ctr = 1, global_hot_bytes = 0, spill_count = 0, spill_bytes_total = 0,
      heap = [], files = fs, io_error = io\<rparr>"

section \<open>Operations\<close>

text \<open>\<open>PathBuf::join\<close> with a relative component.\<close>

definition path_join :: "string \<Rightarrow> string \<Rightarrow> string" where
  "path_join d n = (if d = [] \<or> ends_with d ''/'' then d @ n else d @ ''/'' @ n)"

definition spill_path :: "runtime \<Rightarrow> u64 \<Rightarrow> string" where
  "spill_path s i = path_join (spill_dir (cfg s)) (''blob-'' @ show_nat (unat i) @ ''.bin'')"

definition next_id :: "runtime \<Rightarrow> u64 \<times> runtime" where
  "next_id s = (next_id_ctr s, s\<lparr>next_id_ctr := next_id_ctr s + 1\<rparr>)"

text \<open>One pass through the reservation loop; \<open>cas_step\<close> below has the interleavings.\<close>

definition try_inline_reserve :: "u64 \<Rightarrow> runtime \<Rightarrow> bool \<times> runtime" where
  "try_inline_reserve sz s =
     (if sz > inline_max_bytes (cfg s) \<or> sz > request_hot_budget_bytes (cfg s) then (False, s)
      else (case checked_add (global_hot_bytes s) sz of
              None \<Rightarrow> (False, s)
            | Some nxt \<Rightarrow>
                if nxt > global_hot_budget_bytes (cfg s) then (False, s)
                else (True, s\<lparr>global_hot_bytes := nxt\<rparr>)))"

definition release_inline_bytes :: "u64 \<Rightarrow> runtime \<Rightarrow> runtime" where
  "release_inline_bytes sz s = s\<lparr>global_hot_bytes := global_hot_bytes s - sz\<rparr>"

definition record_spill :: "u64 \<Rightarrow> runtime \<Rightarrow> runtime" where
  "record_spill sz s =
     s\<lparr>spill_count := spill_count s + 1, spill_bytes_total := spill_bytes_total s + sz\<rparr>"

definition set_file :: "string \<Rightarrow> bytes \<Rightarrow> runtime \<Rightarrow> runtime" where
  "set_file p b s = s\<lparr>files := (files s)(p \<mapsto> b)\<rparr>"

text \<open>Creating the parent directory and the file: refused as a whole or done.\<close>

definition write_file :: "string \<Rightarrow> bytes \<Rightarrow> runtime \<Rightarrow> (anyhow + unit) \<times> runtime" where
  "write_file p b s =
     (case io_error s p of
        Some t \<Rightarrow> (Err (Message t), s)
      | None \<Rightarrow> (Ok (), set_file p b s))"

definition write_spilled_bytes :: "u64 \<Rightarrow> bytes \<Rightarrow> runtime \<Rightarrow> (anyhow + string) \<times> runtime" where
  "write_spilled_bytes i b s =
     (let p = spill_path s i
      in case write_file p b s of
           (Inl e, s') \<Rightarrow> (Err e, s')
         | (Inr _, s') \<Rightarrow> (Ok p, s'))"

definition build_handle :: "u64 \<Rightarrow> string \<Rightarrow> u64 \<Rightarrow> blob_storage \<Rightarrow> runtime \<Rightarrow> blob_handle \<times> runtime" where
  "build_handle i mime sz st s =
     (length (heap s),
      s\<lparr>heap := heap s @ [\<lparr>blob_id = i, meta = \<lparr>blob_mime_type = mime, size_bytes = sz\<rparr>,
                           storage = st, removed = False\<rparr>]\<rparr>)"

text \<open>What the storing operations share: reserve, else spill, then build the handle.\<close>

definition store_reserved :: "u64 \<Rightarrow> bytes \<Rightarrow> string \<Rightarrow> runtime \<Rightarrow> (anyhow + blob_handle) \<times> runtime" where
  "store_reserved i b mime s =
     (let sz = of_nat (length b)
      in case try_inline_reserve sz s of
           (True, s1) \<Rightarrow> (let (h, s2) = build_handle i mime sz (Inline b) s1 in (Ok h, s2))
         | (False, s1) \<Rightarrow>
             (case write_spilled_bytes i b s1 of
                (Inl e, s2) \<Rightarrow> (Err e, s2)
              | (Inr p, s2) \<Rightarrow>
                  (let (h, s3) = build_handle i mime sz (Spilled p) (record_spill sz s2)
                   in (Ok h, s3))))"

definition store_bytes :: "bytes \<Rightarrow> string \<Rightarrow> runtime \<Rightarrow> (anyhow + blob_handle) \<times> runtime" where
  "store_bytes b mime s = (let (i, s1) = next_id s in store_reserved i b mime s1)"

definition store_shared_bytes :: "bytes \<Rightarrow> string \<Rightarrow> runtime \<Rightarrow> (anyhow + blob_handle) \<times> runtime" where
  "store_shared_bytes b mime s = (let (i, s1) = next_id s in store_reserved i b mime s1)"

definition store_external_shared_bytes :: "bytes \<Rightarrow> string \<Rightarrow> runtime \<Rightarrow> (anyhow + blob_handle) \<times> runtime" where
  "store_external_shared_bytes b mime s =
     (let (i, s1) = next_id s;
          (h, s2) = build_handle i mime (of_nat (length b)) (Shared b) s1
      in (Ok h, s2))"

text \<open>
  \<open>store_stream\<close>.  The reader is the list of its \<open>read\<close> results: a failed read or the bytes
  it delivered; an empty read, or the end of the list, is the end of the stream.  The loop
  carries the buffer and whether the spill file is open.
\<close>

definition append_file :: "string \<Rightarrow> bytes \<Rightarrow> runtime \<Rightarrow> (anyhow + unit) \<times> runtime" where
  "append_file p b s = write_file p (unwrap_or [] (files s p) @ b) s"

fun stream_loop :: "nat \<Rightarrow> string \<Rightarrow> (string + bytes) list \<Rightarrow> bytes \<Rightarrow> bool \<Rightarrow> runtime
    \<Rightarrow> (anyhow + bytes \<times> bool) \<times> runtime" where
  "stream_loop limit p [] buffer spilled s = (Ok (buffer, spilled), s)"
| "stream_loop limit p (Inl t # rs) buffer spilled s = (Err (Message t), s)"
| "stream_loop limit p (Inr chunk # rs) buffer spilled s =
     (if chunk = [] then (Ok (buffer, spilled), s)
      else if spilled then
        (case append_file p chunk s of
           (Inl e, s1) \<Rightarrow> (Err e, s1)
         | (Inr _, s1) \<Rightarrow> stream_loop limit p rs buffer True s1)
      else if length buffer + length chunk \<le> limit then
        stream_loop limit p rs (buffer @ chunk) False s
      else
        (case write_file p (buffer @ chunk) s of
           (Inl e, s1) \<Rightarrow> (Err e, s1)
         | (Inr _, s1) \<Rightarrow> stream_loop limit p rs [] True s1))"

definition store_stream :: "(string + bytes) list \<Rightarrow> string \<Rightarrow> runtime \<Rightarrow> (anyhow + blob_handle) \<times> runtime" where
  "store_stream reader mime s =
     (let limit = unat (min (inline_max_bytes (cfg s)) (request_hot_budget_bytes (cfg s)));
          (i, s1) = next_id s;
          p = spill_path s1 i
      in case stream_loop limit p reader [] False s1 of
           (Inl e, s2) \<Rightarrow> (Err e, s2)
         | (Inr (buffer, True), s2) \<Rightarrow>
             (case files s2 p of
                None \<Rightarrow> (Err (Message ''metadata''), s2)
              | Some content \<Rightarrow>
                  (let sz = of_nat (length content);
                       (h, s3) = build_handle i mime sz (Spilled p) (record_spill sz s2)
                   in (Ok h, s3)))
         | (Inr (buffer, False), s2) \<Rightarrow> store_reserved i buffer mime s2)"

definition not_found :: string where
  "not_found = ''No such file or directory (os error 2)''"

definition read_file :: "string \<Rightarrow> runtime \<Rightarrow> anyhow + bytes" where
  "read_file p s =
     (case io_error s p of
        Some t \<Rightarrow> Err (Message t)
      | None \<Rightarrow> ok_or (Message not_found) (files s p))"

text \<open>\<open>open_reader\<close> yields a reader over the same bytes \<open>read_bytes\<close> returns.\<close>

definition read_storage :: "blob_storage \<Rightarrow> runtime \<Rightarrow> anyhow + bytes" where
  "read_storage st s =
     (case st of Inline b \<Rightarrow> Ok b | Shared b \<Rightarrow> Ok b | Spilled p \<Rightarrow> read_file p s)"

definition open_reader :: "blob_handle \<Rightarrow> runtime \<Rightarrow> anyhow + bytes" where
  "open_reader h s = read_storage (storage (heap s ! h)) s"

definition read_bytes :: "blob_handle \<Rightarrow> runtime \<Rightarrow> anyhow + bytes" where
  "read_bytes h s = read_storage (storage (heap s ! h)) s"

definition mark_removed :: "blob_handle \<Rightarrow> runtime \<Rightarrow> runtime" where
  "mark_removed h s = s\<lparr>heap := (heap s)[h := (heap s ! h)\<lparr>removed := True\<rparr>]\<rparr>"

definition remove :: "blob_handle \<Rightarrow> runtime \<Rightarrow> (anyhow + unit) \<times> runtime" where
  "remove h s =
     (if removed (heap s ! h) then (Ok (), s)
      else
        (let s1 = mark_removed h s
         in case storage (heap s ! h) of
              Inline b \<Rightarrow> (Ok (), release_inline_bytes (of_nat (length b)) s1)
            | Shared _ \<Rightarrow> (Ok (), s1)
            | Spilled p \<Rightarrow>
                (case io_error s1 p of
                   Some t \<Rightarrow> (Err (Message t), s1)
                 | None \<Rightarrow> (Ok (), s1\<lparr>files := (files s1)(p := None)\<rparr>))))"

definition is_inline :: "blob_handle \<Rightarrow> runtime \<Rightarrow> bool" where
  "is_inline h s = (case storage (heap s ! h) of Inline _ \<Rightarrow> True | Shared _ \<Rightarrow> True | Spilled _ \<Rightarrow> False)"

definition is_spilled :: "blob_handle \<Rightarrow> runtime \<Rightarrow> bool" where
  "is_spilled h s = (case storage (heap s ! h) of Spilled _ \<Rightarrow> True | _ \<Rightarrow> False)"

definition stats_snapshot :: "runtime \<Rightarrow> blob_runtime_stats_snapshot" where
  "stats_snapshot s =
     \<lparr>snapshot_spill_count = spill_count s, snapshot_spill_bytes_total = spill_bytes_total s\<rparr>"

lemmas runtime_op_defs =
  next_id_def try_inline_reserve_def release_inline_bytes_def record_spill_def write_file_def
  write_spilled_bytes_def build_handle_def store_reserved_def store_bytes_def
  store_shared_bytes_def store_external_shared_bytes_def append_file_def store_stream_def
  read_file_def read_storage_def open_reader_def read_bytes_def mark_removed_def remove_def


section \<open>The budget invariant\<close>

definition live_inline :: "blob_inner \<Rightarrow> nat" where
  "live_inline b = (if removed b then 0 else case storage b of Inline bs \<Rightarrow> length bs | _ \<Rightarrow> 0)"

definition hot_sum :: "runtime \<Rightarrow> nat" where
  "hot_sum s = sum_list (map live_inline (heap s))"

definition blob_ok :: "runtime \<Rightarrow> blob_inner \<Rightarrow> bool" where
  "blob_ok s b \<longleftrightarrow>
     unat (blob_id b) < unat (next_id_ctr s)
   \<and> (case storage b of
        Spilled p \<Rightarrow> p = spill_path s (blob_id b) \<and> (\<not> removed b \<longrightarrow> files s p \<noteq> None)
      | Inline bs \<Rightarrow> length bs < 2 ^ 63
      | Shared _ \<Rightarrow> True)"

definition blob_inv :: "runtime \<Rightarrow> bool" where
  "blob_inv s \<longleftrightarrow>
     unat (global_hot_bytes s) = hot_sum s
   \<and> global_hot_bytes s \<le> global_hot_budget_bytes (cfg s)
   \<and> distinct (map blob_id (heap s))
   \<and> (\<forall>b \<in> set (heap s). blob_ok s b)"

text \<open>The byte string behind a live handle: the abstraction the clients see.\<close>

definition blob_contents :: "runtime \<Rightarrow> blob_handle \<Rightarrow> bytes option" where
  "blob_contents s h =
     (if h < length (heap s) \<and> \<not> removed (heap s ! h)
      then (case storage (heap s ! h) of Inline b \<Rightarrow> Some b | Shared b \<Rightarrow> Some b | Spilled p \<Rightarrow> files s p)
      else None)"

text \<open>The environment and the fixed part of the state.\<close>

definition same_env :: "runtime \<Rightarrow> runtime \<Rightarrow> bool" where
  "same_env s s' \<longleftrightarrow> cfg s' = cfg s \<and> io_error s' = io_error s"

lemma set_file_sel [simp]:
  "cfg (set_file p b s) = cfg s" "next_id_ctr (set_file p b s) = next_id_ctr s"
  "global_hot_bytes (set_file p b s) = global_hot_bytes s" "heap (set_file p b s) = heap s"
  "files (set_file p b s) = (files s)(p \<mapsto> b)" "io_error (set_file p b s) = io_error s"
  "spill_path (set_file p b s) = spill_path s"
  by (simp_all add: set_file_def spill_path_def fun_eq_iff)

lemma set_file_twice [simp]: "set_file p b (set_file p a s) = set_file p b s"
  by (simp add: set_file_def)

lemma set_file_same: "files s p = Some c \<Longrightarrow> set_file p c s = s"
  by (simp add: set_file_def fun_upd_idem)

lemma record_spill_sel [simp]:
  "cfg (record_spill n s) = cfg s" "next_id_ctr (record_spill n s) = next_id_ctr s"
  "global_hot_bytes (record_spill n s) = global_hot_bytes s" "heap (record_spill n s) = heap s"
  "files (record_spill n s) = files s" "io_error (record_spill n s) = io_error s"
  "spill_path (record_spill n s) = spill_path s"
  by (simp_all add: record_spill_def spill_path_def fun_eq_iff)

lemma same_env_refl [simp]: "same_env s s"
  by (simp add: same_env_def)

lemma same_env_spill_path: "same_env s s' \<Longrightarrow> spill_path s' i = spill_path s i"
  by (simp add: same_env_def spill_path_def)

lemma path_join_inj: "path_join d m = path_join d n \<Longrightarrow> m = n"
  by (auto simp: path_join_def split: if_splits)

lemma spill_path_inj: "spill_path s i = spill_path s j \<Longrightarrow> i = j"
  by (auto simp: spill_path_def word_unat_eq_iff dest!: path_join_inj show_nat_inj)

lemma live_inline_new [simp]:
  "live_inline \<lparr>blob_id = i, meta = m, storage = Inline b, removed = False\<rparr> = length b"
  "live_inline \<lparr>blob_id = i, meta = m, storage = Shared b, removed = False\<rparr> = 0"
  "live_inline \<lparr>blob_id = i, meta = m, storage = Spilled p, removed = False\<rparr> = 0"
  by (simp_all add: live_inline_def)

lemma blob_inv_new: "blob_inv (runtime_new c fs io)"
  by (simp add: blob_inv_def runtime_new_def hot_sum_def)

subsection \<open>Adding a blob\<close>

text \<open>Every storing operation ends by appending one blob; what that needs and gives.\<close>

definition add_blob :: "blob_inner \<Rightarrow> runtime \<Rightarrow> runtime" where
  "add_blob b s = s\<lparr>heap := heap s @ [b]\<rparr>"

lemma build_handle_eq:
  "build_handle i mime sz st s =
     (length (heap s),
      add_blob \<lparr>blob_id = i, meta = \<lparr>blob_mime_type = mime, size_bytes = sz\<rparr>, storage = st, removed = False\<rparr> s)"
  by (simp add: build_handle_def add_blob_def)

lemma add_blob_sel [simp]:
  "cfg (add_blob b s) = cfg s" "next_id_ctr (add_blob b s) = next_id_ctr s"
  "global_hot_bytes (add_blob b s) = global_hot_bytes s" "heap (add_blob b s) = heap s @ [b]"
  "files (add_blob b s) = files s" "io_error (add_blob b s) = io_error s"
  "spill_path (add_blob b s) = spill_path s"
  by (simp_all add: add_blob_def spill_path_def fun_eq_iff)

lemma blob_ok_cong:
  "cfg s' = cfg s \<Longrightarrow> next_id_ctr s' = next_id_ctr s \<Longrightarrow> files s' = files s \<Longrightarrow> blob_ok s' b = blob_ok s b"
  by (simp add: blob_ok_def spill_path_def split: blob_storage.splits)

text \<open>Files other than those of the live spilled blobs do not matter.\<close>

lemma blob_ok_files:
  assumes "blob_ok s b" "blob_id b \<noteq> i" "cfg s' = cfg s" "unat (next_id_ctr s) \<le> unat (next_id_ctr s')"
    and "\<And>p. p \<noteq> spill_path s i \<Longrightarrow> files s' p = files s p"
  shows "blob_ok s' b"
proof -
  have sp: "spill_path s' = spill_path s"
    using assms(3) by (simp add: spill_path_def fun_eq_iff)
  have "spill_path s (blob_id b) \<noteq> spill_path s i"
    using assms(2) spill_path_inj by blast
  with assms sp show ?thesis
    by (auto simp: blob_ok_def split: blob_storage.splits)
qed

lemma add_blob_inv:
  assumes "unat (global_hot_bytes s) = hot_sum s + live_inline b"
    and "global_hot_bytes s \<le> global_hot_budget_bytes (cfg s)"
    and "distinct (map blob_id (heap s))" "blob_id b \<notin> blob_id ` set (heap s)"
    and "\<forall>b \<in> set (heap s). blob_ok s b" "blob_ok s b"
  shows "blob_inv (add_blob b s)"
  using assms by (auto simp: blob_inv_def hot_sum_def blob_ok_cong [of "add_blob b s" s])

lemma add_blob_contents:
  assumes "\<not> removed b"
  shows "blob_contents (add_blob b s) =
    (blob_contents s)(length (heap s) :=
       (case storage b of Inline bs \<Rightarrow> Some bs | Shared bs \<Rightarrow> Some bs | Spilled p \<Rightarrow> files s p))"
  using assms by (auto simp: blob_contents_def fun_eq_iff nth_append split: blob_storage.splits)

lemma blob_contents_files:
  assumes "\<forall>b \<in> set (heap s). blob_ok s b" "i \<notin> blob_id ` set (heap s)" "heap s' = heap s"
    and "\<And>p. p \<noteq> spill_path s i \<Longrightarrow> files s' p = files s p"
  shows "blob_contents s' = blob_contents s"
proof
  fix h
  show "blob_contents s' h = blob_contents s h"
  proof (cases "h < length (heap s)")
    case True
    then have mem: "heap s ! h \<in> set (heap s)" by simp
    then have "blob_ok s (heap s ! h)" "blob_id (heap s ! h) \<noteq> i"
      using assms(1,2) by auto
    then show ?thesis
      using assms(3,4) spill_path_inj
      by (auto simp: blob_contents_def blob_ok_def split: blob_storage.splits)
  qed (simp add: blob_contents_def assms(3))
qed


subsection \<open>Storing\<close>

text \<open>A byte string fits when its length does not exceed \<open>isize::MAX\<close>, as every Rust vector.\<close>

definition fits :: "bytes \<Rightarrow> bool" where
  "fits b \<longleftrightarrow> length b < 2 ^ 63"

text \<open>An identifier that was issued and that no blob carries yet.\<close>

definition fresh_id :: "u64 \<Rightarrow> runtime \<Rightarrow> bool" where
  "fresh_id i s \<longleftrightarrow> unat i < unat (next_id_ctr s) \<and> i \<notin> blob_id ` set (heap s)"

lemma fits_unat: "fits b \<Longrightarrow> unat (of_nat (length b) :: u64) = length b"
  by (simp add: fits_def unat_of_nat_u64)

lemma try_inline_reserve_True:
  assumes "try_inline_reserve sz s = (True, s')"
  shows "s' = s\<lparr>global_hot_bytes := global_hot_bytes s + sz\<rparr>"
    and "unat (global_hot_bytes s + sz) = unat (global_hot_bytes s) + unat sz"
    and "global_hot_bytes s + sz \<le> global_hot_budget_bytes (cfg s)"
  using assms checked_add_unat
  by (auto simp: try_inline_reserve_def checked_add_eq_Some split: if_splits option.splits)

lemma try_inline_reserve_False:
  "try_inline_reserve sz s = (False, s') \<Longrightarrow> s' = s"
  by (auto simp: try_inline_reserve_def split: if_splits option.splits)

lemma write_spilled_bytes_Ok:
  "write_spilled_bytes i b s = (Ok p, s') \<Longrightarrow>
     p = spill_path s i \<and> s' = set_file p b s"
  by (auto simp: write_spilled_bytes_def write_file_def Let_def split: option.splits)

lemma write_spilled_bytes_Err:
  "write_spilled_bytes i b s = (Err e, s') \<Longrightarrow> s' = s"
  by (auto simp: write_spilled_bytes_def write_file_def Let_def split: option.splits)

lemma blob_inv_next_id:
  assumes "blob_inv s" "next_id s = (i, s1)" "next_id_ctr s \<noteq> - 1"
  shows "blob_inv s1" "fresh_id i s1" "same_env s s1" "heap s1 = heap s"
    "blob_contents s1 = blob_contents s" "files s1 = files s"
    "global_hot_bytes s1 = global_hot_bytes s"
proof -
  have s1: "s1 = s\<lparr>next_id_ctr := next_id_ctr s + 1\<rparr>" and i: "i = next_id_ctr s"
    using assms(2) by (auto simp: next_id_def)
  have up: "unat (next_id_ctr s + 1) = unat (next_id_ctr s) + 1"
    using assms(3) by (rule unat_succ)
  have fr: "i \<notin> blob_id ` set (heap s)"
    using assms(1) by (auto simp: i blob_inv_def blob_ok_def)
  have ok: "blob_ok s1 b" if "b \<in> set (heap s)" for b
  proof (rule blob_ok_files [of s b i])
    show "blob_ok s b" using that assms(1) by (simp add: blob_inv_def)
    show "blob_id b \<noteq> i" using that fr by auto
  qed (simp_all add: s1 up)
  from assms(1) ok show "blob_inv s1" by (auto simp: blob_inv_def s1 hot_sum_def)
  from fr up show "fresh_id i s1" by (auto simp: fresh_id_def s1 i)
  show "same_env s s1" "heap s1 = heap s" "files s1 = files s" "global_hot_bytes s1 = global_hot_bytes s"
    by (simp_all add: s1 same_env_def)
  show "blob_contents s1 = blob_contents s" by (simp add: s1 blob_contents_def fun_eq_iff split: blob_storage.splits)
qed

lemma store_reserved_Ok:
  assumes inv: "blob_inv s" and fit: "fits b" and fr: "fresh_id i s"
    and res: "store_reserved i b mime s = (Ok h, s')"
  shows "blob_inv s'" "h = length (heap s)" "blob_contents s' = (blob_contents s)(h \<mapsto> b)" "same_env s s'"
proof -
  note inv' = inv [unfolded blob_inv_def] and fr' = fr [unfolded fresh_id_def]
  have "blob_inv s' \<and> h = length (heap s) \<and> blob_contents s' = (blob_contents s)(h \<mapsto> b) \<and> same_env s s'"
  proof (cases "try_inline_reserve (of_nat (length b)) s")
    case (Pair ok s1)
    show ?thesis
    proof (cases ok)
      case True
      with Pair have r: "try_inline_reserve (of_nat (length b)) s = (True, s1)" by simp
      let ?b = "\<lparr>blob_id = i, meta = \<lparr>blob_mime_type = mime, size_bytes = of_nat (length b)\<rparr>,
        storage = Inline b, removed = False\<rparr>"
      have s': "s' = add_blob ?b s1" "h = length (heap s1)"
        using res r by (auto simp: store_reserved_def Let_def build_handle_eq)
      note s1 = try_inline_reserve_True [OF r]
      have "blob_inv (add_blob ?b s1)"
        using inv' fr' fit s1 fits_unat [OF fit]
        by (intro add_blob_inv) (auto simp: hot_sum_def blob_ok_def fits_def spill_path_def split: blob_storage.splits)
      then show ?thesis
        using s' s1(1) by (auto simp: add_blob_contents same_env_def blob_contents_def fun_eq_iff split: blob_storage.splits)
    next
      case False
      with Pair have s1: "s1 = s" by (simp add: try_inline_reserve_False)
      obtain p s2 where w: "write_spilled_bytes i b s = (Ok p, s2)"
        using res Pair False s1
        by (cases "write_spilled_bytes i b s") (auto simp: store_reserved_def Let_def split: sum.splits)
      note w' = write_spilled_bytes_Ok [OF w]
      let ?b = "\<lparr>blob_id = i, meta = \<lparr>blob_mime_type = mime, size_bytes = of_nat (length b)\<rparr>,
        storage = Spilled p, removed = False\<rparr>"
      let ?s3 = "record_spill (of_nat (length b)) s2"
      have s': "s' = add_blob ?b ?s3" "h = length (heap s)"
        using res Pair False s1 w w' by (auto simp: store_reserved_def Let_def build_handle_eq record_spill_def)
      have ok: "blob_ok ?s3 c" if "c \<in> set (heap s)" for c
      proof (rule blob_ok_files [of s c i])
        show "blob_ok s c" using that inv' by blast
        show "blob_id c \<noteq> i" using that fr' by auto
      qed (simp_all add: w' record_spill_def)
      have "blob_inv (add_blob ?b ?s3)"
      proof (rule add_blob_inv)
        show "\<forall>b \<in> set (heap ?s3). blob_ok ?s3 b" using ok w' by (simp add: record_spill_def)
        show "blob_ok ?s3 ?b" using fr' w' by (simp add: blob_ok_def)
      qed (use inv' fr' w' in \<open>simp_all add: hot_sum_def record_spill_def\<close>)
      moreover have "blob_contents ?s3 = blob_contents s"
        by (rule blob_contents_files [of s i]) (use inv' fr' w' in \<open>simp_all add: record_spill_def\<close>)
      ultimately show ?thesis
        using s' w' by (auto simp: add_blob_contents same_env_def record_spill_def)
    qed
  qed
  then show "blob_inv s'" "h = length (heap s)" "blob_contents s' = (blob_contents s)(h \<mapsto> b)" "same_env s s'"
    by blast+
qed

lemma store_reserved_Err:
  "store_reserved i b mime s = (Err e, s') \<Longrightarrow> s' = s"
  by (auto simp: store_reserved_def Let_def build_handle_def
    dest!: try_inline_reserve_False write_spilled_bytes_Err
    split: prod.splits bool.splits sum.splits if_splits)


text \<open>The operations that issue an identifier first.\<close>

definition ready :: "bytes \<Rightarrow> runtime \<Rightarrow> bool" where
  "ready b s \<longleftrightarrow> fits b \<and> next_id_ctr s \<noteq> - 1"

lemma store_shared_bytes_eq: "store_shared_bytes = store_bytes"
  by (simp add: fun_eq_iff store_shared_bytes_def store_bytes_def)

lemma store_bytes_Ok:
  assumes "blob_inv s" "ready b s" "store_bytes b mime s = (Ok h, s')"
  shows "blob_inv s'" "h = length (heap s)" "blob_contents s' = (blob_contents s)(h \<mapsto> b)" "same_env s s'"
proof -
  obtain i s1 where n: "next_id s = (i, s1)" by (cases "next_id s")
  note s1 = blob_inv_next_id [OF assms(1) n]
  have r: "store_reserved i b mime s1 = (Ok h, s')" and "next_id_ctr s \<noteq> - 1" "fits b"
    using assms(2,3) n by (auto simp: store_bytes_def ready_def)
  note s' = store_reserved_Ok [OF s1(1) _ s1(2) r]
  show "blob_inv s'" "h = length (heap s)" "blob_contents s' = (blob_contents s)(h \<mapsto> b)" "same_env s s'"
    using s' s1 \<open>fits b\<close> \<open>next_id_ctr s \<noteq> - 1\<close> by (simp_all add: same_env_def)
qed

lemma store_bytes_Err:
  assumes "blob_inv s" "ready b s" "store_bytes b mime s = (Err e, s')"
  shows "blob_inv s'" "blob_contents s' = blob_contents s" "same_env s s'"
    "global_hot_bytes s' = global_hot_bytes s"
proof -
  obtain i s1 where n: "next_id s = (i, s1)" by (cases "next_id s")
  have "s' = s1" using assms(3) n by (auto simp: store_bytes_def dest: store_reserved_Err)
  then show "blob_inv s'" "blob_contents s' = blob_contents s" "same_env s s'"
    "global_hot_bytes s' = global_hot_bytes s"
    using blob_inv_next_id [OF assms(1) n] assms(2) by (simp_all add: ready_def)
qed

lemma store_external_Ok:
  assumes "blob_inv s" "ready b s" "store_external_shared_bytes b mime s = (Ok h, s')"
  shows "blob_inv s'" "h = length (heap s)" "blob_contents s' = (blob_contents s)(h \<mapsto> b)" "same_env s s'"
    "global_hot_bytes s' = global_hot_bytes s"
proof -
  obtain i s1 where n: "next_id s = (i, s1)" by (cases "next_id s")
  have "next_id_ctr s \<noteq> - 1" using assms(2) by (simp add: ready_def)
  note s1 = blob_inv_next_id [OF assms(1) n this]
  let ?b = "\<lparr>blob_id = i, meta = \<lparr>blob_mime_type = mime, size_bytes = of_nat (length b)\<rparr>,
    storage = Shared b, removed = False\<rparr>"
  have s': "s' = add_blob ?b s1" "h = length (heap s1)"
    using assms(3) n by (auto simp: store_external_shared_bytes_def build_handle_eq)
  have "blob_inv (add_blob ?b s1)"
    by (rule add_blob_inv) (use s1(1,2) in \<open>simp_all add: blob_inv_def fresh_id_def blob_ok_def\<close>)
  with s' s1 show "blob_inv s'" "h = length (heap s)" "blob_contents s' = (blob_contents s)(h \<mapsto> b)"
    "same_env s s'" "global_hot_bytes s' = global_hot_bytes s"
    by (simp_all add: add_blob_contents same_env_def)
qed

subsection \<open>Streaming\<close>

text \<open>The bytes a reader delivers, \<open>None\<close> when a read fails first.\<close>

fun stream_bytes :: "(string + bytes) list \<Rightarrow> bytes option" where
  "stream_bytes [] = Some []"
| "stream_bytes (Inl t # rs) = None"
| "stream_bytes (Inr c # rs) = (if c = [] then Some [] else map_option (append c) (stream_bytes rs))"

lemma stream_loop_spilled:
  assumes "stream_loop limit p rs buffer True s = (Ok (buf, sp), s')" "files s p = Some c"
  shows "\<exists>d. stream_bytes rs = Some d \<and> sp \<and> s' = set_file p (c @ d) s"
  using assms
proof (induction rs arbitrary: s c)
  case (Cons r rs)
  show ?case
  proof (cases r)
    case (Inr chunk)
    show ?thesis
    proof (cases "chunk = []")
      case False
      with Cons.prems Inr have "stream_loop limit p rs buffer True (set_file p (c @ chunk) s) = (Ok (buf, sp), s')"
        by (auto simp: append_file_def write_file_def split: option.splits)
      from Cons.IH [OF this, of "c @ chunk"] False Inr show ?thesis by auto
    qed (use Cons.prems Inr in \<open>auto simp: set_file_same\<close>)
  qed (use Cons.prems in auto)
qed (auto simp: set_file_same)

lemma stream_loop_Ok:
  assumes "stream_loop limit p rs buffer False s = (Ok (buf, sp), s')" "length buffer \<le> limit"
  shows "\<exists>d. stream_bytes rs = Some d
      \<and> (sp \<longleftrightarrow> limit < length (buffer @ d))
      \<and> (if sp then s' = set_file p (buffer @ d) s else buf = buffer @ d \<and> s' = s)"
  using assms
proof (induction rs arbitrary: buffer)
  case (Cons r rs)
  show ?case
  proof (cases r)
    case (Inr chunk)
    consider "chunk = []" | "chunk \<noteq> []" "length buffer + length chunk \<le> limit"
      | "chunk \<noteq> []" "limit < length buffer + length chunk" by linarith
    then show ?thesis
    proof cases
      case 2
      with Cons.prems Inr have "stream_loop limit p rs (buffer @ chunk) False s = (Ok (buf, sp), s')"
        by simp
      from Cons.IH [OF this] 2 Inr show ?thesis by auto
    next
      case 3
      with Cons.prems Inr have l: "stream_loop limit p rs [] True (set_file p (buffer @ chunk) s)
          = (Ok (buf, sp), s')"
        by (auto simp: write_file_def split: option.splits)
      from stream_loop_spilled [OF l] 3 Inr show ?thesis by auto
    qed (use Cons.prems Inr in auto)
  qed (use Cons.prems in auto)
qed auto

definition touches_only :: "string \<Rightarrow> runtime \<Rightarrow> runtime \<Rightarrow> bool" where
  "touches_only p s s' \<longleftrightarrow> s' = s\<lparr>files := (files s)(p := files s' p)\<rparr>"

lemma touches_only_refl [simp]: "touches_only p s s"
  by (simp add: touches_only_def)

lemma touches_only_write [simp]: "touches_only p s (set_file p b s)"
  by (simp add: touches_only_def set_file_def)

lemma touches_only_trans:
  assumes "touches_only p s t" "touches_only p t u"
  shows "touches_only p s u"
proof -
  have "u = t\<lparr>files := (files t)(p := files u p)\<rparr>" using assms(2) by (simp only: touches_only_def)
  also have "\<dots> = s\<lparr>files := (files s)(p := files u p)\<rparr>"
    using assms(1) [unfolded touches_only_def] by (metis (no_types, lifting) fun_upd_upd runtime.select_convs(7) runtime.surjective runtime.update_convs(7))
  finally show ?thesis by (simp only: touches_only_def)
qed

lemma write_file_touches: "write_file p b s = (r, s') \<Longrightarrow> touches_only p s s'"
  by (auto simp: write_file_def split: option.splits)

lemma stream_loop_touches:
  "stream_loop limit p rs buffer sp s = (r, s') \<Longrightarrow> touches_only p s s'"
proof (induction limit p rs buffer sp s arbitrary: r s' rule: stream_loop.induct)
  case (3 limit p chunk rs buffer spilled s)
  show ?case
  proof (cases "chunk = [] \<or> \<not> spilled \<and> length buffer + length chunk \<le> limit")
    case True
    then show ?thesis using 3 by (cases "chunk = []") auto
  next
    case False
    let ?b = "if spilled then unwrap_or [] (files s p) @ chunk else buffer @ chunk"
    obtain r1 s1 where w: "write_file p ?b s = (r1, s1)" by (cases "write_file p ?b s")
    show ?thesis
    proof (cases r1)
      case (Inl e)
      then show ?thesis using False 3(4) w write_file_touches [OF w]
        by (cases spilled) (simp_all add: append_file_def)
    next
      case (Inr u)
      then have "touches_only p s1 s'"
        using False 3(1) 3(3) 3(4) w by (cases spilled) (auto simp: append_file_def)
      then show ?thesis using write_file_touches [OF w] touches_only_trans by blast
    qed
  qed
qed auto

lemma blob_inv_files:
  assumes "blob_inv s" "i \<notin> blob_id ` set (heap s)"
    and "touches_only (spill_path s i) s s'"
  shows "blob_inv s'" "blob_contents s' = blob_contents s" "same_env s s'" "heap s' = heap s"
    "global_hot_bytes s' = global_hot_bytes s" "next_id_ctr s' = next_id_ctr s"
proof -
  obtain x where s': "s' = s\<lparr>files := (files s)(spill_path s i := x)\<rparr>"
    using assms(3) unfolding touches_only_def by blast
  have "blob_ok s' b" if "b \<in> set (heap s)" for b
  proof (rule blob_ok_files [of s b i])
    show "blob_ok s b" using that assms(1) by (simp add: blob_inv_def)
    show "blob_id b \<noteq> i" using that assms(2) by auto
  qed (simp_all add: s')
  with assms(1) show "blob_inv s'" by (simp add: blob_inv_def hot_sum_def s')
  show "blob_contents s' = blob_contents s"
    by (rule blob_contents_files [of s i]) (use assms in \<open>simp_all add: blob_inv_def s'\<close>)
  show "same_env s s'" "heap s' = heap s" "global_hot_bytes s' = global_hot_bytes s"
    "next_id_ctr s' = next_id_ctr s"
    by (simp_all add: same_env_def s')
qed


lemma store_stream_Ok:
  assumes inv: "blob_inv s" and nid: "next_id_ctr s \<noteq> - 1"
    and res: "store_stream reader mime s = (Ok h, s')"
    and fit: "\<And>d. stream_bytes reader = Some d \<Longrightarrow> fits d"
  shows "\<exists>d. stream_bytes reader = Some d \<and> blob_inv s' \<and> h = length (heap s)
           \<and> blob_contents s' = (blob_contents s)(h \<mapsto> d) \<and> same_env s s'"
proof -
  obtain i s1 where n: "next_id s = (i, s1)" by (cases "next_id s")
  note s1 = blob_inv_next_id [OF inv n nid]
  let ?lim = "unat (min (inline_max_bytes (cfg s)) (request_hot_budget_bytes (cfg s)))"
  let ?p = "spill_path s1 i"
  obtain buf sp s2 where l: "stream_loop ?lim ?p reader [] False s1 = (Ok (buf, sp), s2)"
    using res n
    by (cases "stream_loop ?lim ?p reader [] False s1")
      (auto simp: store_stream_def Let_def split: sum.splits)
  from stream_loop_Ok [OF l] obtain d where d: "stream_bytes reader = Some d"
    and sp: "if sp then s2 = set_file ?p d s1 else buf = d \<and> s2 = s1"
    by auto
  have fr: "i \<notin> blob_id ` set (heap s1)" using s1(2) by (simp add: fresh_id_def)
  show ?thesis
  proof (cases sp)
    case False
    then have "store_reserved i d mime s1 = (Ok h, s')"
      using res n l sp by (simp add: store_stream_def Let_def)
    from store_reserved_Ok [OF s1(1) fit [OF d] s1(2) this] d s1 show ?thesis
      by (simp add: same_env_def)
  next
    case True
    then have s2: "s2 = set_file ?p d s1" using sp by simp
    note f = blob_inv_files [OF s1(1) fr stream_loop_touches [OF l]]
    let ?b = "\<lparr>blob_id = i, meta = \<lparr>blob_mime_type = mime, size_bytes = of_nat (length d)\<rparr>,
      storage = Spilled ?p, removed = False\<rparr>"
    let ?s3 = "record_spill (of_nat (length d)) s2"
    have s': "s' = add_blob ?b ?s3" "h = length (heap s)"
      using res n l True s1(4) s2 by (auto simp: store_stream_def Let_def build_handle_eq)
    have rs: "blob_contents ?s3 = blob_contents s2" "blob_ok ?s3 = blob_ok s2"
      by (auto simp: fun_eq_iff blob_contents_def blob_ok_def split: blob_storage.splits)
    have "blob_inv (add_blob ?b ?s3)"
    proof (rule add_blob_inv)
      show "blob_ok ?s3 ?b" using s1(2) s2 by (simp add: blob_ok_def fresh_id_def)
    qed (use f fr rs in \<open>simp_all add: blob_inv_def hot_sum_def\<close>)
    with s' d f s1 s2 rs show ?thesis
      by (simp add: add_blob_contents same_env_def)
  qed
qed

section \<open>Removal\<close>

lemma remove_twice: "removed (heap s ! h) \<Longrightarrow> remove h s = (Ok (), s)"
  by (simp add: remove_def)

lemma remove_marks:
  "h < length (heap s) \<Longrightarrow> remove h s = (r, s') \<Longrightarrow> removed (heap s' ! h) \<and> length (heap s') = length (heap s)"
  by (auto simp: remove_def mark_removed_def release_inline_bytes_def Let_def
    split: if_splits blob_storage.splits option.splits)

lemma hot_sum_mark:
  assumes "h < length (heap s)"
  shows "hot_sum (mark_removed h s) + live_inline (heap s ! h) = hot_sum s"
proof -
  let ?xs = "map live_inline (heap s)"
  have "live_inline (heap s ! h) \<le> sum_list ?xs"
    using assms by (intro member_le_sum_list) auto
  moreover have "hot_sum (mark_removed h s) = sum_list (?xs[h := 0])"
    by (simp add: hot_sum_def mark_removed_def map_update live_inline_def)
  ultimately show ?thesis
    using assms by (simp add: hot_sum_def sum_list_update)
qed

lemma blob_contents_mark:
  "h < length (heap s) \<Longrightarrow> blob_contents (mark_removed h s) = (blob_contents s)(h := None)"
  by (auto simp: blob_contents_def mark_removed_def fun_eq_iff nth_list_update split: blob_storage.splits)

lemma blob_ok_mark:
  assumes "blob_inv s" "h < length (heap s)" "b \<in> set (heap (mark_removed h s))"
  shows "blob_ok (mark_removed h s) b"
proof -
  have c: "blob_ok (mark_removed h s) = blob_ok s"
    by (rule ext, rule blob_ok_cong) (simp_all add: mark_removed_def)
  from assms(3) consider "b \<in> set (heap s)" | "b = (heap s ! h)\<lparr>removed := True\<rparr>"
    using set_update_subset_insert by (fastforce simp: mark_removed_def)
  then show ?thesis
  proof cases
    case 2
    have "blob_ok s (heap s ! h)" using assms(1,2) by (simp add: blob_inv_def)
    with 2 c show ?thesis by (auto simp: blob_ok_def split: blob_storage.splits)
  qed (use assms c in \<open>simp add: blob_inv_def\<close>)
qed

lemma mark_removed_sel [simp]:
  "cfg (mark_removed h s) = cfg s" "next_id_ctr (mark_removed h s) = next_id_ctr s"
  "global_hot_bytes (mark_removed h s) = global_hot_bytes s" "files (mark_removed h s) = files s"
  "io_error (mark_removed h s) = io_error s" "spill_path (mark_removed h s) = spill_path s"
  "map blob_id (heap (mark_removed h s)) = map blob_id (heap s)"
  by (cases "h < length (heap s)";
    auto simp: mark_removed_def spill_path_def fun_eq_iff nth_list_update intro!: nth_equalityI)+

text \<open>Marking a blob that holds no hot bytes, and forgetting its file.\<close>

lemma blob_inv_mark:
  assumes "blob_inv s" "h < length (heap s)" "live_inline (heap s ! h) = 0"
  shows "blob_inv (mark_removed h s)"
  using assms hot_sum_mark [OF assms(2)] blob_ok_mark [OF assms(1,2)]
  by (simp add: blob_inv_def)

definition delete_file :: "string \<Rightarrow> runtime \<Rightarrow> runtime" where
  "delete_file p s = s\<lparr>files := (files s)(p := None)\<rparr>"

lemma delete_file_sel [simp]:
  "cfg (delete_file p s) = cfg s" "next_id_ctr (delete_file p s) = next_id_ctr s"
  "global_hot_bytes (delete_file p s) = global_hot_bytes s" "heap (delete_file p s) = heap s"
  "files (delete_file p s) = (files s)(p := None)" "io_error (delete_file p s) = io_error s"
  "spill_path (delete_file p s) = spill_path s"
  by (simp_all add: delete_file_def spill_path_def fun_eq_iff)

lemma spilled_same_path:
  assumes "blob_inv s" "h < length (heap s)" "k < length (heap s)"
    and "storage (heap s ! h) = Spilled p" "storage (heap s ! k) = Spilled p"
  shows "k = h"
proof -
  have "blob_ok s (heap s ! h)" "blob_ok s (heap s ! k)" using assms(1-3) by (simp_all add: blob_inv_def)
  with assms(4,5) have "spill_path s (blob_id (heap s ! h)) = spill_path s (blob_id (heap s ! k))"
    by (simp add: blob_ok_def)
  then have "blob_id (heap s ! h) = blob_id (heap s ! k)" by (rule spill_path_inj)
  with assms(1-3) show ?thesis
    by (auto simp: blob_inv_def distinct_conv_nth)
qed

lemma delete_file_removed:
  assumes inv: "blob_inv s" and h: "h < length (heap s)" "removed (heap s ! h)" "storage (heap s ! h) = Spilled p"
  shows "blob_inv (delete_file p s)" "blob_contents (delete_file p s) = blob_contents s"
proof -
  have other: "\<not> removed (heap s ! k) \<Longrightarrow> storage (heap s ! k) \<noteq> Spilled p" if "k < length (heap s)" for k
    using spilled_same_path [OF inv h(1) that h(3)] h(2) by auto
  have "blob_ok (delete_file p s) b" if b: "b \<in> set (heap s)" for b
  proof -
    obtain k where k: "k < length (heap s)" "b = heap s ! k" using b by (auto simp: in_set_conv_nth)
    have "blob_ok s b" using inv b by (simp add: blob_inv_def)
    with other [OF k(1)] k(2) show ?thesis by (auto simp: blob_ok_def split: blob_storage.splits)
  qed
  with inv show "blob_inv (delete_file p s)" by (simp add: blob_inv_def hot_sum_def)
  show "blob_contents (delete_file p s) = blob_contents s"
    using other by (auto simp: fun_eq_iff blob_contents_def split: blob_storage.splits)
qed

lemma remove_live:
  assumes inv: "blob_inv s" and h: "h < length (heap s)" and live: "\<not> removed (heap s ! h)"
    and rem: "remove h s = (r, s')"
  shows "blob_inv s'" "blob_contents s' = (blob_contents s)(h := None)" "same_env s s'"
    "unat (global_hot_bytes s') + live_inline (heap s ! h) = unat (global_hot_bytes s)"
proof -
  let ?m = "mark_removed h s"
  note hs = hot_sum_mark [OF h] and bc = blob_contents_mark [OF h]
  have "blob_inv s' \<and> blob_contents s' = (blob_contents s)(h := None) \<and> same_env s s'
      \<and> unat (global_hot_bytes s') + live_inline (heap s ! h) = unat (global_hot_bytes s)"
  proof (cases "storage (heap s ! h)")
    case (Inline b)
    let ?n = "of_nat (length b) :: u64"
    have s': "s' = release_inline_bytes ?n ?m" using rem live Inline by (simp add: remove_def Let_def)
    have b: "live_inline (heap s ! h) = length b" using Inline live by (simp add: live_inline_def)
    have "blob_ok s (heap s ! h)" using inv h by (simp add: blob_inv_def)
    then have n: "unat ?n = length b" using Inline by (simp add: blob_ok_def unat_of_nat_u64)
    have hot: "unat (global_hot_bytes s) = hot_sum ?m + length b" using inv hs b by (simp add: blob_inv_def)
    then have "?n \<le> global_hot_bytes s" using n by (simp add: word_le_nat_alt)
    then have sub: "unat (global_hot_bytes s - ?n) = hot_sum ?m" using hot n by (simp add: unat_sub)
    have le: "global_hot_bytes s - ?n \<le> global_hot_budget_bytes (cfg s)"
      using inv sub hot by (simp add: blob_inv_def word_le_nat_alt)
    have sel: "heap s' = heap ?m" "cfg s' = cfg s" "global_hot_bytes s' = global_hot_bytes s - ?n"
      "files s' = files s" "io_error s' = io_error s" "next_id_ctr s' = next_id_ctr s"
      by (simp_all add: s' release_inline_bytes_def)
    have "blob_ok s' = blob_ok ?m" by (rule ext, rule blob_ok_cong) (simp_all add: sel)
    then have "blob_inv s'"
      using inv sub le blob_ok_mark [OF inv h] by (simp add: blob_inv_def sel hot_sum_def)
    moreover have "blob_contents s' = blob_contents ?m"
      using sel(4) by (auto simp: fun_eq_iff blob_contents_def sel(1) split: blob_storage.splits)
    ultimately show ?thesis using bc sub hot b by (simp add: same_env_def sel)
  next
    case (Shared b)
    then have "s' = ?m" "live_inline (heap s ! h) = 0"
      using rem live by (simp_all add: remove_def Let_def live_inline_def)
    then show ?thesis using blob_inv_mark [OF inv h] bc by (simp add: same_env_def)
  next
    case (Spilled p)
    then have l: "live_inline (heap s ! h) = 0" by (simp add: live_inline_def)
    note im = blob_inv_mark [OF inv h l]
    have hm: "h < length (heap ?m)" "removed (heap ?m ! h)" "storage (heap ?m ! h) = Spilled p"
      using h Spilled by (simp_all add: mark_removed_def)
    have "s' = ?m \<or> s' = delete_file p ?m"
      using rem live Spilled by (auto simp: remove_def Let_def delete_file_def split: option.splits)
    then show ?thesis using im delete_file_removed [OF im hm] bc l by (auto simp: same_env_def)
  qed
  then show "blob_inv s'" "blob_contents s' = (blob_contents s)(h := None)" "same_env s s'"
    "unat (global_hot_bytes s') + live_inline (heap s ! h) = unat (global_hot_bytes s)"
    by blast+
qed

section \<open>The interface: a store of byte strings\<close>

text \<open>
  What a client of the runtime relies on: a state \<open>'s\<close> abstracts to a finite map from
  handles to byte strings, storing adds one fresh entry, removing deletes one, and a read
  that succeeds returns the entry.
\<close>

locale blob_store =
  fixes contents :: "'s \<Rightarrow> 'h \<Rightarrow> bytes option"
    and store :: "bytes \<Rightarrow> string \<Rightarrow> 's \<Rightarrow> (anyhow + 'h) \<times> 's"
    and read :: "'h \<Rightarrow> 's \<Rightarrow> anyhow + bytes"
    and rem :: "'h \<Rightarrow> 's \<Rightarrow> (anyhow + unit) \<times> 's"
    and inv :: "'s \<Rightarrow> bool"
    and can_store :: "bytes \<Rightarrow> 's \<Rightarrow> bool"
  assumes store_Ok: "inv s \<Longrightarrow> can_store b s \<Longrightarrow> store b m s = (Ok h, s') \<Longrightarrow>
      inv s' \<and> contents s h = None \<and> contents s' = (contents s)(h \<mapsto> b)"
    and store_Err: "inv s \<Longrightarrow> can_store b s \<Longrightarrow> store b m s = (Err e, s') \<Longrightarrow>
      inv s' \<and> contents s' = contents s"
    and read_sound: "inv s \<Longrightarrow> contents s h = Some b \<Longrightarrow> read h s = Ok c \<Longrightarrow> c = b"
    and rem_entry: "inv s \<Longrightarrow> contents s h = Some b \<Longrightarrow> rem h s = (r, s') \<Longrightarrow>
      inv s' \<and> contents s' = (contents s)(h := None)"
begin

lemma store_inv: "inv s \<Longrightarrow> can_store b s \<Longrightarrow> store b m s = (r, s') \<Longrightarrow> inv s'"
  using store_Ok store_Err by (cases r) blast+

lemma store_frame:
  assumes "inv s" "can_store b s" "store b m s = (r, s')" "contents s k = Some c"
  shows "contents s' k = Some c"
proof (cases r)
  case (Inl e)
  then show ?thesis using store_Err assms by metis
next
  case (Inr h)
  then have "contents s h = None" "contents s' = (contents s)(h \<mapsto> b)" using store_Ok assms by blast+
  with assms(4) show ?thesis by auto
qed

lemma store_read: "inv s \<Longrightarrow> can_store b s \<Longrightarrow> store b m s = (Ok h, s') \<Longrightarrow> read h s' = Ok c \<Longrightarrow> c = b"
  using store_Ok [of s b m h s'] read_sound [of s' h b c] by auto

lemma store_rem:
  assumes "inv s" "can_store b s" "store b m s = (Ok h, s1)" "rem h s1 = (r, s2)"
  shows "contents s2 = contents s"
proof -
  have s1: "inv s1" "contents s h = None" "contents s1 = (contents s)(h \<mapsto> b)" using store_Ok assms by blast+
  then have "contents s2 = (contents s1)(h := None)" using rem_entry [of s1 h b r s2] assms(4) by simp
  with s1 show ?thesis by (simp add: fun_upd_idem)
qed

end

lemma blob_contents_live:
  "blob_contents s h = Some b \<Longrightarrow> h < length (heap s) \<and> \<not> removed (heap s ! h)"
  by (simp add: blob_contents_def split: if_splits)

lemma blob_contents_fresh: "blob_contents s (length (heap s)) = None"
  by (simp add: blob_contents_def)

lemma read_bytes_contents:
  assumes "blob_contents s h = Some b"
  shows "read_bytes h s = Ok b \<or> (\<exists>p t. storage (heap s ! h) = Spilled p \<and> io_error s p = Some t)"
  using assms
  by (auto simp: blob_contents_def read_bytes_def read_storage_def read_file_def
    split: if_splits blob_storage.splits option.splits)

lemma read_bytes_sound: "blob_contents s h = Some b \<Longrightarrow> read_bytes h s = Ok c \<Longrightarrow> c = b"
  using read_bytes_contents [of s h b]
  by (auto simp: read_bytes_def read_storage_def read_file_def)

lemma remove_contents:
  "blob_inv s \<Longrightarrow> blob_contents s h = Some b \<Longrightarrow> remove h s = (r, s') \<Longrightarrow>
     blob_inv s' \<and> blob_contents s' = (blob_contents s)(h := None)"
  using remove_live(1,2) blob_contents_live by blast

interpretation owned: blob_store blob_contents store_bytes read_bytes remove blob_inv ready
  using store_bytes_Ok store_bytes_Err read_bytes_sound remove_contents blob_contents_fresh
  by unfold_locales (metis | blast)+

interpretation pooled: blob_store blob_contents store_shared_bytes read_bytes remove blob_inv ready
  using owned.blob_store_axioms by (simp only: store_shared_bytes_eq)

lemma store_external_total: "\<exists>h s'. store_external_shared_bytes b m s = (Ok h, s')"
  by (simp add: store_external_shared_bytes_def split: prod.splits)

interpretation external: blob_store blob_contents store_external_shared_bytes read_bytes remove blob_inv ready
proof unfold_locales
  fix s b m h s'
  assume "blob_inv s" "ready b s" "store_external_shared_bytes b m s = (Ok h, s')"
  then show "blob_inv s' \<and> blob_contents s h = None \<and> blob_contents s' = (blob_contents s)(h \<mapsto> b)"
    using store_external_Ok blob_contents_fresh by metis
next
  fix s b m e s'
  assume "store_external_shared_bytes b m s = (Err e, s')"
  then show "blob_inv s' \<and> blob_contents s' = blob_contents s"
    using store_external_total [of b m s] by auto
qed (use read_bytes_sound remove_contents in blast)+

section \<open>The reservation loop under interleaving\<close>

text \<open>
  Each slot is one caller of \<open>try_inline_reserve\<close>: it loads the counter, computes the sum,
  compare-exchanges, and goes round again when another caller was faster; a caller that got
  its reservation releases it later.  \<open>cas_step\<close> interleaves these atomic accesses freely.
\<close>

datatype slot = Idle | Trying u64 | Loaded u64 u64 | Holding u64

record cas_state =
  hot :: u64
  slots :: "slot list"

definition size_admitted :: "blob_runtime_config \<Rightarrow> u64 \<Rightarrow> bool" where
  "size_admitted c sz \<longleftrightarrow> \<not> (sz > inline_max_bytes c \<or> sz > request_hot_budget_bytes c)"

definition cas_target :: "blob_runtime_config \<Rightarrow> u64 \<Rightarrow> u64 \<Rightarrow> u64 option" where
  "cas_target c cur sz = filter_option (\<lambda>nxt. \<not> nxt > global_hot_budget_bytes c) (checked_add cur sz)"

definition set_slot :: "nat \<Rightarrow> slot \<Rightarrow> u64 \<Rightarrow> cas_state \<Rightarrow> cas_state" where
  "set_slot i x n s = s\<lparr>hot := n, slots := (slots s)[i := x]\<rparr>"

inductive cas_step :: "blob_runtime_config \<Rightarrow> cas_state \<Rightarrow> cas_state \<Rightarrow> bool" for c where
  enter: "i < length (slots s) \<Longrightarrow> slots s ! i = Idle \<Longrightarrow> size_admitted c sz
    \<Longrightarrow> cas_step c s (set_slot i (Trying sz) (hot s) s)"
| load: "i < length (slots s) \<Longrightarrow> slots s ! i = Trying sz
    \<Longrightarrow> cas_step c s (set_slot i (Loaded sz (hot s)) (hot s) s)"
| give_up: "i < length (slots s) \<Longrightarrow> slots s ! i = Loaded sz cur \<Longrightarrow> cas_target c cur sz = None
    \<Longrightarrow> cas_step c s (set_slot i Idle (hot s) s)"
| exchange: "i < length (slots s) \<Longrightarrow> slots s ! i = Loaded sz cur \<Longrightarrow> cas_target c cur sz = Some nxt
    \<Longrightarrow> hot s = cur \<Longrightarrow> cas_step c s (set_slot i (Holding sz) nxt s)"
| retry: "i < length (slots s) \<Longrightarrow> slots s ! i = Loaded sz cur \<Longrightarrow> cas_target c cur sz = Some nxt
    \<Longrightarrow> hot s \<noteq> cur \<Longrightarrow> cas_step c s (set_slot i (Trying sz) (hot s) s)"
| release: "i < length (slots s) \<Longrightarrow> slots s ! i = Holding sz
    \<Longrightarrow> cas_step c s (set_slot i Idle (hot s - sz) s)"

inductive_cases cas_stepE: "cas_step c s s'"

fun held :: "slot \<Rightarrow> nat" where
  "held (Holding sz) = unat sz"
| "held _ = 0"

definition cas_inv :: "blob_runtime_config \<Rightarrow> cas_state \<Rightarrow> bool" where
  "cas_inv c s \<longleftrightarrow> unat (hot s) = sum_list (map held (slots s)) \<and> hot s \<le> global_hot_budget_bytes c"

lemma cas_target_Some:
  "cas_target c cur sz = Some nxt \<Longrightarrow> unat nxt = unat cur + unat sz \<and> nxt \<le> global_hot_budget_bytes c"
  by (auto simp: cas_target_def filter_option_eq_Some dest: checked_add_unat)

lemma cas_inv_set_slot:
  assumes "cas_inv c s" "i < length (slots s)"
    and "unat n + held (slots s ! i) = unat (hot s) + held x" "n \<le> global_hot_budget_bytes c"
  shows "cas_inv c (set_slot i x n s)"
proof -
  have "held (slots s ! i) \<le> sum_list (map held (slots s))"
    using assms(2) by (intro member_le_sum_list) auto
  then show ?thesis
    using assms by (simp add: cas_inv_def set_slot_def map_update sum_list_update)
qed

lemma cas_inv_hot_ge:
  assumes "cas_inv c s" "i < length (slots s)" "slots s ! i = Holding sz"
  shows "sz \<le> hot s"
proof -
  have "held (slots s ! i) \<le> sum_list (map held (slots s))"
    using assms(2) by (intro member_le_sum_list) auto
  with assms show ?thesis by (simp add: cas_inv_def word_le_nat_alt)
qed

lemma cas_inv_budget: "cas_inv c s \<Longrightarrow> hot s \<le> global_hot_budget_bytes c"
  by (simp add: cas_inv_def)

lemma cas_step_inv: "cas_step c s s' \<Longrightarrow> cas_inv c s \<Longrightarrow> cas_inv c s'"
proof (induction rule: cas_step.induct)
  case (exchange i s sz cur nxt)
  with cas_target_Some show ?case by (intro cas_inv_set_slot) fastforce+
next
  case (release i s sz)
  then have "sz \<le> hot s" by (blast intro: cas_inv_hot_ge)
  then have "unat (hot s - sz) + unat sz = unat (hot s)" by (simp add: unat_sub word_le_nat_alt)
  with release show ?case
    by (intro cas_inv_set_slot) (auto simp: cas_inv_def word_le_nat_alt)
qed (auto intro!: cas_inv_set_slot intro: cas_inv_budget)

lemma cas_reachable_inv: "(cas_step c)\<^sup>*\<^sup>* s s' \<Longrightarrow> cas_inv c s \<Longrightarrow> cas_inv c s'"
  by (induction rule: rtranclp_induct) (auto intro: cas_step_inv)

text \<open>A caller that nobody disturbs takes one round, and that round is \<open>try_inline_reserve\<close>.\<close>

definition solo_outcome :: "nat \<Rightarrow> u64 \<Rightarrow> bool \<Rightarrow> u64 \<Rightarrow> cas_state \<Rightarrow> cas_state" where
  "solo_outcome i sz won n s = set_slot i (if won then Holding sz else Idle) n s"

lemma set_slot_sel [simp]:
  "hot (set_slot i x n s) = n" "length (slots (set_slot i x n s)) = length (slots s)"
  "i < length (slots s) \<Longrightarrow> slots (set_slot i x n s) ! i = x"
  "set_slot i y m (set_slot i x n s) = set_slot i y m s"
  by (simp_all add: set_slot_def)

lemma solo_trying:
  assumes "i < length (slots s)" "slots s ! i = Trying sz"
  shows "(cas_step c)\<^sup>*\<^sup>* s (case cas_target c (hot s) sz of
      None \<Rightarrow> solo_outcome i sz False (hot s) s | Some nxt \<Rightarrow> solo_outcome i sz True nxt s)"
proof -
  let ?l = "set_slot i (Loaded sz (hot s)) (hot s) s"
  have l: "cas_step c s ?l" by (rule cas_step.load [OF assms])
  show ?thesis
  proof (cases "cas_target c (hot s) sz")
    case None
    with assms have "cas_step c ?l (set_slot i Idle (hot ?l) ?l)"
      by (intro cas_step.give_up [of _ _ sz "hot s"]) simp_all
    with l None show ?thesis by (simp add: solo_outcome_def)
  next
    case (Some nxt)
    with assms have "cas_step c ?l (set_slot i (Holding sz) nxt ?l)"
      by (intro cas_step.exchange [of _ _ sz "hot s"]) simp_all
    with l Some show ?thesis by (simp add: solo_outcome_def)
  qed
qed

lemma solo_run:
  assumes "i < length (slots s)" "slots s ! i = Idle" "hot s = global_hot_bytes r"
    and "try_inline_reserve sz r = (won, r')" and "size_admitted (cfg r) sz"
  shows "(cas_step (cfg r))\<^sup>*\<^sup>* s (solo_outcome i sz won (global_hot_bytes r') s)"
proof -
  let ?t = "set_slot i (Trying sz) (hot s) s"
  have e: "cas_step (cfg r) s ?t" by (rule cas_step.enter [OF assms(1,2,5)])
  have "solo_outcome i sz won (global_hot_bytes r') s =
    (case cas_target (cfg r) (hot ?t) sz of
       None \<Rightarrow> solo_outcome i sz False (hot ?t) ?t | Some nxt \<Rightarrow> solo_outcome i sz True nxt ?t)"
    using assms(3-5)
    by (auto simp: try_inline_reserve_def size_admitted_def cas_target_def solo_outcome_def
      split: if_splits option.splits)
  with solo_trying [of i ?t sz "cfg r"] assms(1) e show ?thesis by simp
qed

section \<open>Runs of the runtime\<close>

text \<open>A client's calls in any order; a remove names a handle some earlier store returned.\<close>

datatype blob_op =
    OpStore bytes string
  | OpShared bytes string
  | OpExternal bytes string
  | OpStream "(string + bytes) list" string
  | OpRemove blob_handle

fun run_op :: "blob_op \<Rightarrow> runtime \<Rightarrow> runtime" where
  "run_op (OpStore b m) s = snd (store_bytes b m s)"
| "run_op (OpShared b m) s = snd (store_shared_bytes b m s)"
| "run_op (OpExternal b m) s = snd (store_external_shared_bytes b m s)"
| "run_op (OpStream r m) s = snd (store_stream r m s)"
| "run_op (OpRemove h) s = (if h < length (heap s) then snd (remove h s) else s)"

fun op_fits :: "blob_op \<Rightarrow> bool" where
  "op_fits (OpStore b m) = fits b"
| "op_fits (OpShared b m) = fits b"
| "op_fits (OpExternal b m) = fits b"
| "op_fits (OpStream r m) = (case stream_bytes r of None \<Rightarrow> True | Some d \<Rightarrow> fits d)"
| "op_fits (OpRemove h) = True"

lemma store_stream_inv:
  assumes inv: "blob_inv s" and nid: "next_id_ctr s \<noteq> - 1"
    and fit: "\<And>d. stream_bytes reader = Some d \<Longrightarrow> fits d"
    and res: "store_stream reader mime s = (r, s')"
  shows "blob_inv s'"
proof (cases r)
  case (Inr h)
  with store_stream_Ok [OF inv nid, of reader mime h s'] fit res show ?thesis by auto
next
  case (Inl e)
  obtain i s1 where n: "next_id s = (i, s1)" by (cases "next_id s")
  note s1 = blob_inv_next_id [OF inv n nid]
  let ?lim = "unat (min (inline_max_bytes (cfg s)) (request_hot_budget_bytes (cfg s)))"
  obtain q s2 where l: "stream_loop ?lim (spill_path s1 i) reader [] False s1 = (q, s2)"
    by (cases "stream_loop ?lim (spill_path s1 i) reader [] False s1")
  have "blob_inv s2"
    using blob_inv_files(1) [OF s1(1) _ stream_loop_touches [OF l]] s1(2) by (simp add: fresh_id_def)
  moreover have "s' = s2"
    using res Inl n l by (auto simp: store_stream_def Let_def dest: store_reserved_Err
      split: sum.splits prod.splits bool.splits option.splits)
  ultimately show ?thesis by simp
qed

lemma store_reserved_ctr: "store_reserved i b m s = (r, s') \<Longrightarrow> next_id_ctr s' = next_id_ctr s"
  by (auto simp: store_reserved_def Let_def build_handle_eq
    dest!: try_inline_reserve_True(1) try_inline_reserve_False write_spilled_bytes_Ok write_spilled_bytes_Err
    split: prod.splits bool.splits sum.splits if_splits)

lemma store_stream_ctr: "store_stream rd m s = (r, s') \<Longrightarrow> next_id_ctr s' = next_id_ctr s + 1"
proof -
  assume res: "store_stream rd m s = (r, s')"
  let ?lim = "unat (min (inline_max_bytes (cfg s)) (request_hot_budget_bytes (cfg s)))"
  let ?s1 = "s\<lparr>next_id_ctr := next_id_ctr s + 1\<rparr>"
  let ?p = "spill_path ?s1 (next_id_ctr s)"
  obtain q s2 where l: "stream_loop ?lim ?p rd [] False ?s1 = (q, s2)"
    by (cases "stream_loop ?lim ?p rd [] False ?s1")
  obtain f where "s2 = ?s1\<lparr>files := f\<rparr>"
    using stream_loop_touches [OF l] unfolding touches_only_def by blast
  then have "next_id_ctr s2 = next_id_ctr s + 1" by simp
  with res l show ?thesis
    by (auto simp: store_stream_def next_id_def Let_def build_handle_eq dest!: store_reserved_ctr
      split: sum.splits prod.splits bool.splits option.splits)
qed

lemma remove_ctr: "next_id_ctr (snd (remove h s)) = next_id_ctr s"
  by (simp add: remove_def Let_def release_inline_bytes_def split: blob_storage.splits option.splits)

lemma store_bytes_ctr: "next_id_ctr (snd (store_bytes b m s)) = next_id_ctr s + 1"
  by (cases "store_reserved (next_id_ctr s) b m (s\<lparr>next_id_ctr := next_id_ctr s + 1\<rparr>)")
    (auto simp: store_bytes_def next_id_def Let_def dest!: store_reserved_ctr)

lemma run_op_ctr: "next_id_ctr s \<noteq> - 1 \<Longrightarrow> unat (next_id_ctr (run_op op s)) \<le> unat (next_id_ctr s) + 1"
proof (cases op)
  case (OpStream rd m)
  assume "next_id_ctr s \<noteq> - 1"
  with OpStream store_stream_ctr [of rd m s] unat_succ show ?thesis
    by (cases "store_stream rd m s") simp
qed (simp_all add: store_shared_bytes_eq store_bytes_ctr remove_ctr unat_succ
  store_external_shared_bytes_def next_id_def build_handle_eq)

lemma run_op_inv:
  assumes "blob_inv s" "next_id_ctr s \<noteq> - 1" "op_fits op"
  shows "blob_inv (run_op op s)"
proof (cases op)
  case (OpStream rd m)
  with assms show ?thesis
    using store_stream_inv [of s rd m] by (cases "store_stream rd m s") (auto split: option.splits)
next
  case (OpRemove h)
  then show ?thesis
    using assms(1) remove_live(1) [of s h] remove_twice [of s h] by (cases "remove h s"; cases "removed (heap s ! h)") auto
next
  case (OpStore b m)
  with assms show ?thesis using owned.store_inv [OF _ _ prod.collapse [symmetric]] by (simp add: ready_def)
next
  case (OpShared b m)
  with assms show ?thesis using pooled.store_inv [OF _ _ prod.collapse [symmetric]] by (simp add: ready_def)
next
  case (OpExternal b m)
  with assms show ?thesis using external.store_inv [OF _ _ prod.collapse [symmetric]] by (simp add: ready_def)
qed

lemma run_ops_inv:
  assumes "blob_inv s" "unat (next_id_ctr s) + length ops < 2 ^ 64 - 1" "\<forall>op \<in> set ops. op_fits op"
  shows "blob_inv (fold run_op ops s)"
  using assms
proof (induction ops arbitrary: s)
  case (Cons op ops)
  then have "unat (next_id_ctr s) < 2 ^ 64 - 1" by simp
  then have n: "next_id_ctr s \<noteq> - 1" by (auto simp: unsigned_minus_1_eq_mask mask_eq_exp_minus_1)
  have "unat (next_id_ctr (run_op op s)) + length ops < 2 ^ 64 - 1"
    using run_op_ctr [OF n, of op] Cons.prems(2) by simp
  with Cons run_op_inv [OF Cons.prems(1) n] show ?case by simp
qed simp

section \<open>Storing succeeds when the file system does\<close>

lemma stream_loop_total:
  assumes "io_error s p = None" "stream_bytes rs = Some d"
  shows "\<exists>buf sp' s'. stream_loop limit p rs buffer sp s = (Ok (buf, sp'), s')"
  using assms
proof (induction rs arbitrary: d buffer sp s)
  case (Cons r rs)
  show ?case
  proof (cases r)
    case (Inr chunk)
    show ?thesis
    proof (cases "chunk = []")
      case False
      then obtain d' where "stream_bytes rs = Some d'" using Cons.prems Inr by auto
      note IH = Cons.IH [OF _ this]
      show ?thesis
        using False Inr Cons.prems(1) IH by (auto simp: append_file_def write_file_def)
    qed (simp add: Inr)
  qed (use Cons.prems in simp)
qed auto

lemma store_reserved_total:
  assumes "io_error s (spill_path s i) = None"
  shows "\<exists>h s'. store_reserved i b m s = (Ok h, s')"
  using assms try_inline_reserve_False [of "of_nat (length b)" s]
  by (cases "try_inline_reserve (of_nat (length b)) s" rule: prod.exhaust)
    (auto simp: store_reserved_def write_spilled_bytes_def write_file_def Let_def build_handle_eq
      split: bool.splits)

lemma store_stream_total:
  assumes "\<forall>p. io_error s p = None" "stream_bytes rd = Some d"
  shows "\<exists>h s'. store_stream rd m s = (Ok h, s')"
proof -
  let ?lim = "unat (min (inline_max_bytes (cfg s)) (request_hot_budget_bytes (cfg s)))"
  let ?s1 = "s\<lparr>next_id_ctr := next_id_ctr s + 1\<rparr>"
  let ?p = "spill_path ?s1 (next_id_ctr s)"
  obtain buf sp s2 where l: "stream_loop ?lim ?p rd [] False ?s1 = (Ok (buf, sp), s2)"
    using stream_loop_total [of ?s1 ?p rd d] assms by fastforce
  from stream_loop_Ok [OF l] have s2: "if sp then s2 = set_file ?p d ?s1 else buf = d \<and> s2 = ?s1"
    using assms(2) by auto
  have "\<exists>h s'. store_reserved (next_id_ctr s) d m ?s1 = (Ok h, s')"
    by (rule store_reserved_total) (simp add: assms)
  with l s2 show ?thesis
    by (cases sp) (auto simp: store_stream_def next_id_def Let_def build_handle_eq)
qed

lemma read_bytes_no_io:
  assumes "blob_contents s h = Some b" "\<forall>p. io_error s p = None"
  shows "read_bytes h s = Ok b"
  using read_bytes_contents [OF assms(1)] assms(2) by auto

section \<open>Properties\<close>

text \<open>
  C8: Under every interleaving of callers of \<open>try_inline_reserve\<close> and
  \<open>release_inline_bytes\<close>, started with an empty counter and idle callers, the counter equals
  the bytes currently reserved and never exceeds the global budget; no wrap-around occurs.
\<close>

theorem cas_budget_safe:
  assumes "(cas_step c)\<^sup>*\<^sup>* \<lparr>hot = 0, slots = replicate n Idle\<rparr> s"
  shows "unat (hot s) = sum_list (map held (slots s)) \<and> hot s \<le> global_hot_budget_bytes c"
proof -
  have "sum_list (map held (replicate n Idle)) = 0" by (induction n) simp_all
  then have "cas_inv c \<lparr>hot = 0, slots = replicate n Idle\<rparr>" by (simp add: cas_inv_def)
  from cas_reachable_inv [OF assms this] show ?thesis by (simp add: cas_inv_def)
qed

definition demo_config :: blob_runtime_config where
  "demo_config = \<lparr>inline_max_bytes = 4, request_hot_budget_bytes = 8, global_hot_budget_bytes = 6, spill_dir = ''/s''\<rparr>"

theorem cas_budget_safe_witness:
  "(cas_step demo_config)\<^sup>*\<^sup>* \<lparr>hot = 0, slots = replicate 2 Idle\<rparr> \<lparr>hot = 3, slots = [Holding 3, Idle]\<rparr>
   \<and> unat (3 :: u64) = sum_list (map held [Holding 3, Idle]) \<and> 3 \<le> global_hot_budget_bytes demo_config"
proof -
  let ?r = "runtime_new demo_config Map.empty Map.empty"
  let ?s = "\<lparr>hot = 0, slots = replicate 2 Idle\<rparr> :: cas_state"
  have t: "try_inline_reserve 3 ?r = (True, ?r\<lparr>global_hot_bytes := 3\<rparr>)"
    by (simp add: try_inline_reserve_def runtime_new_def demo_config_def checked_add_def)
  have "(cas_step (cfg ?r))\<^sup>*\<^sup>* ?s (solo_outcome 0 3 True (global_hot_bytes (?r\<lparr>global_hot_bytes := 3\<rparr>)) ?s)"
    by (rule solo_run [OF _ _ _ t]) (simp_all add: runtime_new_def size_admitted_def demo_config_def)
  then have reach: "(cas_step demo_config)\<^sup>*\<^sup>* ?s \<lparr>hot = 3, slots = [Holding 3, Idle]\<rparr>"
    by (simp add: runtime_new_def solo_outcome_def set_slot_def numeral_2_eq_2)
  from cas_budget_safe [OF this] reach show ?thesis by simp
qed

text \<open>
  After any sequence of stores (owned, pooled, external or streamed) and removals on a
  fresh runtime, the hot counter is exactly the total length of the live inline blobs and
  does not exceed the configured global budget.  Fewer than \<open>2 ^ 64 - 2\<close> calls keep the
  identifier counter from wrapping.
\<close>

theorem hot_bytes_exact:
  assumes "length ops < 2 ^ 64 - 2" "\<forall>op \<in> set ops. op_fits op"
  shows "let s = fold run_op ops (runtime_new c fs io)
    in unat (global_hot_bytes s) = hot_sum s
     \<and> global_hot_bytes s \<le> global_hot_budget_bytes (cfg s)"
proof -
  have "blob_inv (fold run_op ops (runtime_new c fs io))"
    by (rule run_ops_inv [OF blob_inv_new]) (use assms in \<open>simp_all add: runtime_new_def\<close>)
  then show ?thesis by (simp add: blob_inv_def Let_def)
qed

theorem hot_bytes_exact_witness:
  "let s = fold run_op [OpStore ''abc'' ''m'', OpStore ''defg'' ''m'', OpRemove 0]
             (runtime_new demo_config Map.empty Map.empty)
   in unat (global_hot_bytes s) = hot_sum s \<and> global_hot_bytes s \<le> global_hot_budget_bytes (cfg s)"
  using hot_bytes_exact [of "[OpStore ''abc'' ''m'', OpStore ''defg'' ''m'', OpRemove 0]"]
  by (simp add: fits_def)

text \<open>
  A stream whose reads deliver the bytes \<open>d\<close>, however they are cut into reads, is stored
  under a fresh handle, is read back as exactly \<open>d\<close>, and leaves every other blob unchanged,
  whether it stays in memory or spills half-way.
\<close>

theorem store_stream_roundtrip:
  assumes "blob_inv s" "ready d s" "\<forall>p. io_error s p = None" "stream_bytes reader = Some d"
  shows "\<exists>h s'. store_stream reader mime s = (Ok h, s') \<and> read_bytes h s' = Ok d \<and> blob_inv s'
    \<and> blob_contents s h = None \<and> blob_contents s' = (blob_contents s)(h \<mapsto> d)"
proof -
  obtain h s' where st: "store_stream reader mime s = (Ok h, s')"
    using store_stream_total [OF assms(3,4)] by blast
  have s': "blob_inv s'" "h = length (heap s)" "blob_contents s' = (blob_contents s)(h \<mapsto> d)" "same_env s s'"
    using store_stream_Ok [OF assms(1) _ st] assms(2,4) by (auto simp: ready_def)
  then have "read_bytes h s' = Ok d"
    by (intro read_bytes_no_io) (simp_all add: assms(3) same_env_def)
  with st s' blob_contents_fresh show ?thesis by blast
qed

definition demo_runtime :: runtime where
  "demo_runtime = runtime_new demo_config Map.empty Map.empty"

lemma demo_runtime_ready: "blob_inv demo_runtime" "fits b \<Longrightarrow> ready b demo_runtime" "io_error demo_runtime = Map.empty"
  using blob_inv_new by (simp_all add: demo_runtime_def runtime_new_def ready_def)

theorem store_stream_roundtrip_witness:
  "\<exists>h s'. store_stream [Inr ''abc'', Inr ''defg''] ''m'' demo_runtime = (Ok h, s')
     \<and> read_bytes h s' = Ok ''abcdefg''"
  using store_stream_roundtrip [of demo_runtime "''abcdefg''" "[Inr ''abc'', Inr ''defg'']" "''m''"]
    demo_runtime_ready by (auto simp: fits_def)

text \<open>
  A removal through any clone of a handle releases the blob's hot bytes exactly once:
  the counter drops by the blob's inline length, every other blob is unchanged, and a second
  removal through another clone does nothing.
\<close>

theorem remove_exactly_once:
  assumes "blob_inv s" "h < length (heap s)" "\<not> removed (heap s ! h)" "remove h s = (r, s')"
  shows "unat (global_hot_bytes s') + live_inline (heap s ! h) = unat (global_hot_bytes s)
    \<and> blob_inv s' \<and> blob_contents s' = (blob_contents s)(h := None) \<and> remove h s' = (Ok (), s')"
  using remove_live [OF assms] remove_marks [OF assms(2,4)] remove_twice by blast

theorem remove_exactly_once_witness:
  "let s = snd (store_bytes ''abc'' ''m'' demo_runtime)
   in blob_inv s \<and> unat (global_hot_bytes s) = 3 \<and> unat (global_hot_bytes (snd (remove 0 s))) = 0"
proof -
  let ?s = "snd (store_bytes ''abc'' ''m'' demo_runtime)"
  have s: "heap ?s = [\<lparr>blob_id = 1, meta = \<lparr>blob_mime_type = ''m'', size_bytes = 3\<rparr>, storage = Inline ''abc'', removed = False\<rparr>]"
    "global_hot_bytes ?s = 3"
    by (simp_all add: runtime_op_defs Let_def demo_runtime_def runtime_new_def demo_config_def checked_add_def)
  have i: "blob_inv ?s" using demo_runtime_ready owned.store_inv [OF _ _ prod.collapse [symmetric]]
    by (simp add: fits_def)
  from remove_exactly_once [OF i _ _ prod.collapse [symmetric], of 0] s i show ?thesis
    by (simp add: Let_def)
qed

end
