(* ===== verification/Request_Encode.thy ===== *)
theory Request_Encode
  imports Json_Text Base64_Engine Blob_Runtime
begin

text \<open>
  Encoding of the upstream request (rust-sync-proxy/src/request_encode.rs): the request
  document is written as compact JSON, with the objects named by the replacements written
  as \<open>{"mimeType":..,"data":"<base64>"}\<close> straight from their blobs, through a pipe into a new
  blob, while the bytes are counted.

  The writer returns an error or the sink: what went into the pipe, and the 64-bit counter.
  The record \<open>encode_env\<close> holds what the code gets from elsewhere: the serialiser, the
  base64 engine, whether the pipe's reader is still there after so many bytes, and how
  readers cut their bytes into reads.  The blob task that drains the pipe only creates its
  own new blob, so the blobs read while writing are those of the state at the start.

  Shown here: the body that is stored is exactly the compact serialisation of the patched
  document, and the content length is its length, whatever the read sizes.
\<close>

section \<open>The writer\<close>

record request_replacement =
  repl_pointer :: string
  repl_mime :: string
  repl_blob :: blob_handle

record encoded_request_body =
  body_blob :: blob_handle
  content_length :: u64

record sink =
  out :: bytes
  counted :: u64

record encode_env =
  ser :: "json \<Rightarrow> bytes"
  b64 :: "bytes \<Rightarrow> bytes"
  pipe_open :: "nat \<Rightarrow> bool"
  reads :: "bytes \<Rightarrow> (string + bytes) list"
  replacement :: "string \<Rightarrow> request_replacement option"
  store :: runtime

definition CHUNK_BYTES :: nat where
  "CHUNK_BYTES = 48 * 1024"

definition output_len :: nat where
  "output_len = (CHUNK_BYTES + 2 + 2) div 3 * 4"

definition write_counted :: "encode_env \<Rightarrow> bytes \<Rightarrow> sink \<Rightarrow> anyhow + sink" where
  "write_counted env b k =
     (if pipe_open env (length (out k) + length b)
      then Ok \<lparr>out = out k @ b, counted = counted k + of_nat (length b)\<rparr>
      else Err (Message ''broken pipe''))"

definition encode_slice :: "encode_env \<Rightarrow> bytes \<Rightarrow> nat \<Rightarrow> anyhow + bytes" where
  "encode_slice env b cap =
     (if length (b64 env b) \<le> cap then Ok (b64 env b) else Err (Message ''Output slice is too small''))"

definition write_base64_bytes :: "encode_env \<Rightarrow> bytes \<Rightarrow> sink \<Rightarrow> anyhow + sink" where
  "write_base64_bytes env b k =
     (if b = [] then Ok k
      else and_then (encode_slice env b ((length b + 2) div 3 * 4)) (\<lambda>t. write_counted env t k))"

fun base64_loop :: "encode_env \<Rightarrow> (string + bytes) list \<Rightarrow> bytes \<Rightarrow> sink \<Rightarrow> anyhow + bytes \<times> sink" where
  "base64_loop env [] carry k = Ok (carry, k)"
| "base64_loop env (Inl t # rs) carry k = Err (Message t)"
| "base64_loop env (Inr chunk # rs) carry k =
     (if chunk = [] then Ok (carry, k)
      else
        (let total = carry @ chunk; complete_len = length total div 3 * 3
         in if complete_len = 0 then base64_loop env rs total k
            else and_then (encode_slice env (take complete_len total) output_len) (\<lambda>t.
                 and_then (write_counted env t k) (\<lambda>k'.
                 base64_loop env rs (drop complete_len total) k'))))"

definition write_blob_as_base64 :: "encode_env \<Rightarrow> blob_handle \<Rightarrow> sink \<Rightarrow> anyhow + sink" where
  "write_blob_as_base64 env h k =
     (case storage (heap (store env) ! h) of
        Inline b \<Rightarrow> write_base64_bytes env b k
      | _ \<Rightarrow>
          and_then (open_reader h (store env)) (\<lambda>content.
          and_then (base64_loop env (reads env content) [] k) (\<lambda>(carry, k').
          if carry = [] then Ok k'
          else and_then (encode_slice env carry output_len) (\<lambda>t. write_counted env t k'))))"

fun write_all :: "encode_env \<Rightarrow> bytes list \<Rightarrow> sink \<Rightarrow> anyhow + sink" where
  "write_all env [] k = Ok k"
| "write_all env (b # bs) k = and_then (write_counted env b k) (write_all env bs)"

definition write_replacement :: "encode_env \<Rightarrow> request_replacement \<Rightarrow> sink \<Rightarrow> anyhow + sink" where
  "write_replacement env r k =
     and_then (write_all env [''{'', ser env (JString ''mimeType''), '':'', ser env (JString (repl_mime r)),
                              '','', ser env (JString ''data''), '':'' @ [CHR 0x22]] k) (\<lambda>k1.
     and_then (write_blob_as_base64 env (repl_blob r) k1) (\<lambda>k2.
     write_counted env (CHR 0x22 # ''}'') k2))"

fun write_json_value :: "encode_env \<Rightarrow> string \<Rightarrow> json \<Rightarrow> sink \<Rightarrow> anyhow + sink"
  and write_fields :: "encode_env \<Rightarrow> string \<Rightarrow> fields \<Rightarrow> bool \<Rightarrow> sink \<Rightarrow> anyhow + sink"
  and write_items :: "encode_env \<Rightarrow> string \<Rightarrow> json list \<Rightarrow> nat \<Rightarrow> sink \<Rightarrow> anyhow + sink" where
  "write_json_value env path value k =
     (case replacement env path of
        Some r \<Rightarrow> write_replacement env r k
      | None \<Rightarrow>
          (case value of
             JObject m \<Rightarrow>
               and_then (write_counted env ''{'' k) (\<lambda>k1.
               and_then (write_fields env path m True k1) (\<lambda>k2.
               write_counted env ''}'' k2))
           | JArray xs \<Rightarrow>
               and_then (write_counted env ''['' k) (\<lambda>k1.
               and_then (write_items env path xs 0 k1) (\<lambda>k2.
               write_counted env '']'' k2))
           | _ \<Rightarrow> write_counted env (ser env value) k))"
| "write_fields env path [] first k = Ok k"
| "write_fields env path ((key, child) # m) first k =
     and_then (if first then Ok k else write_counted env '','' k) (\<lambda>k1.
     and_then (write_counted env (ser env (JString key)) k1) (\<lambda>k2.
     and_then (write_counted env '':'' k2) (\<lambda>k3.
     and_then (write_json_value env (path @ ''/'' @ escape_json_pointer_token key) child k3) (\<lambda>k4.
     write_fields env path m False k4))))"
| "write_items env path [] index k = Ok k"
| "write_items env path (child # xs) index k =
     and_then (if index > 0 then write_counted env '','' k else Ok k) (\<lambda>k1.
     and_then (write_json_value env (path @ ''/'' @ show_nat index) child k1) (\<lambda>k2.
     write_items env path xs (index + 1) k2))"

section \<open>The request document\<close>

definition remove_output :: "json \<Rightarrow> json" where
  "remove_output v = (case v of JObject m \<Rightarrow> JObject (map_remove ''output'' m) | _ \<Rightarrow> v)"

definition strip_output_from_value :: "json \<Rightarrow> json" where
  "strip_output_from_value body =
     pointer_modify ''/generation_config/image_config'' remove_output
       (pointer_modify ''/generationConfig/imageConfig'' remove_output
          (remove_output body))"

text \<open>\<open>collect::<HashMap>\<close>: a later replacement for the same pointer wins.\<close>

definition replacement_map :: "request_replacement list \<Rightarrow> string \<Rightarrow> request_replacement option" where
  "replacement_map rs = map_of (rev (map (\<lambda>r. (repl_pointer r, r)) rs))"

text \<open>
  \<open>pipe_reads\<close> is how the blob task reads the pipe; \<open>aborted\<close> is what the blob task had done
  when it was aborted after a failed write.
\<close>

definition encode_request_body :: "encode_env \<Rightarrow> (bytes \<Rightarrow> (string + bytes) list) \<Rightarrow> (runtime \<Rightarrow> runtime)
    \<Rightarrow> json \<Rightarrow> request_replacement list \<Rightarrow> runtime \<Rightarrow> (anyhow + encoded_request_body) \<times> runtime" where
  "encode_request_body env pipe_reads aborted request replacements s =
     (let request' = strip_output_from_value request;
          env' = env\<lparr>replacement := replacement_map replacements, store := s\<rparr>
      in case write_json_value env' [] request' \<lparr>out = [], counted = 0\<rparr> of
           Inl e \<Rightarrow> (Err e, aborted s)
         | Inr k \<Rightarrow>
             (case store_stream (pipe_reads (out k)) ''application/json'' s of
                (Inl e, s') \<Rightarrow> (Err e, s')
              | (Inr h, s') \<Rightarrow> (Ok \<lparr>body_blob = h, content_length = counted k\<rparr>, s')))"

declare write_json_value.simps [simp del]

section \<open>What the writer emits\<close>

definition push :: "sink \<Rightarrow> bytes \<Rightarrow> sink" where
  "push k b = \<lparr>out = out k @ b, counted = counted k + of_nat (length b)\<rparr>"

lemma push_simps [simp]:
  "out (push k b) = out k @ b" "counted (push k b) = counted k + of_nat (length b)"
  "push k [] = k" "push (push k a) b = push k (a @ b)"
  by (simp_all add: push_def)

definition fair_reads :: "nat \<Rightarrow> (bytes \<Rightarrow> (string + bytes) list) \<Rightarrow> bool" where
  "fair_reads limit f \<longleftrightarrow>
     (\<forall>b. \<exists>cs. f b = map Inr cs \<and> concat cs = b \<and> (\<forall>c \<in> set cs. c \<noteq> [] \<and> length c \<le> limit))"

lemma stream_bytes_map: "\<forall>c \<in> set cs. c \<noteq> [] \<Longrightarrow> stream_bytes (map Inr cs) = Some (concat cs)"
  by (induction cs) auto

lemma fair_reads_stream_bytes: "fair_reads n f \<Longrightarrow> stream_bytes (f b) = Some b"
proof -
  assume "fair_reads n f"
  then obtain cs where "f b = map Inr cs" "concat cs = b" "\<forall>c \<in> set cs. c \<noteq> []"
    unfolding fair_reads_def by metis
  then show ?thesis by (simp add: stream_bytes_map)
qed

text \<open>The object that stands for an image, and the document with the replacements made.\<close>

definition image_value :: "(bytes \<Rightarrow> bytes) \<Rightarrow> string \<Rightarrow> bytes \<Rightarrow> json" where
  "image_value enc mime b = JObject [(''mimeType'', JString mime), (''data'', JString (enc b))]"

fun patch :: "(string \<Rightarrow> json option) \<Rightarrow> string \<Rightarrow> json \<Rightarrow> json"
  and patch_fields :: "(string \<Rightarrow> json option) \<Rightarrow> string \<Rightarrow> fields \<Rightarrow> fields"
  and patch_items :: "(string \<Rightarrow> json option) \<Rightarrow> string \<Rightarrow> json list \<Rightarrow> nat \<Rightarrow> json list" where
  "patch R path v =
     (case R path of
        Some w \<Rightarrow> w
      | None \<Rightarrow>
          (case v of
             JObject m \<Rightarrow> JObject (patch_fields R path m)
           | JArray xs \<Rightarrow> JArray (patch_items R path xs 0)
           | _ \<Rightarrow> v))"
| "patch_fields R path [] = []"
| "patch_fields R path ((k, v) # m) =
     (k, patch R (path @ ''/'' @ escape_json_pointer_token k) v) # patch_fields R path m"
| "patch_items R path [] i = []"
| "patch_items R path (v # xs) i = patch R (path @ ''/'' @ show_nat i) v # patch_items R path xs (i + 1)"

declare patch.simps [simp del]

lemma alphabet_plain: "set t \<subseteq> insert (CHR ''='') (set b64_alphabet) \<Longrightarrow> list_all plain_char t"
proof -
  have "list_all plain_char (CHR ''='' # b64_alphabet)" by code_simp
  then show "set t \<subseteq> insert (CHR ''='') (set b64_alphabet) \<Longrightarrow> list_all plain_char t"
    unfolding list_all_iff by auto
qed

lemma plain_keys: "list_all plain_char ''mimeType''" "list_all plain_char ''data''"
  by code_simp+

definition tail_text :: "string list \<Rightarrow> bool \<Rightarrow> string" where
  "tail_text ts first = (if first \<or> ts = [] then comma_sep ts else '','' @ comma_sep ts)"

lemma tail_text_Cons: "tail_text (t # ts) first = (if first then [] else '','') @ t @ tail_text ts False"
  by (cases ts) (simp_all add: tail_text_def)

lemma tail_text_simps [simp]: "tail_text [] first = []" "tail_text ts True = comma_sep ts"
  by (simp_all add: tail_text_def)

definition patched_at :: "encode_env \<Rightarrow> string \<Rightarrow> json option" where
  "patched_at env p = map_option (\<lambda>r. image_value (b64 env) (repl_mime r) (the (blob_contents (store env) (repl_blob r))))
     (replacement env p)"

text \<open>A writer whose pipe stays open, over a lawful serialiser and engine.\<close>

locale json_writer = json_compact "ser env" + base64_engine "b64 env" dec
  for env :: encode_env and dec :: "bytes \<Rightarrow> bytes option" +
  assumes pipe: "pipe_open env n"
    and readers: "fair_reads CHUNK_BYTES (reads env)"
begin

lemma write_counted_push [simp]: "write_counted env b k = Ok (push k b)"
  by (simp add: write_counted_def push_def pipe)

lemma write_all_push [simp]: "write_all env bs k = Ok (push k (concat bs))"
  by (induction bs arbitrary: k) simp_all

lemma encode_slice_fits: "length b \<le> CHUNK_BYTES + 2 \<Longrightarrow> encode_slice env b output_len = Ok (b64 env b)"
proof -
  assume "length b \<le> CHUNK_BYTES + 2"
  then have "(length b + 2) div 3 \<le> (CHUNK_BYTES + 2 + 2) div 3" by (intro div_le_mono) simp
  then show ?thesis by (simp add: encode_slice_def enc_len output_len_def)
qed

lemma write_base64_bytes_push: "write_base64_bytes env b k = Ok (push k (b64 env b))"
  by (simp add: write_base64_bytes_def encode_slice_def enc_len)

lemma base64_loop_push:
  assumes "\<forall>c \<in> set cs. c \<noteq> [] \<and> length c \<le> CHUNK_BYTES" "length carry \<le> 2"
  shows "\<exists>carry' t. base64_loop env (map Inr cs) carry k = Ok (carry', push k t)
    \<and> t @ b64 env carry' = b64 env (carry @ concat cs) \<and> length carry' \<le> 2"
  using assms
proof (induction cs arbitrary: carry k)
  case Nil
  then show ?case by (intro exI [of _ carry] exI [of _ "[]"]) simp
next
  case (Cons c cs)
  let ?total = "carry @ c"
  let ?n = "length ?total div 3"
  have c: "c \<noteq> []" "length c \<le> CHUNK_BYTES" using Cons.prems by simp_all
  show ?case
  proof (cases "?n = 0")
    case True
    then have "length ?total \<le> 2" by simp
    with Cons.IH [of ?total k] Cons.prems(1) c True show ?thesis by auto
  next
    case False
    let ?done = "take (3 * ?n) ?total" and ?rest = "drop (3 * ?n) ?total"
    have "length ?done \<le> CHUNK_BYTES + 2" using c Cons.prems(2) by simp
    then have es: "encode_slice env ?done output_len = Ok (b64 env ?done)" by (rule encode_slice_fits)
    have "length ?rest \<le> 2" by simp
    from Cons.IH [OF _ this, of "push k (b64 env ?done)"] Cons.prems(1)
    obtain carry' t where IH: "base64_loop env (map Inr cs) ?rest (push k (b64 env ?done))
        = Ok (carry', push (push k (b64 env ?done)) t)"
      "t @ b64 env carry' = b64 env (?rest @ concat cs)" "length carry' \<le> 2"
      by auto
    have split: "b64 env (?total @ concat cs) = b64 env ?done @ b64 env (?rest @ concat cs)"
      using enc_groups [of ?done "?rest @ concat cs"] by (simp del: take_append drop_append flip: append_assoc)
    have step: "base64_loop env (map Inr (c # cs)) carry k
        = base64_loop env (map Inr cs) ?rest (push k (b64 env ?done))"
      using False c es by (simp add: Let_def mult.commute del: take_append drop_append)
    from IH split step show ?thesis
      by (intro exI [of _ carry'] exI [of _ "b64 env ?done @ t"]) simp
  qed
qed

lemma write_blob_push:
  assumes "blob_contents (store env) h = Some b" "read_bytes h (store env) = Ok b"
  shows "write_blob_as_base64 env h k = Ok (push k (b64 env b))"
proof (cases "\<exists>x. storage (heap (store env) ! h) = Inline x")
  case True
  then show ?thesis
    using assms by (auto simp: write_blob_as_base64_def write_base64_bytes_push read_bytes_def read_storage_def)
next
  case False
  obtain cs where cs: "reads env b = map Inr cs" "concat cs = b" "\<forall>c \<in> set cs. c \<noteq> [] \<and> length c \<le> CHUNK_BYTES"
    using readers unfolding fair_reads_def by blast
  obtain carry t where l: "base64_loop env (reads env b) [] k = Ok (carry, push k t)"
    "t @ b64 env carry = b64 env b" "length carry \<le> 2"
    using base64_loop_push [OF cs(3), of "[]" k] cs(1,2) by auto
  have "open_reader h (store env) = Ok b" using assms(2) by (simp add: open_reader_def read_bytes_def)
  moreover have "encode_slice env carry output_len = Ok (b64 env carry)"
    using l(3) by (intro encode_slice_fits) simp
  ultimately have "(case storage (heap (store env) ! h) of
        Inline b \<Rightarrow> write_base64_bytes env b k
      | _ \<Rightarrow> and_then (open_reader h (store env)) (\<lambda>content.
          and_then (base64_loop env (reads env content) [] k) (\<lambda>(carry, k').
          if carry = [] then Ok k'
          else and_then (encode_slice env carry output_len) (\<lambda>t. write_counted env t k'))))
      = Ok (push k (b64 env b))"
    using False l by (cases "carry = []") (auto split: blob_storage.splits)
  then show ?thesis by (simp add: write_blob_as_base64_def)
qed

lemma ser_image_value:
  "ser env (image_value (b64 env) mime b) =
     ''{'' @ ser env (JString ''mimeType'') @ '':'' @ ser env (JString mime) @ '','' @ ser env (JString ''data'')
     @ '':'' @ [CHR 0x22] @ b64 env b @ [CHR 0x22] @ ''}''"
  using ser_plain [OF alphabet_plain [OF enc_alphabet [of b]]]
  by (simp add: image_value_def ser_object quoted_def)

lemma write_replacement_push:
  assumes "blob_contents (store env) (repl_blob r) = Some b" "read_bytes (repl_blob r) (store env) = Ok b"
  shows "write_replacement env r k = Ok (push k (ser env (image_value (b64 env) (repl_mime r) b)))"
  using write_blob_push [OF assms] by (simp add: write_replacement_def ser_image_value)

definition readable :: bool where
  "readable \<longleftrightarrow> (\<forall>p r. replacement env p = Some r \<longrightarrow> (\<exists>b. blob_contents (store env) (repl_blob r) = Some b
      \<and> read_bytes (repl_blob r) (store env) = Ok b))"

lemma write_json_value_push:
  "readable \<Longrightarrow> write_json_value env path v k = Ok (push k (ser env (patch (patched_at env) path v)))"
  "readable \<Longrightarrow> write_fields env path m first k =
     Ok (push k (tail_text (map (\<lambda>(k, v). ser env (JString k) @ '':'' @ ser env v) (patch_fields (patched_at env) path m)) first))"
  "readable \<Longrightarrow> write_items env path xs i k =
     Ok (push k (tail_text (map (ser env) (patch_items (patched_at env) path xs i)) (i = 0)))"
proof (induction "patched_at env" path v and "patched_at env" path m and "patched_at env" path xs i
    arbitrary: k and first k and k rule: patch_patch_fields_patch_items.induct)
  case (1 path v)
  show ?case
  proof (cases "replacement env path")
    case (Some r)
    with 1 obtain b where "blob_contents (store env) (repl_blob r) = Some b" "read_bytes (repl_blob r) (store env) = Ok b"
      unfolding readable_def by blast
    with write_replacement_push [of r b k] Some show ?thesis
      by (simp add: write_json_value.simps patch.simps patched_at_def)
  next
    case None
    then show ?thesis using 1
      by (cases v) (simp_all add: write_json_value.simps patch.simps patched_at_def ser_object ser_array)
  qed
next
  case (3 path k v m)
  then show ?case by (simp add: tail_text_Cons)
next
  case (5 path v xs i)
  then show ?case by (simp add: tail_text_Cons)
qed simp_all

end

section \<open>The parameters of the code satisfy the writer's contract\<close>

fun cut :: "nat \<Rightarrow> bytes \<Rightarrow> bytes list" where
  "cut n [] = []"
| "cut n (c # b) = (c # take n b) # cut n (drop n b)"

lemma cut_props:
  "concat (cut n b) = b \<and> (\<forall>c \<in> set (cut n b). c \<noteq> [] \<and> length c \<le> Suc n)"
  by (induction n b rule: cut.induct) auto

lemma fair_cut: "Suc n \<le> m \<Longrightarrow> fair_reads m (\<lambda>b. map Inr (cut n b))"
  unfolding fair_reads_def using cut_props le_trans by blast

definition std_env :: "(u64 \<Rightarrow> string) \<Rightarrow> nat \<Rightarrow> (string \<Rightarrow> request_replacement option) \<Rightarrow> runtime \<Rightarrow> encode_env" where
  "std_env fl n R s =
     \<lparr>ser = json_text fl, b64 = rfc_encode, pipe_open = (\<lambda>_. True),
      reads = (\<lambda>b. map Inr (cut (min n (CHUNK_BYTES - 1)) b)), replacement = R, store = s\<rparr>"

interpretation writer: json_writer "std_env fl n R s" rfc_decode for fl n R s
proof (intro json_writer.intro json_writer_axioms.intro)
  show "json_compact (ser (std_env fl n R s))" by (simp add: std_env_def compact.json_compact_axioms)
  show "base64_engine (b64 (std_env fl n R s)) rfc_decode" by (simp add: std_env_def rfc.base64_engine_axioms)
  show "fair_reads CHUNK_BYTES (reads (std_env fl n R s))"
    unfolding std_env_def encode_env.select_convs by (rule fair_cut) (simp add: CHUNK_BYTES_def)
qed (simp add: std_env_def)

lemma json_writer_update:
  "json_writer env dec \<Longrightarrow> json_writer (env\<lparr>replacement := R, store := s\<rparr>) dec"
  by (simp add: json_writer_def json_writer_axioms_def)

text \<open>The document that is sent: output settings stripped, images in place of URLs.\<close>

definition image_at :: "(bytes \<Rightarrow> bytes) \<Rightarrow> request_replacement list \<Rightarrow> runtime \<Rightarrow> string \<Rightarrow> json option" where
  "image_at enc rs s p =
     map_option (\<lambda>r. image_value enc (repl_mime r) (the (blob_contents s (repl_blob r)))) (replacement_map rs p)"

definition sent_document :: "(bytes \<Rightarrow> bytes) \<Rightarrow> request_replacement list \<Rightarrow> runtime \<Rightarrow> json \<Rightarrow> json" where
  "sent_document enc rs s request = patch (image_at enc rs s) [] (strip_output_from_value request)"

lemma replacement_map_in: "replacement_map rs p = Some r \<Longrightarrow> r \<in> set rs \<and> repl_pointer r = p"
  by (auto simp: replacement_map_def dest!: map_of_SomeD)

lemma encode_write:
  assumes w: "json_writer env dec" and io: "\<forall>p. io_error s p = None"
    and live: "\<forall>r \<in> set rs. blob_contents s (repl_blob r) \<noteq> None"
  shows "write_json_value (env\<lparr>replacement := replacement_map rs, store := s\<rparr>) []
      (strip_output_from_value request) \<lparr>out = [], counted = 0\<rparr>
    = Ok \<lparr>out = ser env (sent_document (b64 env) rs s request),
          counted = of_nat (length (ser env (sent_document (b64 env) rs s request)))\<rparr>"
proof -
  let ?env = "env\<lparr>replacement := replacement_map rs, store := s\<rparr>"
  note w' = json_writer_update [OF w, where R = "replacement_map rs" and s = s]
  have at: "patched_at ?env = image_at (b64 env) rs s"
    by (simp add: fun_eq_iff patched_at_def image_at_def)
  have "json_writer.readable ?env"
    unfolding json_writer.readable_def [OF w']
    using live io read_bytes_no_io by (fastforce dest: replacement_map_in)
  from json_writer.write_json_value_push(1) [OF w' this, of "[]" "strip_output_from_value request" "\<lparr>out = [], counted = 0\<rparr>"]
  show ?thesis by (simp add: at push_def sent_document_def)
qed

lemma encode_request_body_Ok:
  assumes "json_writer env dec" "blob_inv s" "\<forall>p. io_error s p = None"
    and "\<forall>r \<in> set rs. blob_contents s (repl_blob r) \<noteq> None"
    and "fair_reads (16 * 1024) pipe_reads"
    and "body = ser env (sent_document (b64 env) rs s request)" "ready body s"
  shows "\<exists>h s'. encode_request_body env pipe_reads aborted request rs s
      = (Ok \<lparr>body_blob = h, content_length = of_nat (length body)\<rparr>, s')
    \<and> unat (of_nat (length body) :: u64) = length body
    \<and> read_bytes h s' = Ok body \<and> blob_contents s' = (blob_contents s)(h \<mapsto> body)
    \<and> blob_inv s' \<and> h = length (heap s) \<and> same_env s s'"
proof -
  have sb: "stream_bytes (pipe_reads body) = Some body" using assms(5) by (rule fair_reads_stream_bytes)
  obtain h s' where st: "store_stream (pipe_reads body) ''application/json'' s = (Ok h, s')"
    using store_stream_total [OF assms(3) sb] by blast
  have s': "blob_contents s' = (blob_contents s)(h \<mapsto> body)" "same_env s s'" "blob_inv s'" "h = length (heap s)"
    using store_stream_Ok [OF assms(2) _ st] assms(7) sb by (auto simp: ready_def)
  then have "read_bytes h s' = Ok body"
    by (intro read_bytes_no_io) (simp_all add: assms(3) same_env_def)
  with st s' encode_write [OF assms(1,3,4)] assms(6,7) show ?thesis
    by (simp add: encode_request_body_def Let_def fits_unat ready_def)
qed

section \<open>Properties\<close>

text \<open>
  C9: With every replacement blob live and no I/O errors, encoding stores a body that reads
  back as exactly the compact serialisation of the patched document, and the reported content
  length is the length of that body; neither depends on how the pipe and the blob readers cut
  their bytes into reads (in particular not on the two-byte base64 carry).
\<close>

theorem encode_request_body_correct:
  assumes "json_writer env dec" "blob_inv s" "\<forall>p. io_error s p = None"
    and "\<forall>r \<in> set rs. blob_contents s (repl_blob r) \<noteq> None"
    and "fair_reads (16 * 1024) pipe_reads"
    and "body = ser env (sent_document (b64 env) rs s request)" "ready body s"
  shows "\<exists>h s'. encode_request_body env pipe_reads aborted request rs s
      = (Ok \<lparr>body_blob = h, content_length = of_nat (length body)\<rparr>, s')
    \<and> unat (of_nat (length body) :: u64) = length body
    \<and> read_bytes h s' = Ok body \<and> blob_contents s' = (blob_contents s)(h \<mapsto> body)"
  using encode_request_body_Ok [OF assms] by blast

definition demo_image :: runtime where
  "demo_image = snd (store_bytes ''abcd'' ''image/png'' demo_runtime)"

lemma demo_image_facts:
  "blob_inv demo_image" "io_error demo_image = Map.empty" "blob_contents demo_image 0 = Some ''abcd''"
  "next_id_ctr demo_image = 2"
proof -
  show "blob_inv demo_image"
    using demo_runtime_ready owned.store_inv [OF _ _ prod.collapse [symmetric]]
    by (simp add: fits_def demo_image_def)
  show "io_error demo_image = Map.empty" "blob_contents demo_image 0 = Some ''abcd''" "next_id_ctr demo_image = 2"
    by (simp_all add: demo_image_def runtime_op_defs blob_contents_def Let_def demo_runtime_def runtime_new_def
      demo_config_def checked_add_def)
qed

theorem encode_request_body_witness:
  "\<exists>h s'. encode_request_body (std_env (\<lambda>_. []) 1 Map.empty demo_image) (\<lambda>b. map Inr (cut 2 b)) id
       (JObject [(''i'', JObject [(''data'', JString ''http://h/a'')])])
       [\<lparr>repl_pointer = ''/i'', repl_mime = ''image/png'', repl_blob = 0\<rparr>] demo_image
     = (Ok \<lparr>body_blob = h, content_length = 48\<rparr>, s')"
proof -
  let ?env = "std_env (\<lambda>_. []) 1 Map.empty demo_image"
  let ?req = "JObject [(''i'', JObject [(''data'', JString ''http://h/a'')])]"
  let ?rs = "[\<lparr>repl_pointer = ''/i'', repl_mime = ''image/png'', repl_blob = 0\<rparr>]"
  let ?body = "ser ?env (sent_document (b64 ?env) ?rs demo_image ?req)"
  have at: "image_at rfc_encode ?rs demo_image =
      (\<lambda>p. if p = ''/i'' then Some (image_value rfc_encode ''image/png'' ''abcd'') else None)"
    by (auto simp: fun_eq_iff image_at_def replacement_map_def demo_image_facts)
  have "ser ?env (patch (\<lambda>p. if p = ''/i'' then Some (image_value rfc_encode ''image/png'' ''abcd'') else None) []
      (strip_output_from_value ?req)) = json_text (\<lambda>_. []) (JObject [(''i'', image_value rfc_encode ''image/png'' ''abcd'')])"
    unfolding std_env_def encode_env.select_convs by code_simp
  moreover have "length (json_text (\<lambda>_. []) (JObject [(''i'', image_value rfc_encode ''image/png'' ''abcd'')])) = 48"
    by code_simp
  moreover have "b64 ?env = rfc_encode" by (simp add: std_env_def)
  ultimately have len: "length ?body = 48" by (simp add: sent_document_def at)
  have "fair_reads (16 * 1024) (\<lambda>b. map Inr (cut 2 b))" by (rule fair_cut) simp
  from encode_request_body_correct [where env = ?env and rs = ?rs and request = ?req and aborted = id,
      OF writer.json_writer_axioms demo_image_facts(1) _ _ this refl]
  show ?thesis using len demo_image_facts by (auto simp: ready_def fits_def)
qed

end
