(* ===== verification/Memory_Cache.thy ===== *)
theory Memory_Cache
  imports Proxy_Prelude
begin

text \<open>
  The in-memory image cache (\<open>MemoryCache\<close> in rust-sync-proxy/src/cache.rs): a byte-budgeted
  cache on top of the \<open>lru\<close> crate.  The crate is a parameter, the record \<open>lru_ops\<close> of the
  operations the code calls; the locale \<open>lru\<close> states its documented contract against the list
  of entries from most to least recently used, and is interpreted on that list itself.

  Shown here: the byte counter is exact and within the budget after any sequence of calls, a
  stored image is found again, the eviction loop ends, and what it keeps is the longest
  most-recently-used prefix that fits.
\<close>

section \<open>State and operations\<close>

record cached_inline_data =
  cached_mime :: string
  cached_bytes :: bytes

record memory_entry =
  entry_mime :: string
  entry_bytes :: bytes
  entry_size :: u64

record 'c lru_ops =
  lru_unbounded :: 'c
  lru_get :: "string \<Rightarrow> 'c \<Rightarrow> memory_entry option \<times> 'c"
  lru_put :: "string \<Rightarrow> memory_entry \<Rightarrow> 'c \<Rightarrow> 'c"
  lru_pop :: "string \<Rightarrow> 'c \<Rightarrow> memory_entry option \<times> 'c"
  lru_pop_lru :: "'c \<Rightarrow> (string \<times> memory_entry) option \<times> 'c"

record 'c memory_cache =
  items :: 'c
  max_bytes :: u64
  cur_bytes :: u64

definition memory_new :: "'c lru_ops \<Rightarrow> u64 \<Rightarrow> 'c memory_cache" where
  "memory_new L m = \<lparr>items = lru_unbounded L, max_bytes = m, cur_bytes = 0\<rparr>"

definition memory_get :: "'c lru_ops \<Rightarrow> string \<Rightarrow> 'c memory_cache \<Rightarrow> cached_inline_data option \<times> 'c memory_cache" where
  "memory_get L url c =
     (let (item, items') = lru_get L url (items c)
      in (map_option (\<lambda>e. \<lparr>cached_mime = entry_mime e, cached_bytes = entry_bytes e\<rparr>) item,
          c\<lparr>items := items'\<rparr>))"

text \<open>The eviction loop; \<open>None\<close> would be a loop that does not end.\<close>

partial_function (option) evict :: "'c lru_ops \<Rightarrow> u64 \<Rightarrow> 'c memory_cache \<Rightarrow> 'c memory_cache option" where
  [code]: "evict L sz c =
     (if cur_bytes c + sz > max_bytes c then
        (case lru_pop_lru L (items c) of
           (None, items') \<Rightarrow> Some (c\<lparr>items := items'\<rparr>)
         | (Some (k, e), items') \<Rightarrow>
             evict L sz (c\<lparr>items := items', cur_bytes := saturating_sub (cur_bytes c) (entry_size e)\<rparr>))
      else Some c)"

definition drop_previous :: "'c lru_ops \<Rightarrow> string \<Rightarrow> 'c memory_cache \<Rightarrow> 'c memory_cache" where
  "drop_previous L url c =
     (case lru_pop L url (items c) of
        (None, items') \<Rightarrow> c\<lparr>items := items'\<rparr>
      | (Some e, items') \<Rightarrow>
          c\<lparr>items := items', cur_bytes := saturating_sub (cur_bytes c) (entry_size e)\<rparr>)"

definition memory_set :: "'c lru_ops \<Rightarrow> string \<Rightarrow> cached_inline_data \<Rightarrow> 'c memory_cache \<Rightarrow> 'c memory_cache option" where
  "memory_set L url v c =
     (let sz = of_nat (length (cached_bytes v))
      in if sz > max_bytes c then Some c
         else map_option
           (\<lambda>c'. c'\<lparr>items := lru_put L url \<lparr>entry_mime = cached_mime v, entry_bytes = cached_bytes v, entry_size = sz\<rparr> (items c'),
                   cur_bytes := cur_bytes c' + sz\<rparr>)
           (evict L sz (drop_previous L url c)))"

section \<open>The contract of the LRU map\<close>

definition without :: "string \<Rightarrow> (string \<times> memory_entry) list \<Rightarrow> (string \<times> memory_entry) list" where
  "without k xs = filter (\<lambda>(k', _). k' \<noteq> k) xs"

locale lru =
  fixes L :: "'c lru_ops"
    and entries :: "'c \<Rightarrow> (string \<times> memory_entry) list"
  assumes distinct_keys: "distinct (map fst (entries c))"
    and unbounded_entries: "entries (lru_unbounded L) = []"
    and get_entries: "lru_get L k c = (x, c') \<Longrightarrow>
      x = map_of (entries c) k
      \<and> entries c' = (case x of None \<Rightarrow> entries c | Some e \<Rightarrow> (k, e) # without k (entries c))"
    and put_entries: "entries (lru_put L k e c) = (k, e) # without k (entries c)"
    and pop_entries: "lru_pop L k c = (x, c') \<Longrightarrow> x = map_of (entries c) k \<and> entries c' = without k (entries c)"
    and pop_lru_entries: "lru_pop_lru L c = (y, c') \<Longrightarrow>
      (if entries c = [] then y = None \<and> entries c' = []
       else y = Some (last (entries c)) \<and> entries c' = butlast (entries c))"

definition sizes :: "(string \<times> memory_entry) list \<Rightarrow> nat" where
  "sizes xs = sum_list (map (\<lambda>(_, e). unat (entry_size e)) xs)"

definition cache_ok :: "('c \<Rightarrow> (string \<times> memory_entry) list) \<Rightarrow> 'c memory_cache \<Rightarrow> bool" where
  "cache_ok ent c \<longleftrightarrow>
     unat (cur_bytes c) = sizes (ent (items c)) \<and> cur_bytes c \<le> max_bytes c \<and> unat (max_bytes c) < 2 ^ 63
   \<and> (\<forall>(k, e) \<in> set (ent (items c)). unat (entry_size e) = length (entry_bytes e))"

text \<open>The longest prefix whose sizes leave room for \<open>n\<close> more bytes under \<open>m\<close>.\<close>

fun fitting_prefix :: "nat \<Rightarrow> nat \<Rightarrow> (string \<times> memory_entry) list \<Rightarrow> (string \<times> memory_entry) list" where
  "fitting_prefix m n [] = []"
| "fitting_prefix m n (x # xs) =
     (if sizes [x] + n \<le> m then x # fitting_prefix m (sizes [x] + n) xs else [])"

lemma sizes_simps [simp]:
  "sizes [] = 0" "sizes (x # xs) = unat (entry_size (snd x)) + sizes xs" "sizes (xs @ ys) = sizes xs + sizes ys"
  by (auto simp: sizes_def split: prod.split)

lemma fitting_prefix_all: "sizes xs + n \<le> m \<Longrightarrow> fitting_prefix m n xs = xs"
  by (induction xs arbitrary: n) (simp_all add: ac_simps)

lemma fitting_prefix_snoc: "m < sizes xs + unat (entry_size (snd x)) + n \<Longrightarrow> fitting_prefix m n (xs @ [x]) = fitting_prefix m n xs"
  by (induction xs arbitrary: n) (simp_all add: ac_simps)

lemma fitting_prefix_sizes: "n \<le> m \<Longrightarrow> sizes (fitting_prefix m n xs) + n \<le> m"
proof (induction xs arbitrary: n)
  case (Cons x xs)
  show ?case
  proof (cases "sizes [x] + n \<le> m")
    case True
    from Cons.IH [OF this] True show ?thesis by simp
  qed (use Cons.prems in simp)
qed simp

lemma fitting_prefix_subset: "set (fitting_prefix m n xs) \<subseteq> set xs"
  by (induction m n xs rule: fitting_prefix.induct) auto

lemma sizes_without: "distinct (map fst xs) \<Longrightarrow>
  sizes xs = sizes (without k xs) + (case map_of xs k of None \<Rightarrow> 0 | Some e \<Rightarrow> unat (entry_size e))"
proof (induction xs)
  case (Cons x xs)
  show ?case
  proof (cases "fst x = k")
    case True
    with Cons.prems have "map_of xs k = None" by (auto simp: map_of_eq_None_iff)
    with Cons True show ?thesis by (cases x) (simp add: without_def)
  next
    case False
    with Cons show ?thesis by (cases x) (simp add: without_def split: option.splits)
  qed
qed (simp add: without_def)

lemma without_notin: "k \<notin> fst ` set (without k xs)"
  by (auto simp: without_def)

lemma without_absent: "k \<notin> fst ` set xs \<Longrightarrow> without k xs = xs"
  by (force simp: without_def filter_id_conv)

section \<open>The cache over any lawful LRU map\<close>

context lru
begin

abbreviation ok :: "'c memory_cache \<Rightarrow> bool" where
  "ok c \<equiv> cache_ok entries c"

lemma new_ok: "unat m < 2 ^ 63 \<Longrightarrow> ok (memory_new L m)"
  by (simp add: cache_ok_def memory_new_def unbounded_entries)

lemma entry_le_cur: "ok c \<Longrightarrow> (k, e) \<in> set (entries (items c)) \<Longrightarrow> unat (entry_size e) \<le> unat (cur_bytes c)"
  unfolding cache_ok_def sizes_def by (force intro: member_le_sum_list)

lemma get_spec:
  assumes "memory_get L url c = (r, c')" "ok c"
  shows "r = map_option (\<lambda>e. \<lparr>cached_mime = entry_mime e, cached_bytes = entry_bytes e\<rparr>) (map_of (entries (items c)) url)"
    and "ok c'" "set (entries (items c')) = set (entries (items c))" "max_bytes c' = max_bytes c"
proof -
  obtain x i where g: "lru_get L url (items c) = (x, i)" by (cases "lru_get L url (items c)")
  have x: "x = map_of (entries (items c)) url" and
    i: "entries i = (case x of None \<Rightarrow> entries (items c) | Some e \<Rightarrow> (url, e) # without url (entries (items c)))"
    using get_entries [OF g] by auto
  from assms(1) g have r: "r = map_option (\<lambda>e. \<lparr>cached_mime = entry_mime e, cached_bytes = entry_bytes e\<rparr>) x"
    and c': "c' = c\<lparr>items := i\<rparr>" by (auto simp: memory_get_def)
  show "r = map_option (\<lambda>e. \<lparr>cached_mime = entry_mime e, cached_bytes = entry_bytes e\<rparr>) (map_of (entries (items c)) url)"
    by (simp add: r x)
  have keep: "set (entries i) = set (entries (items c)) \<and> sizes (entries i) = sizes (entries (items c))"
  proof (cases x)
    case (Some e)
    have m: "map_of (entries (items c)) url = Some e" using Some x by simp
    have d: "distinct (map fst (entries (items c)))" by (rule distinct_keys)
    have "set ((url, e) # without url (entries (items c))) = set (entries (items c))"
      using m d by (auto simp: without_def dest: map_of_SomeD) (metis map_of_eq_Some_iff option.inject)
    with Some i m sizes_without [OF d, of url] show ?thesis by simp
  qed (simp add: i)
  then show "set (entries (items c')) = set (entries (items c))" "max_bytes c' = max_bytes c" by (simp_all add: c')
  from keep assms(2) show "ok c'" by (simp add: c' cache_ok_def)
qed

lemma drop_previous_spec:
  assumes "ok c"
  shows "ok (drop_previous L url c)" "entries (items (drop_previous L url c)) = without url (entries (items c))"
    "max_bytes (drop_previous L url c) = max_bytes c"
proof -
  obtain x i where p: "lru_pop L url (items c) = (x, i)" by (cases "lru_pop L url (items c)")
  note px = pop_entries [OF p]
  note sw = sizes_without [OF distinct_keys, of "items c" url]
  show "entries (items (drop_previous L url c)) = without url (entries (items c))"
    "max_bytes (drop_previous L url c) = max_bytes c"
    using p px by (auto simp: drop_previous_def split: option.splits)
  have sub: "set (without url (entries (items c))) \<subseteq> set (entries (items c))" by (auto simp: without_def)
  show "ok (drop_previous L url c)"
  proof (cases x)
    case None
    with p px sw sub assms show ?thesis by (auto simp: drop_previous_def cache_ok_def)
  next
    case (Some e)
    let ?n = "saturating_sub (cur_bytes c) (entry_size e)"
    have "unat ?n = sizes (without url (entries (items c)))"
      using Some px sw assms by (simp add: unat_saturating_sub cache_ok_def)
    moreover have "?n \<le> max_bytes c"
      using assms by (auto simp: cache_ok_def word_le_nat_alt unat_saturating_sub)
    ultimately show ?thesis using Some p px sub assms by (auto simp: drop_previous_def cache_ok_def)
  qed
qed

lemma evict_spec:
  assumes "ok c" "sz \<le> max_bytes c"
  shows "\<exists>c'. evict L sz c = Some c' \<and> ok c' \<and> max_bytes c' = max_bytes c
    \<and> entries (items c') = fitting_prefix (unat (max_bytes c)) (unat sz) (entries (items c))"
  using assms
proof (induction "length (entries (items c))" arbitrary: c rule: less_induct)
  case less
  have nowrap: "unat (cur_bytes c + sz) = unat (cur_bytes c) + unat sz"
    using less.prems by (intro unat_add_no_wrap) (simp add: cache_ok_def word_le_nat_alt)
  show ?case
  proof (cases "cur_bytes c + sz > max_bytes c")
    case False
    then have "sizes (entries (items c)) + unat sz \<le> unat (max_bytes c)"
      using nowrap less.prems by (simp add: cache_ok_def word_less_nat_alt)
    then have "entries (items c) = fitting_prefix (unat (max_bytes c)) (unat sz) (entries (items c))"
      by (simp add: fitting_prefix_all)
    with False less.prems show ?thesis by (subst evict.simps) simp
  next
    case True
    then have over: "unat (max_bytes c) < sizes (entries (items c)) + unat sz"
      using nowrap less.prems by (simp add: cache_ok_def word_less_nat_alt)
    then have ne: "entries (items c) \<noteq> []" using less.prems(2) by (auto simp: word_le_nat_alt)
    obtain y i where p: "lru_pop_lru L (items c) = (y, i)" by (cases "lru_pop_lru L (items c)")
    obtain k e where ke: "last (entries (items c)) = (k, e)" by (cases "last (entries (items c))")
    have y: "y = Some (k, e)" and i: "entries i = butlast (entries (items c))"
      using pop_lru_entries [OF p] ne ke by auto
    have split: "entries (items c) = entries i @ [(k, e)]" using ne i ke by (metis append_butlast_last_id)
    let ?c = "c\<lparr>items := i, cur_bytes := saturating_sub (cur_bytes c) (entry_size e)\<rparr>"
    have step: "evict L sz c = evict L sz ?c" using True p y by (subst evict.simps) simp
    have "ok ?c" using less.prems(1) split
      by (auto simp: cache_ok_def unat_saturating_sub word_le_nat_alt)
    moreover have "length (entries (items ?c)) < length (entries (items c))" using split by simp
    ultimately obtain c' where "evict L sz ?c = Some c'" "ok c'" "max_bytes c' = max_bytes c"
      "entries (items c') = fitting_prefix (unat (max_bytes c)) (unat sz) (entries i)"
      using less.hyps [of ?c] less.prems(2) by auto
    moreover have "fitting_prefix (unat (max_bytes c)) (unat sz) (entries (items c))
        = fitting_prefix (unat (max_bytes c)) (unat sz) (entries i)"
      using over split by (simp add: fitting_prefix_snoc)
    ultimately show ?thesis using step by simp
  qed
qed

lemma set_spec:
  assumes "ok c" "length (cached_bytes v) < 2 ^ 63"
  shows "\<exists>c'. memory_set L url v c = Some c' \<and> ok c' \<and> max_bytes c' = max_bytes c
    \<and> entries (items c') =
        (if length (cached_bytes v) > unat (max_bytes c) then entries (items c)
         else (url, \<lparr>entry_mime = cached_mime v, entry_bytes = cached_bytes v, entry_size = of_nat (length (cached_bytes v))\<rparr>)
              # fitting_prefix (unat (max_bytes c)) (length (cached_bytes v)) (without url (entries (items c))))"
proof -
  let ?sz = "of_nat (length (cached_bytes v)) :: u64"
  have sz: "unat ?sz = length (cached_bytes v)" using assms(2) by (intro unat_of_nat_u64) simp
  show ?thesis
  proof (cases "?sz > max_bytes c")
    case True
    with assms sz show ?thesis by (simp add: memory_set_def word_less_nat_alt)
  next
    case False
    note dp = drop_previous_spec [OF assms(1), of url]
    let ?kept = "fitting_prefix (unat (max_bytes c)) (length (cached_bytes v)) (without url (entries (items c)))"
    obtain c1 where c1: "evict L ?sz (drop_previous L url c) = Some c1" "ok c1" "max_bytes c1 = max_bytes c"
      "entries (items c1) = ?kept"
      using evict_spec [OF dp(1), of ?sz] dp False sz by (auto simp: not_less)
    have fresh: "without url ?kept = ?kept"
      using without_notin [of url "entries (items c)"] fitting_prefix_subset by (intro without_absent) blast
    have le: "length (cached_bytes v) \<le> unat (max_bytes c)" using False sz by (simp add: word_less_nat_alt)
    have room: "sizes ?kept + length (cached_bytes v) \<le> unat (max_bytes c)" by (rule fitting_prefix_sizes [OF le])
    have cur: "unat (cur_bytes c1) = sizes ?kept" and max: "unat (max_bytes c) < 2 ^ 63"
      using c1 by (simp_all add: cache_ok_def)
    have "unat (cur_bytes c1 + ?sz) = unat (cur_bytes c1) + unat ?sz"
      using cur max room sz by (intro unat_add_no_wrap) simp
    with c1 fresh room cur sz max False le show ?thesis
      by (auto simp: memory_set_def Let_def cache_ok_def put_entries word_le_nat_alt)
  qed
qed

end

section \<open>The LRU map as a list\<close>

type_synonym lru_list = "(string \<times> memory_entry) list"

text \<open>Lists with distinct keys, most recently used first.\<close>

typedef lru_map = "{xs :: lru_list. distinct (map fst xs)}"
  by (rule exI [of _ "[]"]) simp

setup_lifting type_definition_lru_map

lift_definition map_unbounded :: lru_map is "[]" by simp

lift_definition map_touch :: "string \<Rightarrow> lru_map \<Rightarrow> lru_map" is
  "\<lambda>k xs. case map_of xs k of None \<Rightarrow> xs | Some e \<Rightarrow> (k, e) # without k xs"
  by (auto simp: without_def distinct_map_filter split: option.splits)

lift_definition map_put :: "string \<Rightarrow> memory_entry \<Rightarrow> lru_map \<Rightarrow> lru_map" is "\<lambda>k e xs. (k, e) # without k xs"
  by (auto simp: without_def distinct_map_filter)

lift_definition map_without :: "string \<Rightarrow> lru_map \<Rightarrow> lru_map" is without
  by (auto simp: without_def distinct_map_filter)

lift_definition map_butlast :: "lru_map \<Rightarrow> lru_map" is butlast
  by (simp add: map_butlast distinct_butlast)

lift_definition map_entries :: "lru_map \<Rightarrow> lru_list" is "\<lambda>xs. xs" .

definition list_lru :: "lru_map lru_ops" where
  "list_lru =
     \<lparr>lru_unbounded = map_unbounded,
      lru_get = (\<lambda>k m. (map_of (map_entries m) k, map_touch k m)),
      lru_put = map_put,
      lru_pop = (\<lambda>k m. (map_of (map_entries m) k, map_without k m)),
      lru_pop_lru = (\<lambda>m. (if map_entries m = [] then None else Some (last (map_entries m)), map_butlast m))\<rparr>"

interpretation list_cache: lru list_lru map_entries
  by unfold_locales
    (use Rep_lru_map in \<open>auto simp: list_lru_def map_entries.rep_eq map_unbounded.rep_eq map_touch.rep_eq
       map_put.rep_eq map_without.rep_eq map_butlast.rep_eq split: option.splits\<close>)

section \<open>Runs\<close>

datatype cache_op = CacheGet string | CacheSet string cached_inline_data

fun run_cache_op :: "'c lru_ops \<Rightarrow> cache_op \<Rightarrow> 'c memory_cache \<Rightarrow> 'c memory_cache option" where
  "run_cache_op L (CacheGet url) c = Some (snd (memory_get L url c))"
| "run_cache_op L (CacheSet url v) c = memory_set L url v c"

fun run_cache :: "'c lru_ops \<Rightarrow> cache_op list \<Rightarrow> 'c memory_cache \<Rightarrow> 'c memory_cache option" where
  "run_cache L [] c = Some c"
| "run_cache L (op # ops) c = (case run_cache_op L op c of None \<Rightarrow> None | Some c' \<Rightarrow> run_cache L ops c')"

fun op_small :: "cache_op \<Rightarrow> bool" where
  "op_small (CacheGet url) = True"
| "op_small (CacheSet url v) = (length (cached_bytes v) < 2 ^ 63)"

context lru
begin

lemma run_op_ok:
  assumes "ok c" "op_small op"
  shows "\<exists>c'. run_cache_op L op c = Some c' \<and> ok c' \<and> max_bytes c' = max_bytes c"
proof (cases op)
  case (CacheGet url)
  then show ?thesis using get_spec(2,4) [OF _ assms(1), of url] by (cases "memory_get L url c") simp
next
  case (CacheSet url v)
  then show ?thesis using set_spec [OF assms(1), of v url] assms(2) by auto
qed

lemma run_ok:
  assumes "ok c" "\<forall>op \<in> set ops. op_small op"
  shows "\<exists>c'. run_cache L ops c = Some c' \<and> ok c' \<and> max_bytes c' = max_bytes c"
  using assms
proof (induction ops arbitrary: c)
  case (Cons op ops)
  then obtain c1 where c1: "run_cache_op L op c = Some c1" "ok c1" "max_bytes c1 = max_bytes c"
    using run_op_ok [of c op] by auto
  with Cons show ?case by fastforce
qed simp

end

section \<open>Properties\<close>

text \<open>
  Every sequence of lookups and stores on a new memory cache runs to its end (the
  eviction loop terminates), and afterwards the byte counter is exactly the sum of the stored
  sizes and within the configured maximum.
\<close>

theorem memory_cache_exact:
  assumes "lru L ent" "unat m < 2 ^ 63" "\<forall>op \<in> set ops. op_small op"
  shows "\<exists>c. run_cache L ops (memory_new L m) = Some c
    \<and> unat (cur_bytes c) = sizes (ent (items c)) \<and> cur_bytes c \<le> m"
  using lru.run_ok [OF assms(1) lru.new_ok [OF assms(1,2)] assms(3)]
  by (auto simp: cache_ok_def memory_new_def)

definition demo_data :: cached_inline_data where
  "demo_data = \<lparr>cached_mime = ''image/png'', cached_bytes = ''abc''\<rparr>"

theorem memory_cache_exact_witness:
  "\<exists>c. run_cache list_lru [CacheSet ''u'' demo_data, CacheGet ''u'', CacheSet ''v'' demo_data] (memory_new list_lru 4) = Some c
     \<and> unat (cur_bytes c) = sizes (map_entries (items c)) \<and> cur_bytes c \<le> 4"
  using memory_cache_exact [OF list_cache.lru_axioms, of 4
    "[CacheSet ''u'' demo_data, CacheGet ''u'', CacheSet ''v'' demo_data]"]
  by (simp add: demo_data_def)

lemma memory_set_hit:
  assumes "lru L ent" "cache_ok ent c" "length (cached_bytes v) \<le> unat (max_bytes c)"
  shows "\<exists>c'. memory_set L url v c = Some c' \<and> cache_ok ent c'
    \<and> tl (ent (items c')) = fitting_prefix (unat (max_bytes c)) (length (cached_bytes v)) (without url (ent (items c)))
    \<and> fst (memory_get L url c') = Some v"
proof -
  have "length (cached_bytes v) < 2 ^ 63" using assms(2,3) by (simp add: cache_ok_def)
  from lru.set_spec [OF assms(1,2) this, of url] assms(3) obtain c' where
    c': "memory_set L url v c = Some c'" "cache_ok ent c'" and e: "ent (items c') =
      (url, \<lparr>entry_mime = cached_mime v, entry_bytes = cached_bytes v, entry_size = of_nat (length (cached_bytes v))\<rparr>)
      # fitting_prefix (unat (max_bytes c)) (length (cached_bytes v)) (without url (ent (items c)))"
    by auto
  obtain r c2 where g: "memory_get L url c' = (r, c2)" by (cases "memory_get L url c'")
  from lru.get_spec(1) [OF assms(1) g c'(2)] e have "r = Some v" by simp
  with c' e g show ?thesis by simp
qed

text \<open>
  C14: Storing an image that fits under the maximum makes the next lookup of its URL return
  it, and keeps of the other entries exactly the longest most-recently-used prefix that still
  fits beside it: eviction is least-recently-used first and never evicts more than needed.
\<close>

theorem memory_set_lru:
  assumes "lru L ent" "cache_ok ent c" "length (cached_bytes v) \<le> unat (max_bytes c)"
  shows "\<exists>c'. memory_set L url v c = Some c' \<and> cache_ok ent c'
    \<and> tl (ent (items c')) = fitting_prefix (unat (max_bytes c)) (length (cached_bytes v)) (without url (ent (items c)))
    \<and> fst (memory_get L url c') = Some v"
  by (rule memory_set_hit [OF assms])

theorem memory_set_lru_witness:
  "\<exists>c'. memory_set list_lru ''u'' demo_data (memory_new list_lru 4) = Some c'
     \<and> fst (memory_get list_lru ''u'' c') = Some demo_data"
  using memory_set_lru [OF list_cache.lru_axioms list_cache.new_ok [of 4], of demo_data "''u''"]
  by (auto simp: memory_new_def demo_data_def)

end
