(* ===== verification/Disk_Cache.thy ===== *)
theory Disk_Cache
  imports Memory_Cache "HOL-Library.Multiset"
begin

text \<open>
  The on-disk image cache (\<open>DiskCache\<close> in rust-sync-proxy/src/cache.rs): two files per URL, the
  body and a JSON description with its expiry time, and pruning by age when the described
  sizes exceed the budget.

  The state is the cache directory: whether it exists, and its files in the order \<open>read_dir\<close>
  lists them, with contents and modification time.  The hash of a URL, the (de)serialiser of
  the description and the operating system's refusals are parameters (\<open>disk_env\<close>); the locale
  \<open>disk_world\<close> states what the round trip relies on.

  Shown here: pruning removes oldest entries first and ends within the budget, and an image
  that was stored is found again until it expires.
\<close>

section \<open>State\<close>

record disk_meta =
  meta_mime :: string
  expires_at_unix_ms :: u64
  meta_size_bytes :: u64

record disk_file =
  content :: bytes
  modified :: nat

record disk =
  dir_exists :: bool
  listing :: "(string \<times> disk_file) list"

record disk_cache =
  ttl_ms :: nat
  disk_max_bytes :: u64

record disk_env =
  cache_key :: "string \<Rightarrow> string"
  ser_meta :: "disk_meta \<Rightarrow> bytes"
  parse_meta :: "bytes \<Rightarrow> anyhow + disk_meta"
  refused :: "string \<Rightarrow> string option"
  now_unix_ms :: u64
  clock :: nat

definition file_at :: "disk \<Rightarrow> string \<Rightarrow> disk_file option" where
  "file_at d n = map_of (listing d) n"

definition delete :: "string \<Rightarrow> disk \<Rightarrow> disk" where
  "delete n d = d\<lparr>listing := filter (\<lambda>(m, _). m \<noteq> n) (listing d)\<rparr>"

text \<open>A file that is rewritten keeps its place in the listing.\<close>

fun put_file :: "string \<Rightarrow> disk_file \<Rightarrow> (string \<times> disk_file) list \<Rightarrow> (string \<times> disk_file) list" where
  "put_file n f [] = [(n, f)]"
| "put_file n f ((m, g) # xs) = (if m = n then (n, f) # xs else (m, g) # put_file n f xs)"

definition os_read :: "disk_env \<Rightarrow> string \<Rightarrow> disk \<Rightarrow> anyhow + bytes" where
  "os_read env n d =
     (case refused env n of
        Some t \<Rightarrow> Err (Message t)
      | None \<Rightarrow> ok_or (Message ''No such file or directory (os error 2)'') (map_option content (file_at d n)))"

definition os_write :: "disk_env \<Rightarrow> string \<Rightarrow> bytes \<Rightarrow> disk \<Rightarrow> (anyhow + unit) \<times> disk" where
  "os_write env n b d =
     (case refused env n of
        Some t \<Rightarrow> (Err (Message t), d)
      | None \<Rightarrow> (Ok (), d\<lparr>listing := put_file n \<lparr>content = b, modified = clock env\<rparr> (listing d)\<rparr>))"

text \<open>\<open>let _ = remove_file(..)\<close>: a refusal is ignored.\<close>

definition os_remove :: "disk_env \<Rightarrow> string \<Rightarrow> disk \<Rightarrow> disk" where
  "os_remove env n d = (case refused env n of Some _ \<Rightarrow> d | None \<Rightarrow> delete n d)"

text \<open>\<open>Path::extension\<close> and \<open>Path::with_extension\<close> on a file name.\<close>

definition split_ext :: "string \<Rightarrow> (string \<times> string) option" where
  "split_ext n =
     (case split_once (CHR ''.'') (rev n) of
        None \<Rightarrow> None
      | Some (e, st) \<Rightarrow> if st = [] then None else Some (rev st, rev e))"

definition with_bin :: "string \<Rightarrow> string" where
  "with_bin n = (case split_ext n of None \<Rightarrow> n @ ''.bin'' | Some (st, _) \<Rightarrow> st @ ''.bin'')"

section \<open>Operations\<close>

definition disk_get :: "disk_env \<Rightarrow> string \<Rightarrow> disk \<Rightarrow> (anyhow + cached_inline_data option) \<times> disk" where
  "disk_get env url d =
     (let stem = cache_key env url;
          meta_path = stem @ ''.json'';
          body_path = stem @ ''.bin''
      in if file_at d meta_path = None \<or> file_at d body_path = None then (Ok None, d)
         else
           (case and_then (os_read env meta_path d) (parse_meta env) of
              Inl e \<Rightarrow> (Err e, d)
            | Inr m \<Rightarrow>
                if now_unix_ms env > expires_at_unix_ms m then
                  (Ok None, os_remove env body_path (os_remove env meta_path d))
                else
                  (case os_read env body_path d of
                     Inl e \<Rightarrow> (Err e, d)
                   | Inr b \<Rightarrow> (Ok (Some \<lparr>cached_mime = meta_mime m, cached_bytes = b\<rparr>), d))))"

definition described :: "disk_env \<Rightarrow> disk \<Rightarrow> string \<times> disk_file \<Rightarrow> (nat \<times> string \<times> u64) option" where
  "described env d nf =
     (case split_ext (fst nf) of
        Some (_, e) \<Rightarrow>
          if e \<noteq> ''json'' then None
          else (case and_then (os_read env (fst nf) d) (parse_meta env) of
                  Inl _ \<Rightarrow> None
                | Inr m \<Rightarrow> Some (modified (snd nf), fst nf, meta_size_bytes m))
      | None \<Rightarrow> None)"

fun prune_loop :: "disk_env \<Rightarrow> u64 \<Rightarrow> (nat \<times> string \<times> u64) list \<Rightarrow> u64 \<Rightarrow> disk \<Rightarrow> disk" where
  "prune_loop env limit [] total_bytes d = d"
| "prune_loop env limit ((_, meta_path, sz) # es) total_bytes d =
     (if total_bytes \<le> limit then d
      else prune_loop env limit es (saturating_sub total_bytes sz)
             (os_remove env (with_bin meta_path) (os_remove env meta_path d)))"

definition entries_of :: "disk_env \<Rightarrow> disk \<Rightarrow> (nat \<times> string \<times> u64) list" where
  "entries_of env d = List.map_filter (described env d) (listing d)"

definition prune_if_needed :: "disk_env \<Rightarrow> disk_cache \<Rightarrow> disk \<Rightarrow> disk" where
  "prune_if_needed env k d =
     (if \<not> dir_exists d then d
      else
        (let entries = entries_of env d;
             total_bytes = sum_list (map (\<lambda>(_, _, sz). sz) entries)
         in if total_bytes \<le> disk_max_bytes k then d
            else prune_loop env (disk_max_bytes k) (sort_key fst entries) total_bytes d))"

definition disk_set :: "disk_env \<Rightarrow> disk_cache \<Rightarrow> string \<Rightarrow> cached_inline_data \<Rightarrow> disk \<Rightarrow> (anyhow + unit) \<times> disk" where
  "disk_set env k url v d =
     (case refused env [] of
        Some t \<Rightarrow> (Err (Message t), d)
      | None \<Rightarrow>
          (let d0 = d\<lparr>dir_exists := True\<rparr>;
               stem = cache_key env url;
               meta = \<lparr>meta_mime = cached_mime v,
                       expires_at_unix_ms = now_unix_ms env + of_nat (ttl_ms k),
                       meta_size_bytes = of_nat (length (cached_bytes v))\<rparr>
           in case os_write env (stem @ ''.bin'') (cached_bytes v) d0 of
                (Inl e, d1) \<Rightarrow> (Err e, d1)
              | (Inr _, d1) \<Rightarrow>
                  (case os_write env (stem @ ''.json'') (ser_meta env meta) d1 of
                     (Inl e, d2) \<Rightarrow> (Err e, d2)
                   | (Inr _, d2) \<Rightarrow> (Ok (), prune_if_needed env k d2))))"

section \<open>Files\<close>

definition names_distinct :: "disk \<Rightarrow> bool" where
  "names_distinct d \<longleftrightarrow> distinct (map fst (listing d))"

lemma file_at_delete: "file_at (delete n d) m = (if m = n then None else file_at d m)"
proof -
  have "map_of (filter (\<lambda>(k, _). k \<noteq> n) xs) m = (if m = n then None else map_of xs m)" for xs :: "(string \<times> disk_file) list"
    by (induction xs) auto
  then show ?thesis by (simp add: file_at_def delete_def)
qed

lemma names_distinct_delete: "names_distinct d \<Longrightarrow> names_distinct (delete n d)"
  by (simp add: names_distinct_def delete_def distinct_map_filter)

lemma map_of_put_file: "map_of (put_file n f xs) m = (if m = n then Some f else map_of xs m)"
  by (induction xs rule: put_file.induct) auto

lemma names_put_file: "fst ` set (put_file n f xs) = insert n (fst ` set xs)"
  by (induction n f xs rule: put_file.induct) auto

lemma distinct_put_file: "distinct (map fst xs) \<Longrightarrow> distinct (map fst (put_file n f xs))"
  by (induction n f xs rule: put_file.induct) (auto simp: names_put_file)

lemma file_at_listing: "names_distinct d \<Longrightarrow> (n, f) \<in> set (listing d) \<longleftrightarrow> file_at d n = Some f"
  by (simp add: names_distinct_def file_at_def)

lemma map_filter_simps:
  "List.map_filter f [] = []"
  "List.map_filter f (x # xs) = (case f x of None \<Rightarrow> List.map_filter f xs | Some y \<Rightarrow> y # List.map_filter f xs)"
  by (auto simp: List.map_filter_def split: option.splits)

lemma described_name: "described env d nf = Some (t, n, z) \<Longrightarrow> n = fst nf \<and> t = modified (snd nf)"
  by (auto simp: described_def split: option.splits prod.splits if_splits sum.splits)

lemma described_delete: "fst nf \<noteq> n \<Longrightarrow> described env (delete n d) nf = described env d nf"
proof -
  assume "fst nf \<noteq> n"
  then have "os_read env (fst nf) (delete n d) = os_read env (fst nf) d" by (simp add: os_read_def file_at_delete split: option.split)
  then show ?thesis by (simp only: described_def)
qed

lemma map_filter_delete:
  "List.map_filter (described env (delete n d)) (filter (\<lambda>(k, _). k \<noteq> n) xs)
     = filter (\<lambda>(_, m, _). m \<noteq> n) (List.map_filter (described env d) xs)"
proof (induction xs)
  case (Cons x xs)
  show ?case
  proof (cases "described env d x")
    case None
    with Cons described_delete [of x n env d] show ?thesis by (cases x) (auto simp: map_filter_simps)
  next
    case (Some y)
    obtain t m z where y: "y = (t, m, z)" by (cases y)
    then have "m = fst x" using described_name Some by blast
    with Cons Some y described_delete [of x n env d] show ?thesis by (cases x) (auto simp: map_filter_simps)
  qed
qed (simp add: map_filter_simps)

lemma entries_delete: "entries_of env (delete n d) = filter (\<lambda>(_, m, _). m \<noteq> n) (entries_of env d)"
  using map_filter_delete [of env n d "listing d"] by (simp add: entries_of_def delete_def)

lemma described_json: "described env d nf = Some (t, n, z) \<Longrightarrow> \<exists>st. split_ext n = Some (st, ''json'')"
  by (auto simp: described_def split: option.splits prod.splits if_splits sum.splits)

lemma map_filter_mem: "y \<in> set (List.map_filter f xs) \<Longrightarrow> \<exists>x \<in> set xs. f x = Some y"
  by (induction xs) (auto simp: map_filter_simps split: option.splits)

lemma entries_names: "(t, n, z) \<in> set (entries_of env d) \<Longrightarrow> \<exists>st. split_ext n = Some (st, ''json'')"
  unfolding entries_of_def by (blast dest: map_filter_mem described_json)

lemma split_ext_snoc: "CHR ''.'' \<notin> set e \<Longrightarrow> st \<noteq> [] \<Longrightarrow> split_ext (st @ CHR ''.'' # e) = Some (st, e)"
  by (simp add: split_ext_def)

lemma split_ext_Some: "split_ext n = Some (st, e) \<Longrightarrow> n = st @ CHR ''.'' # e \<and> st \<noteq> []"
proof -
  assume "split_ext n = Some (st, e)"
  then have "split_once (CHR ''.'') (rev n) = Some (rev e, rev st)" "st \<noteq> []"
    by (auto simp: split_ext_def split: option.splits if_splits)
  from split_once_append [OF this(1)] this(2) show ?thesis
    by (metis append.assoc append_Cons append_Nil rev.simps(2) rev_append rev_rev_ident)
qed

lemma bin_not_json: "split_ext (with_bin m) \<noteq> Some (st, ''json'')"
proof (cases "split_ext m")
  case None
  then show ?thesis
  proof (cases "m = []")
    case False
    then show ?thesis using None split_ext_snoc [of "''bin''" m] by (simp add: with_bin_def)
  qed (simp add: with_bin_def split_ext_def)
next
  case (Some p)
  obtain s e where p: "p = (s, e)" by (cases p)
  with Some have "s \<noteq> []" using split_ext_Some by blast
  then show ?thesis using Some p split_ext_snoc [of "''bin''" s] by (simp add: with_bin_def)
qed

lemma entries_drop_pair:
  "entries_of env (delete (with_bin m) (delete m d)) = filter (\<lambda>(_, n, _). n \<noteq> m) (entries_of env d)"
proof -
  have "\<forall>x \<in> set (entries_of env d). fst (snd x) \<noteq> with_bin m"
    using entries_names bin_not_json by fastforce
  then have "filter (\<lambda>(_, n, _). n \<noteq> with_bin m) (filter (\<lambda>(_, n, _). n \<noteq> m) (entries_of env d))
      = filter (\<lambda>(_, n, _). n \<noteq> m) (entries_of env d)"
    by (intro filter_True) auto
  then show ?thesis by (simp only: entries_delete)
qed

lemma map_filter_names: "fst ` snd ` set (List.map_filter (described env d) xs) \<subseteq> fst ` set xs"
proof (induction xs)
  case (Cons x xs)
  then show ?case by (cases "described env d x") (auto simp: map_filter_simps dest: described_name)
qed (simp add: map_filter_simps)

lemma map_filter_distinct:
  "distinct (map fst xs) \<Longrightarrow> distinct (map (fst \<circ> snd) (List.map_filter (described env d) xs))"
proof (induction xs)
  case (Cons x xs)
  show ?case
  proof (cases "described env d x")
    case (Some y)
    then have "fst (snd y) = fst x" using described_name [of env d x] by (cases y) auto
    moreover have "fst x \<notin> fst ` snd ` set (List.map_filter (described env d) xs)"
      using map_filter_names [of env d xs] Cons.prems by auto
    ultimately show ?thesis using Cons Some by (simp add: map_filter_simps image_comp)
  qed (use Cons in \<open>simp add: map_filter_simps\<close>)
qed (simp add: map_filter_simps)

lemma entries_distinct: "names_distinct d \<Longrightarrow> distinct (map (fst \<circ> snd) (entries_of env d))"
  unfolding entries_of_def names_distinct_def by (rule map_filter_distinct)

section \<open>Pruning\<close>

definition total_of :: "(nat \<times> string \<times> u64) list \<Rightarrow> nat" where
  "total_of es = sum_list (map (\<lambda>(_, _, z). unat z) es)"

lemma total_of_simps [simp]: "total_of [] = 0" "total_of ((t, n, z) # es) = unat z + total_of es"
  by (simp_all add: total_of_def)

lemma total_of_mset: "mset es = mset fs \<Longrightarrow> total_of es = total_of fs"
  unfolding total_of_def by (metis mset_map sum_mset_sum_list)

lemma mset_filter_head:
  assumes "mset xs = mset ((t, m, z) # es)" "distinct (map (fst \<circ> snd) xs)"
  shows "mset (filter (\<lambda>(_, n, _). n \<noteq> m) xs) = mset es"
proof -
  have "distinct (map (fst \<circ> snd) ((t, m, z) # es))"
    using assms by (metis mset_eq_imp_distinct_iff mset_map)
  then have "\<forall>x \<in> set es. fst (snd x) \<noteq> m" by (auto simp: image_iff)
  then have keep: "filter (\<lambda>(_, n, _). n \<noteq> m) es = es" by (intro filter_True) auto
  have "mset (filter (\<lambda>(_, n, _). n \<noteq> m) xs) = mset (filter (\<lambda>(_, n, _). n \<noteq> m) ((t, m, z) # es))"
    using assms(1) by (metis mset_filter)
  with keep show ?thesis by simp
qed

lemma os_remove_pair:
  "refused env = Map.empty \<Longrightarrow> os_remove env (with_bin m) (os_remove env m d) = delete (with_bin m) (delete m d)"
  by (simp add: os_remove_def)

lemma prune_loop_spec:
  assumes "refused env = Map.empty" "names_distinct d" "mset (entries_of env d) = mset es" "unat tot = total_of es"
  shows "\<exists>k. k \<le> length es \<and> names_distinct (prune_loop env limit es tot d)
    \<and> mset (entries_of env (prune_loop env limit es tot d)) = mset (drop k es)
    \<and> total_of (drop k es) \<le> unat limit \<and> (0 < k \<longrightarrow> unat limit < total_of (drop (k - 1) es))
    \<and> (\<forall>n. (\<forall>x \<in> set (take k es). n \<noteq> fst (snd x) \<and> n \<noteq> with_bin (fst (snd x)))
          \<longrightarrow> file_at (prune_loop env limit es tot d) n = file_at d n)"
  using assms(2-4)
proof (induction es arbitrary: d tot)
  case Nil
  then show ?case by simp
next
  case (Cons e es)
  obtain t m z where e: "e = (t, m, z)" by (cases e)
  show ?case
  proof (cases "tot \<le> limit")
    case True
    with Cons.prems show ?thesis by (intro exI [of _ 0]) (simp add: e word_le_nat_alt)
  next
    case False
    let ?d = "delete (with_bin m) (delete m d)" and ?t = "saturating_sub tot z"
    have step: "prune_loop env limit (e # es) tot d = prune_loop env limit es ?t ?d"
      using False by (simp add: e os_remove_pair [OF assms(1)])
    have "mset (entries_of env ?d) = mset es"
      unfolding entries_drop_pair
      using Cons.prems(1,2) e by (intro mset_filter_head entries_distinct) simp_all
    moreover have "unat ?t = total_of es" using Cons.prems(3) e by (simp add: unat_saturating_sub)
    moreover have "names_distinct ?d" using Cons.prems(1) by (simp add: names_distinct_delete)
    ultimately obtain k where k: "k \<le> length es" "names_distinct (prune_loop env limit es ?t ?d)"
      "mset (entries_of env (prune_loop env limit es ?t ?d)) = mset (drop k es)"
      "total_of (drop k es) \<le> unat limit" "0 < k \<longrightarrow> unat limit < total_of (drop (k - 1) es)"
      "\<forall>n. (\<forall>x \<in> set (take k es). n \<noteq> fst (snd x) \<and> n \<noteq> with_bin (fst (snd x)))
          \<longrightarrow> file_at (prune_loop env limit es ?t ?d) n = file_at ?d n"
      using Cons.IH by blast
    have "unat limit < total_of (drop k (e # es))" if "k = 0"
      using that False Cons.prems(3) by (simp add: word_le_nat_alt)
    with k have "unat limit < total_of (drop k (e # es))"
      by (cases k) simp_all
    with k step show ?thesis
      by (intro exI [of _ "Suc k"]) (simp add: e file_at_delete)
  qed
qed

lemma wrapping_total:
  "total_of es < 2 ^ 64 \<Longrightarrow> unat (sum_list (map (\<lambda>(_, _, z). z) es)) = total_of es"
proof (induction es)
  case (Cons e es)
  then show ?case by (cases e) (simp add: unat_add_no_wrap)
qed simp

lemma prune_spec:
  assumes env: "refused env = Map.empty" and d: "names_distinct d" and fit: "total_of (entries_of env d) < 2 ^ 64"
    and ex: "dir_exists d"
  shows "\<exists>k. k \<le> length (entries_of env d)
    \<and> mset (entries_of env (prune_if_needed env c d)) = mset (drop k (sort_key fst (entries_of env d)))
    \<and> total_of (entries_of env (prune_if_needed env c d)) \<le> unat (disk_max_bytes c)
    \<and> (0 < k \<longrightarrow> unat (disk_max_bytes c) < total_of (drop (k - 1) (sort_key fst (entries_of env d))))
    \<and> (\<forall>n. (\<forall>x \<in> set (take k (sort_key fst (entries_of env d))). n \<noteq> fst (snd x) \<and> n \<noteq> with_bin (fst (snd x)))
          \<longrightarrow> file_at (prune_if_needed env c d) n = file_at d n)"
proof -
  let ?es = "entries_of env d" and ?so = "sort_key fst (entries_of env d)"
  let ?t = "sum_list (map (\<lambda>(_, _, z). z) ?es)"
  have t: "unat ?t = total_of ?es" by (rule wrapping_total [OF fit])
  show ?thesis
  proof (cases "?t \<le> disk_max_bytes c")
    case True
    then have "prune_if_needed env c d = d" using ex by (simp add: prune_if_needed_def Let_def)
    with True t show ?thesis by (intro exI [of _ 0]) (simp add: word_le_nat_alt)
  next
    case False
    then have p: "prune_if_needed env c d = prune_loop env (disk_max_bytes c) ?so ?t d"
      using ex by (simp add: prune_if_needed_def Let_def)
    have "mset ?es = mset ?so" by simp
    moreover have "unat ?t = total_of ?so" using t total_of_mset [of ?es ?so] by simp
    ultimately show ?thesis
      using prune_loop_spec [OF env d, of ?so ?t "disk_max_bytes c"] total_of_mset
      unfolding p by (metis length_sort)
  qed
qed

section \<open>Storing and finding\<close>

definition meta_for :: "disk_env \<Rightarrow> disk_cache \<Rightarrow> cached_inline_data \<Rightarrow> disk_meta" where
  "meta_for env k v = \<lparr>meta_mime = cached_mime v, expires_at_unix_ms = now_unix_ms env + of_nat (ttl_ms k),
     meta_size_bytes = of_nat (length (cached_bytes v))\<rparr>"

text \<open>The directory after both files were written, before pruning.\<close>

definition written :: "disk_env \<Rightarrow> disk_cache \<Rightarrow> string \<Rightarrow> cached_inline_data \<Rightarrow> disk \<Rightarrow> disk" where
  "written env k url v d =
     \<lparr>dir_exists = True,
      listing = put_file (cache_key env url @ ''.json'') \<lparr>content = ser_meta env (meta_for env k v), modified = clock env\<rparr>
        (put_file (cache_key env url @ ''.bin'') \<lparr>content = cached_bytes v, modified = clock env\<rparr> (listing d))\<rparr>"

lemma written_distinct: "names_distinct d \<Longrightarrow> names_distinct (written env k url v d)"
  by (simp add: written_def names_distinct_def distinct_put_file)

lemma written_file:
  "file_at (written env k url v d) n =
     (if n = cache_key env url @ ''.json'' then Some \<lparr>content = ser_meta env (meta_for env k v), modified = clock env\<rparr>
      else if n = cache_key env url @ ''.bin'' then Some \<lparr>content = cached_bytes v, modified = clock env\<rparr>
      else file_at d n)"
  by (simp add: written_def file_at_def map_of_put_file)

text \<open>In a list sorted by age, minimal pruning from the front never takes the youngest if it fits.\<close>

lemma youngest_survives:
  assumes srt: "sorted (map fst es)" and dist: "distinct es" and x: "x \<in> set es"
    and young: "\<forall>y \<in> set es. y \<noteq> x \<longrightarrow> fst y < (fst x :: nat)"
    and fits: "total_of [x] \<le> m" and min: "0 < k \<longrightarrow> m < total_of (drop (k - 1) es)" "k \<le> length es"
  shows "x \<notin> set (take k es)"
proof
  assume tk: "x \<in> set (take k es)"
  have "distinct (take k es @ drop k es)" using dist by simp
  then have "x \<notin> set (drop k es)" using tk unfolding distinct_append by blast
  moreover have "fst x \<le> fst y" if "y \<in> set (drop k es)" for y
  proof -
    have "map fst es = map fst (take k es) @ map fst (drop k es)"
      by (metis append_take_drop_id map_append)
    with srt have "sorted (map fst (take k es) @ map fst (drop k es))" by simp
    then have "\<forall>a \<in> set (map fst (take k es)). \<forall>b \<in> set (map fst (drop k es)). a \<le> b"
      unfolding sorted_append by blast
    moreover have "fst x \<in> set (map fst (take k es))" "fst y \<in> set (map fst (drop k es))"
      unfolding set_map using tk that by (blast intro: imageI)+
    ultimately show ?thesis by blast
  qed
  ultimately have none: "y \<notin> set (drop k es)" for y
    using young by (metis in_set_dropD leD)
  have "set (drop k es) = {}" by (rule equals0I) (rule none [THEN notE])
  then have "drop k es = []" by (simp only: set_empty)
  then have k: "k = length es" using min(2) by simp
  from tk have pos: "es \<noteq> []" by auto
  then have "last es = x"
  proof -
    obtain ys z where es: "es = ys @ [z]" using pos by (metis append_butlast_last_id)
    have "z = x"
    proof (rule ccontr)
      assume "z \<noteq> x"
      then have "x \<in> set ys" using x es by simp
      then have "fst x \<le> fst z" using srt es by (auto simp: sorted_append)
      moreover have "fst z < fst x" using young es \<open>z \<noteq> x\<close> by simp
      ultimately show False by simp
    qed
    with es show ?thesis by simp
  qed
  then have "drop (k - 1) es = [x]" using pos k by (metis append_butlast_last_id append_eq_conv_conj length_butlast)
  with min(1) fits k pos show False by simp
qed

locale disk_world =
  fixes env :: disk_env
  assumes meta_roundtrip: "parse_meta env (ser_meta env m) = Ok m"
    and key_shape: "cache_key env url \<noteq> [] \<and> CHR ''.'' \<notin> set (cache_key env url)"
    and no_refusal: "refused env = Map.empty"
begin

lemma disk_set_written: "disk_set env k url v d = (Ok (), prune_if_needed env k (written env k url v d))"
  by (cases d) (simp add: disk_set_def no_refusal os_write_def written_def meta_for_def Let_def)

lemma json_ext: "split_ext (cache_key env url @ ''.json'') = Some (cache_key env url, ''json'')"
  using split_ext_snoc [of "''json''" "cache_key env url"] key_shape by simp

lemma new_entry:
  assumes "names_distinct d"
  shows "(clock env, cache_key env url @ ''.json'', of_nat (length (cached_bytes v))) \<in> set (entries_of env (written env k url v d))"
proof -
  let ?w = "written env k url v d" and ?n = "cache_key env url @ ''.json''"
  let ?f = "\<lparr>content = ser_meta env (meta_for env k v), modified = clock env\<rparr>"
  have "file_at ?w ?n = Some ?f" by (simp add: written_file)
  then have mem: "(?n, ?f) \<in> set (listing ?w)"
    using file_at_listing [OF written_distinct [OF assms]] by blast
  have "os_read env ?n ?w = Ok (ser_meta env (meta_for env k v))"
    by (simp add: os_read_def no_refusal written_file)
  then have "described env ?w (?n, ?f) = Some (clock env, ?n, of_nat (length (cached_bytes v)))"
    by (simp add: described_def json_ext meta_roundtrip meta_for_def)
  with mem show ?thesis unfolding entries_of_def by (force simp: List.map_filter_def)
qed

lemma other_entries:
  assumes "names_distinct d" "\<forall>(n, f) \<in> set (listing d). modified f < clock env"
    and "(t, n, z) \<in> set (entries_of env (written env k url v d))" "n \<noteq> cache_key env url @ ''.json''"
  shows "t < clock env"
proof -
  let ?w = "written env k url v d"
  obtain nf where nf: "nf \<in> set (listing ?w)" "described env ?w nf = Some (t, n, z)"
    using map_filter_mem [OF assms(3) [unfolded entries_of_def]] by blast
  obtain f where f: "nf = (n, f)" "t = modified f" using described_name [OF nf(2)] by (cases nf) simp
  have "n \<noteq> cache_key env url @ ''.bin''"
  proof
    assume "n = cache_key env url @ ''.bin''"
    moreover obtain st where "split_ext n = Some (st, ''json'')" using described_json [OF nf(2)] by blast
    ultimately show False using split_ext_snoc [of "''bin''" "cache_key env url"] key_shape by simp
  qed
  with assms(4) have "file_at ?w n = file_at d n" by (simp add: written_file)
  moreover have "file_at ?w n = Some f" using nf(1) f file_at_listing [OF written_distinct [OF assms(1)]] by blast
  ultimately have "(n, f) \<in> set (listing d)" using file_at_listing [OF assms(1)] by simp
  with assms(2) f show ?thesis by auto
qed

lemma survives:
  assumes d: "names_distinct d" and old: "\<forall>(n, f) \<in> set (listing d). modified f < clock env"
    and fit: "total_of (entries_of env (written env k url v d)) < 2 ^ 64"
    and small: "length (cached_bytes v) \<le> unat (disk_max_bytes k)"
    and n: "n = cache_key env url @ ''.json'' \<or> n = cache_key env url @ ''.bin''"
  shows "file_at (prune_if_needed env k (written env k url v d)) n = file_at (written env k url v d) n"
proof -
  let ?w = "written env k url v d"
  let ?es = "sort_key fst (entries_of env ?w)"
  let ?x = "(clock env, cache_key env url @ ''.json'', of_nat (length (cached_bytes v)) :: u64)"
  have dir: "dir_exists ?w" by (simp add: written_def)
  obtain j where j: "j \<le> length ?es" "0 < j \<longrightarrow> unat (disk_max_bytes k) < total_of (drop (j - 1) ?es)"
    "\<forall>n. (\<forall>x \<in> set (take j ?es). n \<noteq> fst (snd x) \<and> n \<noteq> with_bin (fst (snd x)))
          \<longrightarrow> file_at (prune_if_needed env k ?w) n = file_at ?w n"
    using prune_spec [OF no_refusal written_distinct [OF d] fit dir, of k] by auto
  have names: "distinct (map (fst \<circ> snd) ?es)"
  proof -
    have "mset (map (fst \<circ> snd) ?es) = mset (map (fst \<circ> snd) (entries_of env ?w))"
      by (simp only: mset_map mset_sort)
    then show ?thesis using entries_distinct [OF written_distinct [OF d], of env] mset_eq_imp_distinct_iff by blast
  qed
  have x: "?x \<in> set ?es" using new_entry [OF d] by simp
  have inj: "y = ?x" if "y \<in> set ?es" "fst (snd y) = cache_key env url @ ''.json''" for y
    using names x that unfolding distinct_map inj_on_def by fastforce
  have "?x \<notin> set (take j ?es)"
  proof (rule youngest_survives [OF _ _ x _ _ j(2,1)])
    show "distinct ?es" using names by (simp add: distinct_map)
    show "\<forall>y \<in> set ?es. y \<noteq> ?x \<longrightarrow> fst y < fst ?x"
      using other_entries [OF d old] inj by fastforce
    have "unat (of_nat (length (cached_bytes v)) :: u64) \<le> length (cached_bytes v)"
      by (simp add: unsigned_of_nat take_bit_nat_less_eq_self)
    with small show "total_of [?x] \<le> unat (disk_max_bytes k)" by simp
  qed (rule sorted_sort_key)
  then have spare: "cache_key env url @ ''.json'' \<noteq> fst (snd y)" if "y \<in> set (take j ?es)" for y
    using inj [of y] that by (metis in_set_takeD)
  have "n \<noteq> fst (snd y) \<and> n \<noteq> with_bin (fst (snd y))" if y: "y \<in> set (take j ?es)" for y
  proof -
    obtain st where st: "split_ext (fst (snd y)) = Some (st, ''json'')"
      using entries_names [of "fst y" "fst (snd y)" "snd (snd y)" env ?w] in_set_takeD [OF y] by auto
    note sy = split_ext_Some [OF st]
    have "with_bin (fst (snd y)) = st @ ''.bin''" by (simp add: with_bin_def st)
    moreover have "st \<noteq> cache_key env url" using spare [OF y] sy by auto
    ultimately show ?thesis using n spare [OF y] sy by auto
  qed
  with j(3) show ?thesis by blast
qed

lemma get_after_set:
  assumes d: "names_distinct d" and old: "\<forall>(n, f) \<in> set (listing d). modified f < clock env"
    and fit: "total_of (entries_of env (written env k url v d)) < 2 ^ 64"
    and small: "length (cached_bytes v) \<le> unat (disk_max_bytes k)"
    and set: "disk_set env k url v d = (r, d')"
    and t: "t \<le> now_unix_ms env + of_nat (ttl_ms k)"
  shows "disk_get (env\<lparr>now_unix_ms := t\<rparr>) url d' = (Ok (Some v), d')"
proof -
  let ?n = "cache_key env url @ ''.json''" and ?b = "cache_key env url @ ''.bin''"
  have d': "d' = prune_if_needed env k (written env k url v d)" using set disk_set_written by simp
  have j: "file_at d' ?n = Some \<lparr>content = ser_meta env (meta_for env k v), modified = clock env\<rparr>"
    using survives [OF d old fit small, of ?n] d' by (simp add: written_file)
  have b: "file_at d' ?b = Some \<lparr>content = cached_bytes v, modified = clock env\<rparr>"
    using survives [OF d old fit small, of ?b] d' by (simp add: written_file)
  have "\<not> t > expires_at_unix_ms (meta_for env k v)" using t by (simp add: meta_for_def not_less)
  then show ?thesis using j b
    by (simp add: disk_get_def os_read_def no_refusal meta_roundtrip Let_def) (simp add: meta_for_def)
qed

end

section \<open>A concrete world\<close>

text \<open>
  A world that satisfies the contract: a key made of hexadecimal digits (here the URL's bytes
  themselves instead of their hash) and a description in fields of fixed shape.
\<close>

definition hex_key :: "string \<Rightarrow> string" where
  "hex_key url = CHR ''k'' # concat (map (\<lambda>c. [''0123456789abcdef'' ! (of_char c div 16), ''0123456789abcdef'' ! (of_char c mod 16)]) url)"

definition plain_ser :: "disk_meta \<Rightarrow> bytes" where
  "plain_ser m = show_nat (unat (expires_at_unix_ms m)) @ '' '' @ show_nat (unat (meta_size_bytes m)) @ '' '' @ meta_mime m"

definition plain_parse :: "bytes \<Rightarrow> anyhow + disk_meta" where
  "plain_parse b =
     (case split_once (CHR '' '') b of
        None \<Rightarrow> Err (Message ''expected value'')
      | Some (e, r) \<Rightarrow>
          (case split_once (CHR '' '') r of
             None \<Rightarrow> Err (Message ''expected value'')
           | Some (n, mime) \<Rightarrow>
               (case (digits_val 0 e, digits_val 0 n) of
                  (Some x, Some y) \<Rightarrow> Ok \<lparr>meta_mime = mime, expires_at_unix_ms = of_nat x, meta_size_bytes = of_nat y\<rparr>
                | _ \<Rightarrow> Err (Message ''invalid number''))))"

definition plain_env :: "u64 \<Rightarrow> nat \<Rightarrow> disk_env" where
  "plain_env now c = \<lparr>cache_key = hex_key, ser_meta = plain_ser, parse_meta = plain_parse,
     refused = Map.empty, now_unix_ms = now, clock = c\<rparr>"

lemma space_not_digit: "CHR '' '' \<notin> set (show_nat n)"
  using show_nat_digits [of "CHR '' ''" n] by (auto simp: digit_val_def)

lemma plain_roundtrip: "plain_parse (plain_ser m) = Ok m"
  using space_not_digit split_once_hit [of "CHR '' ''" "show_nat _"]
  by (simp add: plain_parse_def plain_ser_def digits_val_show_nat)

lemma hex_digit_not_dot: "n < 16 \<Longrightarrow> ''0123456789abcdef'' ! n \<noteq> CHR ''.''"
proof -
  assume "n < 16"
  then have "''0123456789abcdef'' ! n \<in> set ''0123456789abcdef''" by (intro nth_mem) simp
  then show ?thesis by auto
qed

lemma hex_key_shape: "hex_key url \<noteq> [] \<and> CHR ''.'' \<notin> set (hex_key url)"
proof -
  have "''0123456789abcdef'' ! (of_char c div 16) \<noteq> CHR ''.''" "''0123456789abcdef'' ! (of_char c mod 16) \<noteq> CHR ''.''" for c
    by (rule hex_digit_not_dot; simp add: less_mult_imp_div_less)+
  then show ?thesis by (auto simp: hex_key_def) (metis)+
qed

interpretation plain_world: disk_world "plain_env now c" for now c
  by unfold_locales (simp_all add: plain_env_def plain_roundtrip hex_key_shape)

section \<open>Properties\<close>

text \<open>
  Pruning ends with the described sizes within the budget, and what it removed is the
  shortest run of oldest entries that achieves this: the surviving entries are a suffix of the
  list sorted by modification time, and one entry more would exceed the budget.
\<close>

theorem prune_oldest_first:
  assumes "disk_world env" "names_distinct d" "dir_exists d" "total_of (entries_of env d) < 2 ^ 64"
  shows "\<exists>k. mset (entries_of env (prune_if_needed env c d)) = mset (drop k (sort_key fst (entries_of env d)))
    \<and> total_of (entries_of env (prune_if_needed env c d)) \<le> unat (disk_max_bytes c)
    \<and> (0 < k \<longrightarrow> unat (disk_max_bytes c) < total_of (drop (k - 1) (sort_key fst (entries_of env d))))"
  using prune_spec [OF disk_world.no_refusal [OF assms(1)] assms(2,4,3)] by blast

definition empty_disk :: disk where
  "empty_disk = \<lparr>dir_exists = True, listing = []\<rparr>"

lemma empty_disk_facts: "names_distinct empty_disk" "dir_exists empty_disk" "listing empty_disk = []" "entries_of env empty_disk = []"
  by (simp_all add: empty_disk_def names_distinct_def entries_of_def map_filter_simps)

theorem prune_oldest_first_witness:
  "total_of (entries_of (plain_env 0 0) (prune_if_needed (plain_env 0 0) \<lparr>ttl_ms = 5, disk_max_bytes = 3\<rparr> empty_disk)) \<le> 3"
  using prune_oldest_first [OF plain_world.disk_world_axioms empty_disk_facts(1,2),
    where now1 = 0 and c1 = 0 and c = "\<lparr>ttl_ms = 5, disk_max_bytes = 3\<rparr>"] empty_disk_facts(4)
  by auto

text \<open>
  C25: An image stored on disk is found again, with the same bytes and MIME type, as long as
  its time to live lasts: the pruning at the end of the store never takes the entry just
  written, provided it fits the budget and the other files are older.
\<close>

theorem disk_get_after_set:
  assumes "disk_world env" "names_distinct d" "\<forall>(n, f) \<in> set (listing d). modified f < clock env"
    and "total_of (entries_of env (written env k url v d)) < 2 ^ 64"
    and "length (cached_bytes v) \<le> unat (disk_max_bytes k)"
    and "disk_set env k url v d = (r, d')" "t \<le> now_unix_ms env + of_nat (ttl_ms k)"
  shows "disk_get (env\<lparr>now_unix_ms := t\<rparr>) url d' = (Ok (Some v), d')"
  using disk_world.get_after_set [OF assms] .

theorem disk_get_after_set_witness:
  "disk_get ((plain_env 100 7)\<lparr>now_unix_ms := 104\<rparr>) ''u''
     (snd (disk_set (plain_env 100 7) \<lparr>ttl_ms = 5, disk_max_bytes = 3\<rparr> ''u'' demo_data empty_disk))
   = (Ok (Some demo_data), snd (disk_set (plain_env 100 7) \<lparr>ttl_ms = 5, disk_max_bytes = 3\<rparr> ''u'' demo_data empty_disk))"
proof -
  let ?env = "plain_env 100 7" and ?k = "\<lparr>ttl_ms = 5, disk_max_bytes = 3\<rparr> :: disk_cache"
  have e: "entries_of ?env (written ?env ?k ''u'' demo_data empty_disk)
      = [(7, hex_key ''u'' @ ''.json'', 3)]"
    by code_simp
  show ?thesis
  proof (rule disk_get_after_set [OF plain_world.disk_world_axioms empty_disk_facts(1) _ _ _ prod.collapse [symmetric]])
    show "total_of (entries_of ?env (written ?env ?k ''u'' demo_data empty_disk)) < 2 ^ 64"
      unfolding e by simp
  qed (simp_all add: empty_disk_facts demo_data_def plain_env_def)
qed

end
