(* ===== verification/Image_Io.thy ===== *)
theory Image_Io
  imports Blob_Runtime
begin

text \<open>
  Image download and conversion (rust-sync-proxy/src/image_io.rs): the size limits, the guard
  against private network targets, MIME type normalisation, and the decisions around PNG
  recompression.

  The HTTP client, the URL parser and the image codecs are third-party code and parameters:
  a parsed URL is a record of what its accessors return, a response is the record of what
  the code reads from it (its chunks in order), a codec the record \<open>codec\<close>.  The address
  parser of the standard library is modelled in full, as the guard depends on it.

  Shown here: a download never exceeds its limit and never leaves for a forbidden target, an
  address guard that is exact on every dotted IPv4 address but lets bracketed IPv6 literals
  through, and that conversion never makes an image larger.
\<close>

section \<open>Data and limits\<close>

record fetched_inline_data =
  fetched_mime :: string
  fetched_bytes :: bytes

record optimized_image =
  optimized_mime :: string
  optimized_bytes :: bytes

record fetched_blob =
  blob_mime :: string
  blob_ref :: blob_handle

text \<open>What the accessors of a parsed \<open>Url\<close> return.\<close>

record url =
  scheme :: string
  host_str :: "string option"
  port :: "u16 option"
  url_path :: string
  url_query :: "string option"
  url_fragment :: "string option"

definition DEFAULT_MAX_IMAGE_BYTES :: nat where
  "DEFAULT_MAX_IMAGE_BYTES = 35 * 1024 * 1024"

definition REQUEST_MAX_IMAGE_BYTES :: nat where
  "REQUEST_MAX_IMAGE_BYTES = 20 * 1024 * 1024"

definition REQUEST_PNG_WEBP_THRESHOLD_BYTES :: nat where
  "REQUEST_PNG_WEBP_THRESHOLD_BYTES = 10 * 1024 * 1024"

definition REQUEST_PNG_WEBP_OPTIMIZATION_TIMEOUT :: nat where
  "REQUEST_PNG_WEBP_OPTIMIZATION_TIMEOUT = 15000"

definition PNG_COMPRESSION_THRESHOLD_BYTES :: nat where
  "PNG_COMPRESSION_THRESHOLD_BYTES = 15 * 1024 * 1024"

definition DEFAULT_JPEG_QUALITY :: u8 where
  "DEFAULT_JPEG_QUALITY = 97"

definition too_large :: "nat \<Rightarrow> nat \<Rightarrow> anyhow" where
  "too_large actual limit = Message (''image too large: '' @ show_nat actual @ '' > '' @ show_nat limit)"

definition enforce_max_size :: "nat \<Rightarrow> nat \<Rightarrow> anyhow + unit" where
  "enforce_max_size actual limit = (if actual > limit then Err (too_large actual limit) else Ok ())"

definition enforce_max_size_u64 :: "u64 \<Rightarrow> nat \<Rightarrow> anyhow + unit" where
  "enforce_max_size_u64 actual limit =
     (if unat actual > limit then Err (too_large (unat actual) limit) else Ok ())"

section \<open>Addresses\<close>

text \<open>The parser of \<open>std::net::IpAddr\<close>: each reader returns its value and the rest of the input.\<close>

datatype ip_addr = V4 u8 u8 u8 u8 | V6 "u16 list"

definition hex_val :: "char \<Rightarrow> nat option" where
  "hex_val c =
     (let n = (of_char c :: nat)
      in if 48 \<le> n \<and> n \<le> 57 then Some (n - 48)
         else if 97 \<le> n \<and> n \<le> 102 then Some (n - 87)
         else if 65 \<le> n \<and> n \<le> 70 then Some (n - 55)
         else None)"

fun hexes_val :: "nat \<Rightarrow> string \<Rightarrow> nat option" where
  "hexes_val acc [] = Some acc"
| "hexes_val acc (c # s) = (case hex_val c of None \<Rightarrow> None | Some d \<Rightarrow> hexes_val (16 * acc + d) s)"

definition read_octet :: "string \<Rightarrow> (nat \<times> string) option" where
  "read_octet s =
     (let ds = takeWhile (\<lambda>c. digit_val c \<noteq> None) s; r = dropWhile (\<lambda>c. digit_val c \<noteq> None) s
      in if ds = [] \<or> length ds > 3 \<or> (hd ds = CHR ''0'' \<and> length ds > 1) then None
         else (case digits_val 0 ds of
                 None \<Rightarrow> None
               | Some n \<Rightarrow> if n < 256 then Some (n, r) else None))"

definition read_group :: "string \<Rightarrow> (nat \<times> string) option" where
  "read_group s =
     (let ds = takeWhile (\<lambda>c. hex_val c \<noteq> None) s; r = dropWhile (\<lambda>c. hex_val c \<noteq> None) s
      in if ds = [] \<or> length ds > 4 then None
         else map_option (\<lambda>n. (n, r)) (hexes_val 0 ds))"

definition read_given_char :: "char \<Rightarrow> string \<Rightarrow> string option" where
  "read_given_char c s = (case s of d # r \<Rightarrow> if d = c then Some r else None | [] \<Rightarrow> None)"

fun read_octets :: "nat \<Rightarrow> string \<Rightarrow> (nat list \<times> string) option" where
  "read_octets 0 s = Some ([], s)"
| "read_octets (Suc n) s =
     (case read_octet s of
        None \<Rightarrow> None
      | Some (a, r) \<Rightarrow>
          if n = 0 then Some ([a], r)
          else (case read_given_char (CHR ''.'') r of
                  None \<Rightarrow> None
                | Some r' \<Rightarrow> map_option (\<lambda>(as, r''). (a # as, r'')) (read_octets n r')))"

definition read_ipv4_addr :: "string \<Rightarrow> (nat list \<times> string) option" where
  "read_ipv4_addr s = read_octets 4 s"

text \<open>\<open>read_groups\<close>: at most \<open>n\<close> groups; an IPv4 address may stand for the last two.\<close>

fun read_groups :: "nat \<Rightarrow> bool \<Rightarrow> string \<Rightarrow> nat list \<times> bool \<times> string" where
  "read_groups 0 first s = ([], False, s)"
| "read_groups (Suc n) first s =
     (let after = (if first then Some s else read_given_char (CHR '':'') s)
      in case (if n > 0 then (case after of None \<Rightarrow> None | Some r \<Rightarrow> read_ipv4_addr r) else None) of
           Some (as, r) \<Rightarrow> ([as ! 0 * 256 + as ! 1, as ! 2 * 256 + as ! 3], True, r)
         | None \<Rightarrow>
             (case (case after of None \<Rightarrow> None | Some r \<Rightarrow> read_group r) of
                None \<Rightarrow> ([], False, s)
              | Some (g, r) \<Rightarrow>
                  (let (gs, v4, r') = read_groups n False r in (g # gs, v4, r'))))"

definition read_ipv6_addr :: "string \<Rightarrow> (nat list \<times> string) option" where
  "read_ipv6_addr s =
     (let (head, head_v4, r) = read_groups 8 True s
      in if length head = 8 then Some (head, r)
         else if head_v4 then None
         else (case r of
                 c # d # r' \<Rightarrow>
                   if c = CHR '':'' \<and> d = CHR '':'' then
                     (let (tail, _, r'') = read_groups (8 - (length head + 1)) True r'
                      in Some (head @ replicate (8 - length head - length tail) 0 @ tail, r''))
                   else None
               | _ \<Rightarrow> None))"

definition parse_ip_addr :: "string \<Rightarrow> ip_addr option" where
  "parse_ip_addr s =
     (case read_ipv4_addr s of
        Some (as, r) \<Rightarrow>
          if r = [] then Some (V4 (of_nat (as ! 0)) (of_nat (as ! 1)) (of_nat (as ! 2)) (of_nat (as ! 3)))
          else None
      | None \<Rightarrow>
          (case read_ipv6_addr s of
             Some (gs, r) \<Rightarrow> if r = [] then Some (V6 (map of_nat gs)) else None
           | None \<Rightarrow> None))"

fun forbidden_ip :: "ip_addr \<Rightarrow> bool" where
  "forbidden_ip (V4 a b c d) =
     (a = 10 \<or> (a = 172 \<and> 16 \<le> b \<and> b \<le> 31) \<or> (a = 192 \<and> b = 168)
      \<or> a = 127 \<or> (a = 169 \<and> b = 254) \<or> (a = 0 \<and> b = 0 \<and> c = 0 \<and> d = 0))"
| "forbidden_ip (V6 gs) =
     (gs = [0, 0, 0, 0, 0, 0, 0, 1] \<or> gs = [0, 0, 0, 0, 0, 0, 0, 0]
      \<or> and (gs ! 0) 0xFE00 = 0xFC00 \<or> and (gs ! 0) 0xFFC0 = 0xFE80)"

definition is_forbidden_fetch_target :: "url \<Rightarrow> bool" where
  "is_forbidden_fetch_target u =
     (let hostname = str_trim (unwrap_or [] (host_str u))
      in if eq_ignore_ascii_case hostname ''localhost'' then True
         else (case parse_ip_addr hostname of None \<Rightarrow> False | Some ip \<Rightarrow> forbidden_ip ip))"

definition pattern_matches :: "string \<Rightarrow> string \<Rightarrow> bool" where
  "pattern_matches hostname raw =
     (let pattern = to_ascii_lowercase (str_trim raw)
      in if pattern = [] then False
         else (case strip_prefix ''.'' pattern of
                 Some suffix \<Rightarrow> hostname = suffix \<or> ends_with hostname pattern
               | None \<Rightarrow> hostname = pattern))"

definition hostname_matches_domain_patterns :: "string \<Rightarrow> string list \<Rightarrow> bool" where
  "hostname_matches_domain_patterns raw patterns =
     (let hostname = to_ascii_lowercase (str_trim raw)
      in if hostname = [] then False else list_ex (pattern_matches hostname) patterns)"

section \<open>MIME types\<close>

definition guess_image_mime_type_from_url :: "string \<Rightarrow> string" where
  "guess_image_mime_type_from_url raw =
     (let lower = to_ascii_lowercase raw
      in if ends_with lower ''.jpg'' \<or> ends_with lower ''.jpeg'' then ''image/jpeg''
         else if ends_with lower ''.webp'' then ''image/webp''
         else if ends_with lower ''.gif'' then ''image/gif''
         else ''image/png'')"

definition normalize_image_mime_type :: "string option \<Rightarrow> string \<Rightarrow> string" where
  "normalize_image_mime_type content_type raw =
     (let normalized = to_ascii_lowercase (str_trim (hd (split_on (CHR '';'') (unwrap_or ''image/png'' content_type))))
      in if normalized = ''application/octet-stream'' \<or> normalized = []
         then guess_image_mime_type_from_url raw else normalized)"

definition sniff_image_mime_type :: "bytes \<Rightarrow> string option" where
  "sniff_image_mime_type b =
     (if starts_with b [CHR 0x89, CHR ''P'', CHR ''N'', CHR ''G'', CHR 0x0D, CHR 0x0A, CHR 0x1A, CHR 0x0A]
      then Some ''image/png''
      else if starts_with b [CHR 0xFF, CHR 0xD8, CHR 0xFF] then Some ''image/jpeg''
      else if length b \<ge> 12 \<and> take 4 b = ''RIFF'' \<and> take 4 (drop 8 b) = ''WEBP'' then Some ''image/webp''
      else if starts_with b ''GIF87a'' \<or> starts_with b ''GIF89a'' then Some ''image/gif''
      else None)"

section \<open>Download\<close>

text \<open>
  What the client returns for a GET: an error, or the status, the announced length, the
  content type when it is text, and the results of the successive \<open>chunk()\<close> calls.
\<close>

record response =
  status :: nat
  announced_length :: "u64 option"
  content_type :: "string option"
  chunks :: "(anyhow + bytes) list"

record http =
  parse_url :: "string \<Rightarrow> anyhow + url"
  get :: "url \<Rightarrow> anyhow + response"

definition is_success :: "nat \<Rightarrow> bool" where
  "is_success st \<longleftrightarrow> 200 \<le> st \<and> st < 300"

fun collect_chunks :: "nat \<Rightarrow> (anyhow + bytes) list \<Rightarrow> nat \<Rightarrow> bytes \<Rightarrow> anyhow + bytes" where
  "collect_chunks limit [] got acc = Ok acc"
| "collect_chunks limit (Inl e # cs) got acc = Err e"
| "collect_chunks limit (Inr chunk # cs) got acc =
     (let got' = got + length chunk
      in and_then (enforce_max_size got' limit) (\<lambda>_. collect_chunks limit cs got' (acc @ chunk)))"

definition check_announced :: "response \<Rightarrow> nat \<Rightarrow> anyhow + unit" where
  "check_announced resp limit =
     (case announced_length resp of None \<Rightarrow> Ok () | Some n \<Rightarrow> enforce_max_size_u64 n limit)"

definition fetch_image_as_inline_data_with_options ::
  "http \<Rightarrow> string \<Rightarrow> nat \<Rightarrow> bool \<Rightarrow> anyhow + fetched_inline_data" where
  "fetch_image_as_inline_data_with_options client raw max_image_bytes allow_private_networks =
     and_then (parse_url client raw) (\<lambda>parsed.
       if \<not> (scheme parsed = ''http'' \<or> scheme parsed = ''https'') \<or> unwrap_or [] (host_str parsed) = []
       then Err (Message ''invalid image url'')
       else if \<not> allow_private_networks \<and> is_forbidden_fetch_target parsed
       then Err (Message (''forbidden target: '' @ unwrap_or [] (host_str parsed)))
       else
         and_then (get client parsed) (\<lambda>resp.
           if \<not> is_success (status resp) then Err (ImageFetchStatus (status resp))
           else
             and_then (check_announced resp max_image_bytes) (\<lambda>_.
             and_then (collect_chunks max_image_bytes (chunks resp) 0 []) (\<lambda>b.
             Ok \<lparr>fetched_mime = normalize_image_mime_type (content_type resp) raw, fetched_bytes = b\<rparr>))))"

definition fetch_image_as_inline_data :: "http \<Rightarrow> string \<Rightarrow> nat \<Rightarrow> anyhow + fetched_inline_data" where
  "fetch_image_as_inline_data client raw max_image_bytes =
     fetch_image_as_inline_data_with_options client raw max_image_bytes False"

section \<open>Conversion\<close>

text \<open>
  The codecs: decoding of a PNG to RGB or RGBA pixels, the encoders, how long a conversion
  takes (milliseconds) and whether the blocking task panics.
\<close>

record raster =
  width :: nat
  height :: nat
  pixels :: bytes

record codec =
  load_rgb :: "bytes \<Rightarrow> anyhow + raster"
  load_rgba :: "bytes \<Rightarrow> anyhow + raster"
  jpeg_encode :: "u8 \<Rightarrow> raster \<Rightarrow> anyhow + bytes"
  webp_encode :: "raster \<Rightarrow> anyhow + bytes"
  convert_ms :: "bytes \<Rightarrow> nat"
  task_failure :: "bytes \<Rightarrow> string option"

definition maybe_compress_png_bytes_with_options ::
  "codec \<Rightarrow> bytes \<Rightarrow> string \<Rightarrow> bool \<Rightarrow> nat \<Rightarrow> u8 \<Rightarrow> anyhow + optimized_image" where
  "maybe_compress_png_bytes_with_options cd b mime enabled threshold quality =
     (let normalized_mime = to_ascii_lowercase (str_trim mime)
      in if \<not> enabled \<or> normalized_mime \<noteq> ''image/png'' \<or> length b \<le> threshold
         then Ok \<lparr>optimized_mime = normalized_mime, optimized_bytes = b\<rparr>
         else
           and_then (load_rgb cd b) (\<lambda>rgb.
             if width rgb \<ge> 2 ^ 16 then Err (Message ''image width too large'')
             else if height rgb \<ge> 2 ^ 16 then Err (Message ''image height too large'')
             else
               and_then (jpeg_encode cd quality rgb) (\<lambda>encoded.
                 if length encoded \<ge> length b
                 then Ok \<lparr>optimized_mime = normalized_mime, optimized_bytes = b\<rparr>
                 else Ok \<lparr>optimized_mime = ''image/jpeg'', optimized_bytes = encoded\<rparr>)))"

definition maybe_compress_png_bytes_with_threshold ::
  "codec \<Rightarrow> bytes \<Rightarrow> string \<Rightarrow> bool \<Rightarrow> nat \<Rightarrow> anyhow + optimized_image" where
  "maybe_compress_png_bytes_with_threshold cd b mime enabled threshold =
     maybe_compress_png_bytes_with_options cd b mime enabled threshold DEFAULT_JPEG_QUALITY"

definition maybe_compress_png_bytes :: "codec \<Rightarrow> bytes \<Rightarrow> string \<Rightarrow> bool \<Rightarrow> anyhow + optimized_image" where
  "maybe_compress_png_bytes cd b mime enabled =
     maybe_compress_png_bytes_with_options cd b mime enabled PNG_COMPRESSION_THRESHOLD_BYTES DEFAULT_JPEG_QUALITY"

definition maybe_convert_png_bytes_to_lossless_webp_with_threshold ::
  "codec \<Rightarrow> bytes \<Rightarrow> string \<Rightarrow> nat \<Rightarrow> anyhow + optimized_image" where
  "maybe_convert_png_bytes_to_lossless_webp_with_threshold cd b mime threshold =
     (let normalized_mime = to_ascii_lowercase (str_trim mime)
      in if normalized_mime \<noteq> ''image/png'' \<or> length b \<le> threshold
         then Ok \<lparr>optimized_mime = normalized_mime, optimized_bytes = b\<rparr>
         else
           and_then (load_rgba cd b) (\<lambda>rgba.
           and_then (webp_encode cd rgba) (\<lambda>encoded.
             if length encoded \<ge> length b
             then Ok \<lparr>optimized_mime = normalized_mime, optimized_bytes = b\<rparr>
             else Ok \<lparr>optimized_mime = ''image/webp'', optimized_bytes = encoded\<rparr>)))"

definition maybe_convert_large_png_to_lossless_webp_sync ::
  "codec \<Rightarrow> fetched_inline_data \<Rightarrow> anyhow + fetched_inline_data" where
  "maybe_convert_large_png_to_lossless_webp_sync cd fetched =
     and_then (maybe_convert_png_bytes_to_lossless_webp_with_threshold cd (fetched_bytes fetched)
                 (fetched_mime fetched) REQUEST_PNG_WEBP_THRESHOLD_BYTES) (\<lambda>o'.
     Ok \<lparr>fetched_mime = optimized_mime o', fetched_bytes = optimized_bytes o'\<rparr>)"

text \<open>A failed conversion falls back to the original; only a failed task is an error.\<close>

definition maybe_convert_large_png_to_lossless_webp ::
  "codec \<Rightarrow> fetched_inline_data \<Rightarrow> anyhow + fetched_inline_data" where
  "maybe_convert_large_png_to_lossless_webp cd fetched =
     (case task_failure cd (fetched_bytes fetched) of
        Some err \<Rightarrow> Err (Message (''request image optimization task failed: '' @ err))
      | None \<Rightarrow>
          (case maybe_convert_large_png_to_lossless_webp_sync cd fetched of
             Inl _ \<Rightarrow> Ok fetched
           | Inr o' \<Rightarrow> Ok o'))"

definition maybe_convert_large_png_to_lossless_webp_with_timeout ::
  "codec \<Rightarrow> fetched_inline_data \<Rightarrow> nat \<Rightarrow> anyhow + fetched_inline_data" where
  "maybe_convert_large_png_to_lossless_webp_with_timeout cd fetched timeout =
     (if timeout = 0 then maybe_convert_large_png_to_lossless_webp cd fetched
      else if convert_ms cd (fetched_bytes fetched) < timeout
      then maybe_convert_large_png_to_lossless_webp cd fetched
      else Ok fetched)"

definition fetch_image_into_blob ::
  "http \<Rightarrow> codec \<Rightarrow> string \<Rightarrow> nat \<Rightarrow> bool \<Rightarrow> runtime \<Rightarrow> (anyhow + fetched_blob) \<times> runtime" where
  "fetch_image_into_blob client cd raw max_image_bytes allow s =
     (case fetch_image_as_inline_data_with_options client raw max_image_bytes allow of
        Inl e \<Rightarrow> (Err e, s)
      | Inr fetched0 \<Rightarrow>
          (case maybe_convert_large_png_to_lossless_webp_with_timeout cd fetched0 REQUEST_PNG_WEBP_OPTIMIZATION_TIMEOUT of
             Inl e \<Rightarrow> (Err e, s)
           | Inr fetched \<Rightarrow>
               (case store_shared_bytes (fetched_bytes fetched) (fetched_mime fetched) s of
                  (Inl e, s') \<Rightarrow> (Err e, s')
                | (Inr h, s') \<Rightarrow> (Ok \<lparr>blob_mime = fetched_mime fetched, blob_ref = h\<rparr>, s'))))"

section \<open>Lemmas\<close>

lemma enforce_max_size_Ok [simp]: "enforce_max_size a l = Ok u \<longleftrightarrow> a \<le> l"
  by (auto simp: enforce_max_size_def)

lemma check_announced_Ok: "check_announced r l = Ok u \<longleftrightarrow> (\<forall>n. announced_length r = Some n \<longrightarrow> unat n \<le> l)"
  by (auto simp: check_announced_def enforce_max_size_u64_def split: option.splits)

lemma collect_chunks_Ok:
  "collect_chunks limit cs got acc = Ok b \<Longrightarrow> length acc = got \<Longrightarrow> got \<le> limit \<Longrightarrow>
     length b \<le> limit \<and> (\<exists>ds. cs = map Inr ds \<and> b = acc @ concat ds)"
proof (induction limit cs got acc rule: collect_chunks.induct)
  case (3 limit chunk cs got acc)
  then have le: "got + length chunk \<le> limit" by (auto simp: Let_def and_then_eq_Ok)
  with 3 have rest: "collect_chunks limit cs (got + length chunk) (acc @ chunk) = Ok b"
    by (auto simp: Let_def and_then_eq_Ok)
  from 3(1) [OF refl rest] le 3(3) obtain ds where "length b \<le> limit" "cs = map Inr ds" "b = (acc @ chunk) @ concat ds"
    by auto
  then have "length b \<le> limit \<and> Inr chunk # cs = map Inr (chunk # ds) \<and> b = acc @ concat (chunk # ds)"
    by simp
  then show ?case by metis
qed auto

lemma fetch_Ok:
  assumes "fetch_image_as_inline_data_with_options client raw limit allow = Ok d"
  obtains u r ds where "parse_url client raw = Ok u" "scheme u = ''http'' \<or> scheme u = ''https''"
    "allow \<or> \<not> is_forbidden_fetch_target u" "get client u = Ok r" "is_success (status r)"
    "chunks r = map Inr ds" "fetched_bytes d = concat ds" "length (concat ds) \<le> limit"
    "\<And>n. announced_length r = Some n \<Longrightarrow> unat n \<le> limit"
    "fetched_mime d = normalize_image_mime_type (content_type r) raw"
proof -
  from assms obtain u where u: "parse_url client raw = Ok u" "scheme u = ''http'' \<or> scheme u = ''https''"
    "allow \<or> \<not> is_forbidden_fetch_target u"
    and r': "\<exists>r. get client u = Ok r \<and> is_success (status r)
      \<and> (\<forall>n. announced_length r = Some n \<longrightarrow> unat n \<le> limit)
      \<and> (\<exists>b. collect_chunks limit (chunks r) 0 [] = Ok b \<and>
           d = \<lparr>fetched_mime = normalize_image_mime_type (content_type r) raw, fetched_bytes = b\<rparr>)"
    unfolding fetch_image_as_inline_data_with_options_def
    by (auto simp: and_then_eq_Ok check_announced_Ok split: if_splits)
  from r' obtain r b where r: "get client u = Ok r" "is_success (status r)"
    "\<forall>n. announced_length r = Some n \<longrightarrow> unat n \<le> limit"
    "collect_chunks limit (chunks r) 0 [] = Ok b"
    "d = \<lparr>fetched_mime = normalize_image_mime_type (content_type r) raw, fetched_bytes = b\<rparr>"
    by blast
  from collect_chunks_Ok [OF r(4)] obtain ds where "chunks r = map Inr ds" "b = concat ds" "length b \<le> limit"
    by auto
  with u r that show ?thesis by (metis fetched_inline_data.select_convs not_le)
qed

subsection \<open>Dotted addresses\<close>

definition dotted :: "nat \<Rightarrow> nat \<Rightarrow> nat \<Rightarrow> nat \<Rightarrow> string" where
  "dotted a b c d = show_nat a @ ''.'' @ show_nat b @ ''.'' @ show_nat c @ ''.'' @ show_nat d"

lemma length_show_nat: "n < 1000 \<Longrightarrow> length (show_nat n) \<le> 3"
proof -
  assume "n < 1000"
  then have "n div 10 < 100" "n div 10 div 10 < 10" by auto
  then show ?thesis
    by (cases "n < 10"; cases "n div 10 < 10")
      (simp_all add: show_nat.simps [of n] show_nat.simps [of "n div 10"] show_nat.simps [of "n div 10 div 10"])
qed

lemma show_nat_zero_prefix: "hd (show_nat n) = CHR ''0'' \<Longrightarrow> length (show_nat n) = 1"
proof -
  assume "hd (show_nat n) = CHR ''0''"
  then have "n = 0"
  proof (induction n rule: show_nat.induct)
    case (1 n)
    show ?case
    proof (cases "n < 10")
      case True
      with 1 have "(of_char (char_of (48 + n) :: char) :: nat) = of_char (CHR ''0'')"
        by (simp add: show_nat.simps [of n])
      with True show ?thesis by simp
    qed (use 1 in \<open>simp add: show_nat.simps [of n] hd_append\<close>)
  qed
  then show ?thesis by (simp add: show_nat.simps [of 0])
qed

lemma read_octet_show_nat:
  assumes "n < 256" "r = [] \<or> digit_val (hd r) = None"
  shows "read_octet (show_nat n @ r) = Some (n, r)"
proof -
  have d: "\<forall>c \<in> set (show_nat n). digit_val c \<noteq> None" using show_nat_digits by blast
  have "takeWhile (\<lambda>c. digit_val c \<noteq> None) (show_nat n @ r) = show_nat n"
    "dropWhile (\<lambda>c. digit_val c \<noteq> None) (show_nat n @ r) = r"
    using d assms(2) by (cases r; auto simp: takeWhile_append dropWhile_append)+
  then show ?thesis
    using length_show_nat [of n] show_nat_zero_prefix [of n] assms(1)
    by (auto simp: read_octet_def digits_val_show_nat Let_def)
qed

lemma digit_val_dot [simp]: "digit_val (CHR ''.'') = None"
  by (simp add: digit_val_def)

lemma read_ipv4_dotted:
  assumes "a < 256" "b < 256" "c < 256" "d < 256"
  shows "read_ipv4_addr (dotted a b c d) = Some ([a, b, c, d], [])"
  using assms read_octet_show_nat [of d "[]"]
  by (simp add: read_ipv4_addr_def dotted_def numeral_eq_Suc read_octet_show_nat read_given_char_def)

lemma graphic_digit: "digit_val c \<noteq> None \<Longrightarrow> graphic c"
  by (auto simp: digit_val_def graphic_def Let_def split: if_splits)

lemma graphic_dotted: "list_all graphic (dotted a b c d)"
proof -
  have "list_all graphic (show_nat n)" for n
    using show_nat_digits graphic_digit unfolding list_all_iff by blast
  moreover have "graphic (CHR ''.'')" by (simp add: graphic_def)
  ultimately show ?thesis by (simp add: dotted_def)
qed

lemma dotted_not_localhost: "\<not> eq_ignore_ascii_case (dotted a b c d) ''localhost''"
proof
  assume "eq_ignore_ascii_case (dotted a b c d) ''localhost''"
  then have l: "to_ascii_lowercase (dotted a b c d) = to_ascii_lowercase ''localhost''"
    by (simp add: eq_ignore_ascii_case_def)
  obtain x xs where x: "show_nat a = x # xs" by (cases "show_nat a") auto
  then have "digit_val x \<noteq> None" using show_nat_digits [of x a] by simp
  moreover have "ascii_lower x = ascii_lower (CHR ''l'')"
    using l x by (simp add: dotted_def to_ascii_lowercase_def)
  ultimately show False
    by (auto simp: digit_val_def ascii_lower_def Let_def split: if_splits)
qed

subsection \<open>Bracketed literals\<close>

lemma bracket_not_address: "parse_ip_addr (CHR ''['' # s) = None"
proof -
  have d: "digit_val (CHR ''['') = None" "hex_val (CHR ''['') = None"
    by (simp_all add: digit_val_def hex_val_def)
  then have "read_ipv4_addr (CHR ''['' # s) = None"
    by (simp add: read_ipv4_addr_def numeral_eq_Suc read_octet_def)
  moreover have "read_groups 8 True (CHR ''['' # s) = ([], False, CHR ''['' # s)"
    using d calculation by (simp add: numeral_eq_Suc read_group_def)
  ultimately show ?thesis by (cases s) (simp_all add: parse_ip_addr_def read_ipv6_addr_def)
qed

section \<open>Properties\<close>

text \<open>
  C27: A successful download came from an http(s) URL that the guard admits (unless private
  networks are allowed), carries exactly the bytes of the response's chunks, and is never
  longer than the limit, whatever length the server announced.
\<close>

theorem fetch_image_bounded:
  assumes "fetch_image_as_inline_data_with_options client raw limit allow = Ok d"
  shows "length (fetched_bytes d) \<le> limit
    \<and> (\<exists>u r ds. parse_url client raw = Ok u \<and> (scheme u = ''http'' \<or> scheme u = ''https'')
         \<and> (allow \<or> \<not> is_forbidden_fetch_target u)
         \<and> get client u = Ok r \<and> is_success (status r)
         \<and> chunks r = map Inr ds \<and> fetched_bytes d = concat ds)"
  using assms by (elim fetch_Ok) auto

definition demo_http :: "string \<Rightarrow> http" where
  "demo_http h =
     \<lparr>parse_url = (\<lambda>_. Ok \<lparr>scheme = ''http'', host_str = Some h, port = None, url_path = ''/a'', url_query = None, url_fragment = None\<rparr>),
      get = (\<lambda>_. Ok \<lparr>status = 200, announced_length = Some 2, content_type = None, chunks = [Inr ''ab'', Inr ''c'']\<rparr>)\<rparr>"

theorem fetch_image_bounded_witness:
  "\<exists>d. fetch_image_as_inline_data_with_options (demo_http ''a.b'') ''http://a.b/a'' 3 False = Ok d
     \<and> length (fetched_bytes d) \<le> 3"
proof -
  have "fetch_image_as_inline_data_with_options (demo_http ''a.b'') ''http://a.b/a'' 3 False
      = Ok \<lparr>fetched_mime = ''image/png'', fetched_bytes = ''abc''\<rparr>" by code_simp
  from fetch_image_bounded [OF this] this show ?thesis by blast
qed

text \<open>
  The guard is exact on dotted IPv4 hosts: of the 2 ^ 32 addresses, written in the usual
  decimal form, it refuses those in 10/8, 172.16/12, 192.168/16, 127/8, 169.254/16 and the
  unspecified address, and admits all others.
\<close>

theorem forbidden_ipv4_exact:
  assumes "a < 256" "b < 256" "c < 256" "d < 256" "host_str u = Some (dotted a b c d)"
  shows "is_forbidden_fetch_target u \<longleftrightarrow>
    a = 10 \<or> (a = 172 \<and> 16 \<le> b \<and> b \<le> 31) \<or> (a = 192 \<and> b = 168)
    \<or> a = 127 \<or> (a = 169 \<and> b = 254) \<or> (a = 0 \<and> b = 0 \<and> c = 0 \<and> d = 0)"
proof -
  have u: "unat (of_nat n :: u8) = n" if "n < 256" for n
    using that by (simp add: unat_of_nat)
  have "(of_nat n :: u8) = w \<longleftrightarrow> n = unat w" if "n < 256" for n w
    using u [OF that] by (simp only: word_unat_eq_iff)
  then show ?thesis
    using assms u str_trim_graphic [OF graphic_dotted, of a b c d] dotted_not_localhost [of a b c d]
    by (simp add: is_forbidden_fetch_target_def parse_ip_addr_def read_ipv4_dotted word_le_nat_alt)
qed

theorem forbidden_ipv4_exact_witness:
  "is_forbidden_fetch_target
     \<lparr>scheme = ''http'', host_str = Some (dotted 172 20 0 1), port = None, url_path = ''/'', url_query = None, url_fragment = None\<rparr>"
  using forbidden_ipv4_exact [of 172 20 0 1
    "\<lparr>scheme = ''http'', host_str = Some (dotted 172 20 0 1), port = None, url_path = ''/'', url_query = None, url_fragment = None\<rparr>"]
  by simp

text \<open>
  C34: The guard's IPv6 branch is never reached for a parsed URL: \<open>Url::host_str\<close> writes an
  IPv6 host in brackets, the address parser rejects every such text, and the guard admits
  the host, the loopback address included.
\<close>

theorem ipv6_literal_admitted:
  assumes "host_str u = Some (CHR ''['' # s @ '']'')" "list_all graphic s"
  shows "\<not> is_forbidden_fetch_target u"
proof -
  have "list_all graphic (CHR ''['' # s @ '']'')" using assms(2) by (simp add: graphic_def)
  then have "str_trim (CHR ''['' # s @ '']'') = CHR ''['' # s @ '']''" by (rule str_trim_graphic)
  moreover have "\<not> eq_ignore_ascii_case (CHR ''['' # s @ '']'') ''localhost''"
    by (simp add: eq_ignore_ascii_case_def to_ascii_lowercase_def ascii_lower_def Let_def)
  ultimately show ?thesis
    using assms(1) by (simp add: is_forbidden_fetch_target_def bracket_not_address)
qed

theorem ipv6_literal_admitted_witness:
  "\<not> is_forbidden_fetch_target
     \<lparr>scheme = ''http'', host_str = Some ''[::1]'', port = None, url_path = ''/'', url_query = None, url_fragment = None\<rparr>
   \<and> parse_ip_addr ''::1'' = Some (V6 [0, 0, 0, 0, 0, 0, 0, 1]) \<and> forbidden_ip (V6 [0, 0, 0, 0, 0, 0, 0, 1])"
proof -
  have "parse_ip_addr ''::1'' = Some (V6 [0, 0, 0, 0, 0, 0, 0, 1])" by code_simp
  then show ?thesis
    using ipv6_literal_admitted [of "\<lparr>scheme = ''http'', host_str = Some ''[::1]'', port = None, url_path = ''/'', url_query = None, url_fragment = None\<rparr>" "''::1''"]
    by (simp add: graphic_def)
qed

text \<open>
  Recompression never makes an image larger, keeps bytes and normalised MIME type
  together when it declines, and changes the type to JPEG only for an enabled PNG above the
  threshold whose encoding is strictly smaller.
\<close>

theorem compress_never_grows:
  assumes "maybe_compress_png_bytes_with_options cd b mime enabled threshold quality = Ok r"
  shows "length (optimized_bytes r) \<le> length b
    \<and> (optimized_bytes r \<noteq> b \<longrightarrow> optimized_mime r = ''image/jpeg'' \<and> enabled
         \<and> to_ascii_lowercase (str_trim mime) = ''image/png'' \<and> threshold < length b
         \<and> length (optimized_bytes r) < length b)
    \<and> (optimized_bytes r = b \<longrightarrow> optimized_mime r = to_ascii_lowercase (str_trim mime))"
  using assms
  by (auto simp: maybe_compress_png_bytes_with_options_def Let_def and_then_eq_Ok split: if_splits)

definition demo_codec :: codec where
  "demo_codec =
     \<lparr>load_rgb = (\<lambda>b. Ok \<lparr>width = 1, height = 1, pixels = b\<rparr>), load_rgba = (\<lambda>b. Ok \<lparr>width = 1, height = 1, pixels = b\<rparr>),
      jpeg_encode = (\<lambda>q r. Ok (take 2 (pixels r))), webp_encode = (\<lambda>r. Ok (take 2 (pixels r))),
      convert_ms = (\<lambda>_. 1), task_failure = (\<lambda>_. None)\<rparr>"

theorem compress_never_grows_witness:
  "\<exists>r. maybe_compress_png_bytes_with_options demo_codec ''abcd'' ''image/png '' True 1 97 = Ok r
     \<and> length (optimized_bytes r) \<le> 4 \<and> optimized_mime r = ''image/jpeg''"
proof -
  have t: "to_ascii_lowercase (str_trim ''image/png '') = ''image/png''" by code_simp
  have e: "maybe_compress_png_bytes_with_options demo_codec ''abcd'' ''image/png '' True 1 97
      = Ok \<lparr>optimized_mime = ''image/jpeg'', optimized_bytes = ''ab''\<rparr>"
    by (simp add: maybe_compress_png_bytes_with_options_def t demo_codec_def)
  from compress_never_grows [OF e] e show ?thesis by simp
qed

text \<open>
  A domain pattern with a leading dot matches the domain itself and its subdomains and
  nothing else; without a dot it matches only the host itself.  Case and surrounding white
  space do not matter, and blank patterns match nothing.
\<close>

theorem pattern_semantics:
  "hostname_matches_domain_patterns host patterns \<longleftrightarrow>
     (let h = to_ascii_lowercase (str_trim host)
      in h \<noteq> [] \<and> (\<exists>raw \<in> set patterns. let p = to_ascii_lowercase (str_trim raw)
           in p \<noteq> [] \<and> (h = p \<and> hd p \<noteq> CHR ''.''
                \<or> (\<exists>d. p = CHR ''.'' # d \<and> (h = d \<or> (\<exists>sub. h = sub @ CHR ''.'' # d))))))"
proof -
  have hit: "(case strip_prefix ''.'' (c # d) of
        Some suffix \<Rightarrow> h = suffix \<or> ends_with h (c # d) | None \<Rightarrow> h = c # d) \<longleftrightarrow>
      h = c # d \<and> c \<noteq> CHR ''.'' \<or> (c = CHR ''.'' \<and> (h = d \<or> (\<exists>sub. h = sub @ CHR ''.'' # d)))" for h c d
    by (cases "c = CHR ''.''") (simp_all add: strip_prefix_def starts_with_def ends_with_iff)
  have "pattern_matches h raw \<longleftrightarrow> (let p = to_ascii_lowercase (str_trim raw)
      in p \<noteq> [] \<and> (h = p \<and> hd p \<noteq> CHR ''.''
           \<or> (\<exists>d. p = CHR ''.'' # d \<and> (h = d \<or> (\<exists>sub. h = sub @ CHR ''.'' # d)))))" for h raw
  proof (cases "to_ascii_lowercase (str_trim raw)")
    case (Cons c d)
    then show ?thesis unfolding pattern_matches_def Let_def Cons using hit by simp
  qed (simp add: pattern_matches_def)
  then show ?thesis
    by (simp add: hostname_matches_domain_patterns_def Let_def list_ex_iff)
qed

end
