(* ===== verification/Fetch_Service.thy ===== *)
theory Fetch_Service
  imports Disk_Cache Image_Io
begin

text \<open>
  The caching image fetcher (\<open>InlineDataUrlFetchService\<close> in rust-sync-proxy/src/cache.rs): the
  two-level cache lookup, the download with one retry and a total timeout, and the
  single-flight map of running downloads that callers join.

  The sequential parts are functions; time is given by how long an attempt takes.  The shared
  map is the step relation \<open>flight_step\<close>, whose steps are the accesses the code makes under
  the lock: a caller joins or spawns a task, the task publishes, unlinks itself and fills the
  caches, and a caller that leaves may abort the task.  An aborted task stops at an await
  point of its choice, so its remaining steps stay possible.

  Shown here: a download makes at most two attempts and retries only the errors it may, a
  stored image is served from the cache, and with the background bridge each URL has at most
  one running download and the limit on downloads holds in every reachable state; without the
  bridge a race breaks both.
\<close>

section \<open>Errors and retries\<close>

text \<open>The message of the total timeout, in UTF-8.\<close>

definition fetch_timeout_text :: string where
  "fetch_timeout_text = ''inlineData '' @
     [CHR 0xE5, CHR 0x9B, CHR 0xBE, CHR 0xE7, CHR 0x89, CHR 0x87, CHR 0xE6, CHR 0x8A, CHR 0x93,
      CHR 0xE5, CHR 0x8F, CHR 0x96, CHR 0xE8, CHR 0xB6, CHR 0x85, CHR 0xE6, CHR 0x97, CHR 0xB6]"

fun should_retry_fetch_error :: "anyhow \<Rightarrow> bool" where
  "should_retry_fetch_error (Message t) = False"
| "should_retry_fetch_error (ImageFetchStatus st) =
     (st = 408 \<or> st = 425 \<or> st = 429 \<or> st = 500 \<or> st = 502 \<or> st = 503 \<or> st = 504)"
| "should_retry_fetch_error (Reqwest e) =
     (if reqwest_text e = fetch_timeout_text then False
      else if is_body e \<or> is_decode e then False
      else is_connect e \<or> is_request e)"
| "should_retry_fetch_error (WaitTimeout w t) = False"
| "should_retry_fetch_error (Structured a b c d) = False"

record fetch_service =
  svc_max_image_bytes :: nat
  svc_allow_private_networks :: bool
  optimize_large_png_as_webp :: bool
  external_proxy_domains :: "string list"
  wait_timeout :: nat
  total_timeout :: nat
  max_inflight :: nat
  enable_background_bridge :: bool

text \<open>
  The world a download sees: the network at each attempt, how long the attempt's pipeline
  takes, the codecs, and the form encoding of the \<open>url\<close> crate.
\<close>

record fetch_world =
  network :: "nat \<Rightarrow> http"
  pipeline_ms :: "nat \<Rightarrow> nat"
  codecs :: codec
  byte_serialize :: "string \<Rightarrow> string"

definition EXTERNAL_IMAGE_FETCH_PROXY_PREFIX :: string where
  "EXTERNAL_IMAGE_FETCH_PROXY_PREFIX = ''https://gemini.xinbaoai.com/proxy/image?url=''"

definition maybe_wrap_external_proxy_url :: "http \<Rightarrow> (string \<Rightarrow> string) \<Rightarrow> string \<Rightarrow> string list \<Rightarrow> anyhow + string" where
  "maybe_wrap_external_proxy_url client form raw patterns =
     (if patterns = [] then Ok raw
      else and_then (parse_url client raw) (\<lambda>parsed.
        if \<not> hostname_matches_domain_patterns (unwrap_or [] (host_str parsed)) patterns then Ok raw
        else Ok (EXTERNAL_IMAGE_FETCH_PROXY_PREFIX @ form raw)))"

definition fetch_and_optimize_with_total_timeout ::
  "nat \<Rightarrow> nat \<Rightarrow> anyhow + fetched_inline_data \<Rightarrow> (fetched_inline_data \<Rightarrow> anyhow + fetched_inline_data)
   \<Rightarrow> anyhow + fetched_inline_data" where
  "fetch_and_optimize_with_total_timeout total_ms elapsed_ms fetch_future optimize =
     (let pipeline = and_then fetch_future optimize
      in if total_ms = 0 then pipeline
         else if elapsed_ms < total_ms then pipeline
         else Err (Message fetch_timeout_text))"

definition fetch_once :: "fetch_service \<Rightarrow> fetch_world \<Rightarrow> nat \<Rightarrow> string \<Rightarrow> anyhow + fetched_inline_data" where
  "fetch_once svc w attempt fetch_url =
     fetch_and_optimize_with_total_timeout (total_timeout svc) (pipeline_ms w attempt)
       (fetch_image_as_inline_data_with_options (network w attempt) fetch_url
          (svc_max_image_bytes svc) (svc_allow_private_networks svc))
       (\<lambda>fetched.
          if optimize_large_png_as_webp svc
          then maybe_convert_large_png_to_lossless_webp_with_timeout (codecs w) fetched REQUEST_PNG_WEBP_OPTIMIZATION_TIMEOUT
          else Ok fetched)"

text \<open>\<open>for attempt in 0..2\<close>; the second component counts the attempts made.\<close>

fun attempt_loop :: "fetch_service \<Rightarrow> fetch_world \<Rightarrow> string \<Rightarrow> nat list \<Rightarrow> (anyhow + fetched_inline_data) \<times> nat" where
  "attempt_loop svc w fetch_url [] =
     (Err (Message ''image fetch retry loop must return within bounded attempts''), 0)"
| "attempt_loop svc w fetch_url (attempt # rest) =
     (case fetch_once svc w attempt fetch_url of
        Inr fetched \<Rightarrow> (Ok fetched, 1)
      | Inl err \<Rightarrow>
          if attempt = 0 \<and> should_retry_fetch_error err
          then (let (r, n) = attempt_loop svc w fetch_url rest in (r, n + 1))
          else (Err err, 1))"

definition direct_fetch :: "fetch_service \<Rightarrow> fetch_world \<Rightarrow> string \<Rightarrow> (anyhow + fetched_inline_data) \<times> nat" where
  "direct_fetch svc w raw =
     (case maybe_wrap_external_proxy_url (network w 0) (byte_serialize w) raw (external_proxy_domains svc) of
        Inl e \<Rightarrow> (Err e, 0)
      | Inr fetch_url \<Rightarrow> attempt_loop svc w fetch_url [0, 1])"

section \<open>The caches\<close>

record fetch_result =
  result_mime :: string
  result_bytes :: bytes
  from_cache :: bool

record 'c caches =
  memory :: "'c memory_cache option"
  disk_part :: "(disk_cache \<times> disk) option"

definition hit_result :: "cached_inline_data \<Rightarrow> fetch_result" where
  "hit_result hit = \<lparr>result_mime = cached_mime hit, result_bytes = cached_bytes hit, from_cache = True\<rparr>"

text \<open>The lookups at the start of \<open>fetch\<close>; the outer option is the eviction loop's.\<close>

definition memory_lookup :: "'c lru_ops \<Rightarrow> string \<Rightarrow> 'c caches \<Rightarrow> cached_inline_data option \<times> 'c caches" where
  "memory_lookup L raw k =
     (case memory k of
        None \<Rightarrow> (None, k)
      | Some m \<Rightarrow> (let (r, m') = memory_get L raw m in (r, k\<lparr>memory := Some m'\<rparr>)))"

definition memory_store :: "'c lru_ops \<Rightarrow> string \<Rightarrow> cached_inline_data \<Rightarrow> 'c caches \<Rightarrow> 'c caches option" where
  "memory_store L raw hit k =
     (case memory k of
        None \<Rightarrow> Some k
      | Some m \<Rightarrow> map_option (\<lambda>m'. k\<lparr>memory := Some m'\<rparr>) (memory_set L raw hit m))"

definition fetch_cached :: "'c lru_ops \<Rightarrow> disk_env \<Rightarrow> string \<Rightarrow> 'c caches
    \<Rightarrow> ((anyhow + fetch_result option) \<times> 'c caches) option" where
  "fetch_cached L env raw k =
     (case memory_lookup L raw k of
        (Some hit, k1) \<Rightarrow> Some (Ok (Some (hit_result hit)), k1)
      | (None, k1) \<Rightarrow>
          (case disk_part k1 of
             None \<Rightarrow> Some (Ok None, k1)
           | Some (dc, d) \<Rightarrow>
               (case disk_get env raw d of
                  (Inl e, d') \<Rightarrow> Some (Err e, k1\<lparr>disk_part := Some (dc, d')\<rparr>)
                | (Inr None, d') \<Rightarrow> Some (Ok None, k1\<lparr>disk_part := Some (dc, d')\<rparr>)
                | (Inr (Some hit), d') \<Rightarrow>
                    map_option (\<lambda>k2. (Ok (Some (hit_result hit)), k2))
                      (memory_store L raw hit (k1\<lparr>disk_part := Some (dc, d')\<rparr>)))))"

definition store_in_caches :: "'c lru_ops \<Rightarrow> disk_env \<Rightarrow> string \<Rightarrow> cached_inline_data \<Rightarrow> 'c caches \<Rightarrow> 'c caches option" where
  "store_in_caches L env raw hit k =
     map_option (\<lambda>k1.
       case disk_part k1 of
         None \<Rightarrow> k1
       | Some (dc, d) \<Rightarrow> k1\<lparr>disk_part := Some (dc, snd (disk_set env dc raw hit d))\<rparr>)
     (memory_store L raw hit k)"

section \<open>Waiting for a task\<close>

definition published_result :: "(string + cached_inline_data) option \<Rightarrow> anyhow + fetch_result option" where
  "published_result slot =
     (case slot of
        Some (Inr hit) \<Rightarrow> Ok (Some \<lparr>result_mime = cached_mime hit, result_bytes = cached_bytes hit, from_cache = False\<rparr>)
      | Some (Inl message) \<Rightarrow> Err (Message message)
      | None \<Rightarrow> Ok None)"

definition finished_or :: "anyhow \<Rightarrow> (string + cached_inline_data) option \<Rightarrow> anyhow + fetch_result" where
  "finished_or e slot = and_then (published_result slot) (\<lambda>r. ok_or e r)"

text \<open>
  \<open>before\<close> is the slot at the first look, \<open>notified\<close> whether the notification came in time
  (without the bridge there is no limit, so the caller goes on only once it came), \<open>after\<close> the
  slot at the second look.
\<close>

definition wait_for_task :: "fetch_service \<Rightarrow> (string + cached_inline_data) option \<Rightarrow> bool
    \<Rightarrow> (string + cached_inline_data) option \<Rightarrow> anyhow + fetch_result" where
  "wait_for_task svc before notified after =
     and_then (published_result before) (\<lambda>r.
       case r of
         Some result \<Rightarrow> Ok result
       | None \<Rightarrow>
           (let wait = (if wait_timeout svc = 0 then total_timeout svc else wait_timeout svc);
                no_result = Message ''background fetch finished without result''
            in if \<not> enable_background_bridge svc then finished_or no_result after
               else if \<not> notified then finished_or (WaitTimeout wait (total_timeout svc)) after
               else finished_or no_result after))"

section \<open>Single flight\<close>

datatype phase = Fetching | Published | Unlinked

record fetch_task =
  task_url :: string
  phase :: phase
  task_result :: "(string + cached_inline_data) option"
  waiter_count :: nat
  aborted :: bool

record flights =
  inflight :: "string \<Rightarrow> nat option"
  tasks :: "fetch_task list"

definition set_task :: "nat \<Rightarrow> fetch_task \<Rightarrow> flights \<Rightarrow> flights" where
  "set_task t x s = s\<lparr>tasks := (tasks s)[t := x]\<rparr>"

definition unlink :: "string \<Rightarrow> flights \<Rightarrow> flights" where
  "unlink url s = s\<lparr>inflight := (inflight s)(url := None)\<rparr>"

text \<open>\<open>inflight.insert\<close> of a new task, under the lock and after the limit was checked.\<close>

definition spawn :: "string \<Rightarrow> flights \<Rightarrow> flights" where
  "spawn url s = s\<lparr>inflight := (inflight s)(url \<mapsto> length (tasks s)),
     tasks := tasks s @ [\<lparr>task_url = url, phase = Fetching, task_result = None, waiter_count = 0, aborted = False\<rparr>]\<rparr>"

text \<open>Dropping a \<open>FetchTaskWaiter\<close>.\<close>

definition drop_waiter :: "fetch_service \<Rightarrow> nat \<Rightarrow> flights \<Rightarrow> flights" where
  "drop_waiter svc t s =
     (let x = tasks s ! t;
          previous = waiter_count x;
          s1 = set_task t (x\<lparr>waiter_count := previous - 1\<rparr>) s
      in if previous \<noteq> 1 \<or> enable_background_bridge svc then s1
         else
           (let s2 = set_task t (x\<lparr>waiter_count := previous - 1, aborted := True\<rparr>) s
            in if inflight s2 (task_url x) = Some t then unlink (task_url x) s2 else s2))"

inductive flight_step :: "fetch_service \<Rightarrow> flights \<Rightarrow> flights \<Rightarrow> bool" for svc where
  start: "inflight s url = None \<Longrightarrow> card (dom (inflight s)) < max_inflight svc
    \<Longrightarrow> flight_step svc s (spawn url s)"
| wait: "t < length (tasks s) \<Longrightarrow> x = tasks s ! t
    \<Longrightarrow> flight_step svc s (set_task t (x\<lparr>waiter_count := waiter_count x + 1\<rparr>) s)"
| publish: "t < length (tasks s) \<Longrightarrow> x = tasks s ! t \<Longrightarrow> phase x = Fetching
    \<Longrightarrow> flight_step svc s (set_task t (x\<lparr>phase := Published, task_result := Some r\<rparr>) s)"
| finish: "t < length (tasks s) \<Longrightarrow> x = tasks s ! t \<Longrightarrow> phase x = Published
    \<Longrightarrow> flight_step svc s (unlink (task_url x) (set_task t (x\<lparr>phase := Unlinked\<rparr>) s))"
| leave: "t < length (tasks s) \<Longrightarrow> 0 < waiter_count (tasks s ! t)
    \<Longrightarrow> flight_step svc s (drop_waiter svc t s)"

definition no_flights :: flights where
  "no_flights = \<lparr>inflight = Map.empty, tasks = []\<rparr>"

text \<open>A download that is under way and that nobody cancelled.\<close>

definition live :: "fetch_task \<Rightarrow> bool" where
  "live x \<longleftrightarrow> phase x = Fetching \<and> \<not> aborted x"

definition live_tasks :: "flights \<Rightarrow> nat set" where
  "live_tasks s = {t. t < length (tasks s) \<and> live (tasks s ! t)}"

subsection \<open>With the background bridge\<close>

definition flight_inv :: "fetch_service \<Rightarrow> flights \<Rightarrow> bool" where
  "flight_inv svc s \<longleftrightarrow>
     finite (dom (inflight s)) \<and> card (dom (inflight s)) \<le> max_inflight svc
   \<and> (\<forall>url t. inflight s url = Some t \<longrightarrow> t < length (tasks s) \<and> task_url (tasks s ! t) = url)
   \<and> (\<forall>t < length (tasks s). phase (tasks s ! t) \<noteq> Unlinked \<longrightarrow> inflight s (task_url (tasks s ! t)) = Some t)"

lemma set_task_sel [simp]:
  "inflight (set_task t x s) = inflight s" "length (tasks (set_task t x s)) = length (tasks s)"
  "t' < length (tasks s) \<Longrightarrow> tasks (set_task t x s) ! t' = (if t' = t then x else tasks s ! t')"
  by (auto simp: set_task_def)

lemma unlink_sel [simp]: "inflight (unlink u s) = (inflight s)(u := None)" "tasks (unlink u s) = tasks s"
  by (simp_all add: unlink_def)

lemma flight_inv_set_task:
  assumes "flight_inv svc s" "t < length (tasks s)" "task_url x = task_url (tasks s ! t)"
    and "phase (tasks s ! t) = Unlinked \<longrightarrow> phase x = Unlinked"
  shows "flight_inv svc (set_task t x s)"
  using assms by (auto simp: flight_inv_def)

lemma flight_inv_finish:
  assumes inv: "flight_inv svc s" and t: "t < length (tasks s)" "phase (tasks s ! t) = Published"
  shows "flight_inv svc (unlink (task_url (tasks s ! t)) (set_task t ((tasks s ! t)\<lparr>phase := Unlinked\<rparr>) s))"
proof -
  let ?u = "task_url (tasks s ! t)"
  have own: "inflight s ?u = Some t" using inv t by (simp add: flight_inv_def)
  have "dom ((inflight s)(?u := None)) \<subseteq> dom (inflight s)" by auto
  then have "card (dom ((inflight s)(?u := None))) \<le> max_inflight svc" "finite (dom ((inflight s)(?u := None)))"
    using inv card_mono [of "dom (inflight s)" "dom ((inflight s)(?u := None))"]
    by (simp_all add: flight_inv_def)
  moreover have "inflight s (task_url (tasks s ! t')) = Some t' \<and> task_url (tasks s ! t') \<noteq> ?u"
    if "t' < length (tasks s)" "t' \<noteq> t" "phase (tasks s ! t') \<noteq> Unlinked" for t'
  proof -
    have o': "inflight s (task_url (tasks s ! t')) = Some t'" using that inv by (simp add: flight_inv_def)
    with own that(2) show ?thesis by auto
  qed
  moreover have "t' < length (tasks s) \<and> task_url (tasks s ! t') = u" if "inflight s u = Some t'" for u t'
    using that inv by (simp add: flight_inv_def)
  ultimately show ?thesis unfolding flight_inv_def by (simp, blast)
qed

lemma flight_inv_spawn:
  assumes inv: "flight_inv svc s" and free: "inflight s url = None" "card (dom (inflight s)) < max_inflight svc"
  shows "flight_inv svc (spawn url s)"
proof -
  let ?s = "spawn url s" and ?n = "length (tasks s)"
  have sel: "inflight ?s = (inflight s)(url \<mapsto> ?n)" "length (tasks ?s) = Suc ?n"
    "task_url (tasks ?s ! ?n) = url" "\<And>t. t < ?n \<Longrightarrow> tasks ?s ! t = tasks s ! t"
    by (simp_all add: spawn_def nth_append)
  have "finite (dom (inflight ?s))" "card (dom (inflight ?s)) \<le> max_inflight svc"
    using inv free by (simp_all add: flight_inv_def sel card_insert_if)
  moreover have "t < length (tasks ?s) \<and> task_url (tasks ?s ! t) = u" if "inflight ?s u = Some t" for u t
  proof (cases "u = url")
    case False
    with that have "t < ?n" "task_url (tasks s ! t) = u" using inv by (simp_all add: sel flight_inv_def)
    then show ?thesis by (simp add: sel)
  qed (use that sel(3) in \<open>auto simp: sel(1,2)\<close>)
  moreover have "inflight ?s (task_url (tasks ?s ! t)) = Some t"
    if t: "t < length (tasks ?s)" "phase (tasks ?s ! t) \<noteq> Unlinked" for t
  proof (cases "t = ?n")
    case False
    then have "t < ?n" using t sel by simp
    with t have "inflight s (task_url (tasks s ! t)) = Some t" using inv by (simp add: flight_inv_def sel)
    with free \<open>t < ?n\<close> show ?thesis by (auto simp: sel)
  qed (simp add: sel)
  ultimately show ?thesis by (simp add: flight_inv_def)
qed

lemma flight_step_inv:
  assumes "flight_step svc s s'" "enable_background_bridge svc" "flight_inv svc s"
  shows "flight_inv svc s'"
  using assms
proof (induction rule: flight_step.induct)
  case (start s url)
  then show ?case by (simp add: flight_inv_spawn)
next
  case (finish t s x)
  then show ?case by (simp add: flight_inv_finish)
next
  case (leave t s)
  then show ?case by (simp add: drop_waiter_def Let_def flight_inv_set_task)
qed (simp_all add: flight_inv_set_task)

lemma flights_reachable_inv:
  "(flight_step svc)\<^sup>*\<^sup>* no_flights s \<Longrightarrow> enable_background_bridge svc \<Longrightarrow> flight_inv svc s"
proof (induction rule: rtranclp_induct)
  case base
  show ?case by (simp add: flight_inv_def no_flights_def)
qed (blast intro: flight_step_inv)

lemma flight_inv_live:
  assumes "flight_inv svc s"
  shows "inj_on (\<lambda>t. task_url (tasks s ! t)) (live_tasks s)" "card (live_tasks s) \<le> max_inflight svc"
proof -
  let ?f = "\<lambda>t. task_url (tasks s ! t)"
  have own: "inflight s (?f t) = Some t" if "t \<in> live_tasks s" for t
    using that assms by (auto simp: flight_inv_def live_tasks_def live_def)
  show inj: "inj_on ?f (live_tasks s)" by (rule inj_onI) (metis own option.inject)
  have "?f ` live_tasks s \<subseteq> dom (inflight s)" using own by blast
  then have "card (?f ` live_tasks s) \<le> card (dom (inflight s))"
    using assms by (intro card_mono) (simp_all add: flight_inv_def)
  then show "card (live_tasks s) \<le> max_inflight svc"
    using assms card_image [OF inj] by (simp add: flight_inv_def)
qed

section \<open>Lemmas on downloads and caches\<close>

lemma attempt_loop_two:
  "attempt_loop svc w u [0, 1] =
     (case fetch_once svc w 0 u of
        Inr f \<Rightarrow> (Ok f, 1)
      | Inl e \<Rightarrow> if should_retry_fetch_error e then (fetch_once svc w 1 u, 2) else (Err e, 1))"
  by (simp split: sum.splits)

lemma fetch_cached_memory_hit:
  assumes "memory k = Some m" "fst (memory_get L raw m) = Some v"
  shows "\<exists>k'. fetch_cached L env raw k = Some (Ok (Some (hit_result v)), k')"
  using assms by (cases "memory_get L raw m") (auto simp: fetch_cached_def memory_lookup_def)

section \<open>Properties\<close>


definition demo_service :: "bool \<Rightarrow> fetch_service" where
  "demo_service bridge = \<lparr>svc_max_image_bytes = 10, svc_allow_private_networks = False,
     optimize_large_png_as_webp = False, external_proxy_domains = [], wait_timeout = 1, total_timeout = 2,
     max_inflight = 1, enable_background_bridge = bridge\<rparr>"


subsection \<open>Without the bridge\<close>

text \<open>
  A caller that received its result drops the last waiter while the task, between its
  notification and its own unlinking, still runs: the waiter unlinks the entry, a second
  caller spawns a new task for the URL, and the first task then unlinks that one.
\<close>

definition race_task :: "phase \<Rightarrow> (string + cached_inline_data) option \<Rightarrow> nat \<Rightarrow> bool \<Rightarrow> fetch_task" where
  "race_task p r n a = \<lparr>task_url = ''u'', phase = p, task_result = r, waiter_count = n, aborted = a\<rparr>"

lemma race_steps:
  fixes r :: "string + cached_inline_data"
  defines "fresh \<equiv> race_task Fetching None 0 False"
  shows
    "flight_step (demo_service False) no_flights
       \<lparr>inflight = [''u'' \<mapsto> 0], tasks = [fresh]\<rparr>" (is ?A)
    "flight_step (demo_service False) \<lparr>inflight = [''u'' \<mapsto> 0], tasks = [fresh]\<rparr>
       \<lparr>inflight = [''u'' \<mapsto> 0], tasks = [race_task Fetching None 1 False]\<rparr>" (is ?B)
    "flight_step (demo_service False) \<lparr>inflight = [''u'' \<mapsto> 0], tasks = [race_task Fetching None 1 False]\<rparr>
       \<lparr>inflight = [''u'' \<mapsto> 0], tasks = [race_task Published (Some r) 1 False]\<rparr>" (is ?C)
    "flight_step (demo_service False) \<lparr>inflight = [''u'' \<mapsto> 0], tasks = [race_task Published (Some r) 1 False]\<rparr>
       \<lparr>inflight = Map.empty, tasks = [race_task Published (Some r) 0 True]\<rparr>" (is ?D)
    "flight_step (demo_service False) \<lparr>inflight = Map.empty, tasks = [race_task Published (Some r) 0 True]\<rparr>
       \<lparr>inflight = [''u'' \<mapsto> 1], tasks = [race_task Published (Some r) 0 True, fresh]\<rparr>" (is ?E)
    "flight_step (demo_service False)
       \<lparr>inflight = [''u'' \<mapsto> 1], tasks = [race_task Published (Some r) 0 True, fresh]\<rparr>
       \<lparr>inflight = Map.empty, tasks = [race_task Unlinked (Some r) 0 True, fresh]\<rparr>" (is ?F)
    "flight_step (demo_service False)
       \<lparr>inflight = Map.empty, tasks = [race_task Unlinked (Some r) 0 True, fresh]\<rparr>
       \<lparr>inflight = [''u'' \<mapsto> 2], tasks = [race_task Unlinked (Some r) 0 True, fresh, fresh]\<rparr>" (is ?G)
proof -
  note defs = spawn_def set_task_def unlink_def drop_waiter_def race_task_def fresh_def no_flights_def
    demo_service_def Let_def
  show ?A using flight_step.start [of no_flights "''u''" "demo_service False"] by (simp add: defs)
  show ?B using flight_step.wait [of 0 "\<lparr>inflight = [''u'' \<mapsto> 0], tasks = [fresh]\<rparr>" _ "demo_service False", OF _ refl]
    by (simp add: defs)
  show ?C using flight_step.publish [of 0 "\<lparr>inflight = [''u'' \<mapsto> 0], tasks = [race_task Fetching None 1 False]\<rparr>" _ "demo_service False", OF _ refl]
    by (simp add: defs)
  show ?D using flight_step.leave [of 0 "\<lparr>inflight = [''u'' \<mapsto> 0], tasks = [race_task Published (Some r) 1 False]\<rparr>" "demo_service False"]
    by (simp add: defs)
  show ?E using flight_step.start [of "\<lparr>inflight = Map.empty, tasks = [race_task Published (Some r) 0 True]\<rparr>" "''u''" "demo_service False"]
    by (simp add: defs)
  show ?F using flight_step.finish [of 0 "\<lparr>inflight = [''u'' \<mapsto> 1], tasks = [race_task Published (Some r) 0 True, fresh]\<rparr>" _ "demo_service False", OF _ refl]
    by (simp add: defs)
  show ?G using flight_step.start [of "\<lparr>inflight = Map.empty, tasks = [race_task Unlinked (Some r) 0 True, fresh]\<rparr>" "''u''" "demo_service False"]
    by (simp add: defs numeral_2_eq_2)
qed

text \<open>
  C35: Without the background bridge (the response path) single flight does not hold: with
  \<open>max_inflight = 1\<close> there is a reachable state with two running downloads of the same URL,
  because a finishing task unlinks whatever entry its URL has by then.
\<close>

theorem single_flight_race:
  "\<exists>s. (flight_step (demo_service False))\<^sup>*\<^sup>* no_flights s
     \<and> 1 \<in> live_tasks s \<and> 2 \<in> live_tasks s \<and> task_url (tasks s ! 1) = task_url (tasks s ! 2)
     \<and> max_inflight (demo_service False) = 1"
proof -
  let ?r = "Inl [] :: string + cached_inline_data"
  let ?s = "\<lparr>inflight = [''u'' \<mapsto> 2],
     tasks = [race_task Unlinked (Some ?r) 0 True, race_task Fetching None 0 False, race_task Fetching None 0 False]\<rparr>"
  have "(flight_step (demo_service False))\<^sup>*\<^sup>* no_flights ?s"
    using race_steps(1,2) race_steps(3-7) [where r = ?r] by (meson converse_rtranclp_into_rtranclp rtranclp.rtrancl_refl)
  moreover have "1 \<in> live_tasks ?s \<and> 2 \<in> live_tasks ?s \<and> task_url (tasks ?s ! 1) = task_url (tasks ?s ! 2)"
    by (simp add: live_tasks_def live_def race_task_def)
  ultimately show ?thesis by (intro exI [of _ ?s]) (simp add: demo_service_def)
qed

text \<open>
  A download makes at most two requests; a second one follows only a first failure that
  is a retryable status (408, 425, 429, 500, 502, 503, 504) or a connection or request error that
  concerns no body, and the outcome is that of the last request made.
\<close>

theorem direct_fetch_attempts:
  assumes "maybe_wrap_external_proxy_url (network w 0) (byte_serialize w) raw (external_proxy_domains svc) = Ok u"
  shows "case direct_fetch svc w raw of (r, n) \<Rightarrow>
      (n = 1 \<and> r = fetch_once svc w 0 u \<and> (\<forall>e. r = Err e \<longrightarrow> \<not> should_retry_fetch_error e))
    \<or> (n = 2 \<and> r = fetch_once svc w 1 u \<and> (\<exists>e. fetch_once svc w 0 u = Err e \<and> should_retry_fetch_error e))"
  using assms by (auto simp: direct_fetch_def attempt_loop_two split: sum.splits)

definition demo_world :: fetch_world where
  "demo_world = \<lparr>network = (\<lambda>i. if i = 0
      then (demo_http ''a.b'')\<lparr>get := (\<lambda>_. Ok \<lparr>status = 503, announced_length = None, content_type = None, chunks = []\<rparr>)\<rparr>
      else demo_http ''a.b''),
     pipeline_ms = (\<lambda>_. 1), codecs = demo_codec, byte_serialize = id\<rparr>"

theorem direct_fetch_attempts_witness:
  "snd (direct_fetch (demo_service True) demo_world ''http://a.b/a'') = 2"
proof -
  have "maybe_wrap_external_proxy_url (network demo_world 0) (byte_serialize demo_world) ''http://a.b/a''
      (external_proxy_domains (demo_service True)) = Ok ''http://a.b/a''"
    by (simp add: maybe_wrap_external_proxy_url_def demo_service_def)
  from direct_fetch_attempts [OF this] have
    "snd (direct_fetch (demo_service True) demo_world ''http://a.b/a'') = 2 \<or>
     (\<forall>e. fetch_once (demo_service True) demo_world 0 ''http://a.b/a'' = Err e \<longrightarrow> \<not> should_retry_fetch_error e)"
    by auto
  moreover have "fetch_once (demo_service True) demo_world 0 ''http://a.b/a'' = Err (ImageFetchStatus 503)"
    by code_simp
  ultimately show ?thesis by simp
qed

text \<open>
  What \<open>store_in_caches\<close> stored is served by the next lookup from the memory cache, with
  the same bytes and MIME type and marked as cached, and storing always returns.
\<close>

theorem store_then_cached:
  assumes "lru L ent" "memory k = Some m" "cache_ok ent m" "length (cached_bytes v) \<le> unat (max_bytes m)"
  shows "\<exists>k1 k2. store_in_caches L env raw v k = Some k1
    \<and> fetch_cached L env' raw k1 = Some (Ok (Some \<lparr>result_mime = cached_mime v, result_bytes = cached_bytes v, from_cache = True\<rparr>), k2)"
proof -
  obtain m' where m': "memory_set L raw v m = Some m'" "fst (memory_get L raw m') = Some v"
    using memory_set_hit [OF assms(1,3,4)] by blast
  obtain k1 where k1: "store_in_caches L env raw v k = Some k1" "memory k1 = Some m'"
    using assms(2) m'(1) by (auto simp: store_in_caches_def memory_store_def split: option.splits)
  from fetch_cached_memory_hit [OF k1(2) m'(2)] k1(1) show ?thesis by (auto simp: hit_result_def)
qed

theorem store_then_cached_witness:
  "\<exists>k1 k2. store_in_caches list_lru (plain_env 0 0) ''u'' demo_data
        \<lparr>memory = Some (memory_new list_lru 4), disk_part = None\<rparr> = Some k1
     \<and> fetch_cached list_lru (plain_env 0 0) ''u'' k1
        = Some (Ok (Some \<lparr>result_mime = ''image/png'', result_bytes = ''abc'', from_cache = True\<rparr>), k2)"
  using store_then_cached [OF list_cache.lru_axioms, of "\<lparr>memory = Some (memory_new list_lru 4), disk_part = None\<rparr>"
      "memory_new list_lru 4" demo_data "plain_env 0 0" "''u''" "plain_env 0 0"]
    list_cache.new_ok [of 4]
  by (simp add: memory_new_def demo_data_def)

end
