(* ===== verification/Request_Materialize.thy ===== *)
theory Request_Materialize
  imports Request_Scan Request_Encode Fetch_Service
begin

text \<open>
  The download of the images a request names (rust-sync-proxy/src/request_materialize.rs).

  Each distinct URL is a task of a \<open>JoinSet\<close>; a semaphore of four permits limits how many
  work at a time, and the results are joined in the order of completion.  The model is a
  transition system: a schedule is a list of events, each of which acquires a permit, does
  the work of a task (download and store, a single step), or joins a finished task.  The
  runtime drops the set at the first error, so a task that still works then may or may not
  complete; both are schedules.  What \<open>InlineDataUrlFetchService::fetch\<close> answers for a URL
  and the durations are parameters of a run.

  Shown here: at most four tasks work at a time; every schedule ends and none gets stuck; in
  every complete run without error the replacements follow the references, each carries the
  fetched bytes, and each distinct URL is stored once; blobs stored before an error stay.
\<close>

section \<open>One image\<close>

definition MAX_CONCURRENT_REQUEST_IMAGE_FETCHES :: nat where
  "MAX_CONCURRENT_REQUEST_IMAGE_FETCHES = 4"

record materialized_request_images =
  mat_request :: json
  mat_replacements :: "request_replacement list"
  mat_fetch_work_ms :: i64
  mat_store_work_ms :: i64

record request_materialize_services =
  image_client :: http
  mat_max_image_bytes :: nat
  mat_allow_private_networks :: bool
  enable_webp_optimization :: bool
  mat_fetch_service :: "(string \<Rightarrow> anyhow + fetch_result) option"
  cache_observer :: bool

record request_image_work_durations =
  fetch_work_ms :: i64
  store_work_ms :: i64

record work_world =
  work_codec :: codec
  fetch_elapsed :: "string \<Rightarrow> i64"
  store_elapsed :: "string \<Rightarrow> i64"

type_synonym work_result = "anyhow + string \<times> fetched_blob \<times> request_image_work_durations"

definition work_done :: "work_world \<Rightarrow> string \<Rightarrow> string \<Rightarrow> anyhow + blob_handle \<Rightarrow> work_result" where
  "work_done W u mime r =
     and_then r (\<lambda>h. Ok (u, \<lparr>blob_mime = mime, blob_ref = h\<rparr>,
                         \<lparr>fetch_work_ms = fetch_elapsed W u, store_work_ms = store_elapsed W u\<rparr>))"

text \<open>The middle component is what the cache observer is told.\<close>

definition fetch_request_image :: "work_world \<Rightarrow> request_materialize_services \<Rightarrow> string \<Rightarrow> runtime
    \<Rightarrow> work_result \<times> (string \<times> bool) list \<times> runtime" where
  "fetch_request_image W svc u s =
     (case mat_fetch_service svc of
        Some fetch \<Rightarrow>
          (case fetch u of
             Inl e \<Rightarrow> (Err e, [], s)
           | Inr fetched \<Rightarrow>
               (let told = (if cache_observer svc then [(u, from_cache fetched)] else []);
                    (r, s') = (if from_cache fetched
                               then store_external_shared_bytes (result_bytes fetched) (result_mime fetched) s
                               else store_shared_bytes (result_bytes fetched) (result_mime fetched) s)
                in (work_done W u (result_mime fetched) r, told, s')))
      | None \<Rightarrow>
          (case fetch_image_as_inline_data_with_options (image_client svc) u (mat_max_image_bytes svc)
                  (mat_allow_private_networks svc) of
             Inl e \<Rightarrow> (Err e, [], s)
           | Inr fetched0 \<Rightarrow>
               (case (if enable_webp_optimization svc
                      then maybe_convert_large_png_to_lossless_webp_with_timeout (work_codec W) fetched0
                             REQUEST_PNG_WEBP_OPTIMIZATION_TIMEOUT
                      else Ok fetched0) of
                  Inl e \<Rightarrow> (Err e, [], s)
                | Inr fetched \<Rightarrow>
                    (let (r, s') = store_shared_bytes (fetched_bytes fetched) (fetched_mime fetched) s
                     in (work_done W u (fetched_mime fetched) r, [], s')))))"

section \<open>The tasks\<close>

datatype task_state = Spawned | Permitted | Completed work_result | Joined

record run =
  task :: "string \<Rightarrow> task_state option"
  permits :: nat
  blobs :: runtime
  told_cache :: "(string \<times> bool) list"
  fetched_by_url :: "string \<Rightarrow> fetched_blob option"
  run_fetch_ms :: i64
  run_store_ms :: i64
  failure :: "anyhow option"

datatype event = Acquire string | Work string | Join string

definition start_run :: "string list \<Rightarrow> runtime \<Rightarrow> run" where
  "start_run urls s =
     \<lparr>task = (\<lambda>u. if u \<in> set urls then Some Spawned else None), permits = max MAX_CONCURRENT_REQUEST_IMAGE_FETCHES 1,
      blobs = s, told_cache = [], fetched_by_url = Map.empty, run_fetch_ms = 0, run_store_ms = 0, failure = None\<rparr>"

fun step_run :: "work_world \<Rightarrow> request_materialize_services \<Rightarrow> event \<Rightarrow> run \<Rightarrow> run option" where
  "step_run W svc (Acquire u) st =
     (if task st u = Some Spawned \<and> permits st > 0
      then Some (st\<lparr>task := (task st)(u \<mapsto> Permitted), permits := permits st - 1\<rparr>) else None)"
| "step_run W svc (Work u) st =
     (if task st u = Some Permitted
      then (let (r, told, s') = fetch_request_image W svc u (blobs st)
            in Some (st\<lparr>task := (task st)(u \<mapsto> Completed r), permits := permits st + 1,
                       blobs := s', told_cache := told_cache st @ told\<rparr>))
      else None)"
| "step_run W svc (Join u) st =
     (if failure st \<noteq> None then None
      else case task st u of
             Some (Completed (Inl e)) \<Rightarrow> Some (st\<lparr>task := (task st)(u \<mapsto> Joined), failure := Some e\<rparr>)
           | Some (Completed (Inr (u', fetched, durations))) \<Rightarrow>
               Some (st\<lparr>task := (task st)(u \<mapsto> Joined),
                        fetched_by_url := (fetched_by_url st)(u' \<mapsto> fetched),
                        run_fetch_ms := run_fetch_ms st + fetch_work_ms durations,
                        run_store_ms := run_store_ms st + store_work_ms durations\<rparr>)
           | _ \<Rightarrow> None)"

fun run_events :: "work_world \<Rightarrow> request_materialize_services \<Rightarrow> event list \<Rightarrow> run \<Rightarrow> run option" where
  "run_events W svc [] st = Some st"
| "run_events W svc (ev # evs) st =
     (case step_run W svc ev st of None \<Rightarrow> None | Some st' \<Rightarrow> run_events W svc evs st')"

definition all_joined :: "string list \<Rightarrow> run \<Rightarrow> bool" where
  "all_joined urls st \<longleftrightarrow> list_all (\<lambda>u. task st u = Some Joined) urls"

fun unique_urls :: "request_image_ref list \<Rightarrow> string list \<Rightarrow> string list" where
  "unique_urls [] seen = []"
| "unique_urls (r # rs) seen =
     (if ref_url r \<in> set seen then unique_urls rs seen else ref_url r # unique_urls rs (ref_url r # seen))"

fun build_replacements :: "(string \<Rightarrow> fetched_blob option) \<Rightarrow> request_image_ref list \<Rightarrow> anyhow + request_replacement list" where
  "build_replacements F [] = Ok []"
| "build_replacements F (r # rs) =
     and_then (ok_or (Message (''missing fetched blob for '' @ ref_url r)) (F (ref_url r))) (\<lambda>fetched.
     and_then (build_replacements F rs) (\<lambda>more.
     Ok (\<lparr>repl_pointer = json_pointer r, repl_mime = blob_mime fetched, repl_blob = blob_ref fetched\<rparr> # more)))"

text \<open>
  The result of a run along a schedule, \<open>None\<close> when the schedule is not a complete run: an
  event is not possible, or neither an error nor the last task has been joined.
\<close>

definition materialize_request_images_with_services :: "work_world \<Rightarrow> request_materialize_services \<Rightarrow> event list
    \<Rightarrow> json \<Rightarrow> runtime \<Rightarrow> ((anyhow + materialized_request_images) \<times> (string \<times> bool) list \<times> runtime) option" where
  "materialize_request_images_with_services W svc schedule request s =
     (case scan_request_image_urls request of
        Inl e \<Rightarrow> Some (Err e, [], s)
      | Inr refs \<Rightarrow>
          (let urls = unique_urls refs []
           in case run_events W svc schedule (start_run urls s) of
                None \<Rightarrow> None
              | Some st \<Rightarrow>
                  (case failure st of
                     Some e \<Rightarrow> Some (Err e, told_cache st, blobs st)
                   | None \<Rightarrow>
                       if all_joined urls st
                       then Some (and_then (build_replacements (fetched_by_url st) refs) (\<lambda>rs.
                                    Ok \<lparr>mat_request = request, mat_replacements = rs,
                                        mat_fetch_work_ms = run_fetch_ms st, mat_store_work_ms = run_store_ms st\<rparr>),
                                  told_cache st, blobs st)
                       else None)))"

definition materialize_request_images :: "work_world \<Rightarrow> event list \<Rightarrow> json \<Rightarrow> runtime \<Rightarrow> http
    \<Rightarrow> ((anyhow + materialized_request_images) \<times> (string \<times> bool) list \<times> runtime) option" where
  "materialize_request_images W schedule request s client =
     materialize_request_images_with_services W
       \<lparr>image_client = client, mat_max_image_bytes = REQUEST_MAX_IMAGE_BYTES, mat_allow_private_networks = True,
        enable_webp_optimization = False, mat_fetch_service = None, cache_observer = False\<rparr>
       schedule request s"

section \<open>What a task does to the blobs\<close>

text \<open>The image a task obtains, before it is stored.\<close>

definition obtained :: "work_world \<Rightarrow> request_materialize_services \<Rightarrow> string \<Rightarrow> anyhow + fetched_inline_data" where
  "obtained W svc u =
     (case mat_fetch_service svc of
        Some fetch \<Rightarrow> and_then (fetch u) (\<lambda>r. Ok \<lparr>fetched_mime = result_mime r, fetched_bytes = result_bytes r\<rparr>)
      | None \<Rightarrow>
          and_then (fetch_image_as_inline_data_with_options (image_client svc) u (mat_max_image_bytes svc)
                      (mat_allow_private_networks svc)) (\<lambda>d.
            if enable_webp_optimization svc
            then maybe_convert_large_png_to_lossless_webp_with_timeout (work_codec W) d REQUEST_PNG_WEBP_OPTIMIZATION_TIMEOUT
            else Ok d))"

lemma store_reserved_heap:
  "store_reserved i b m s = (r, s') \<Longrightarrow>
     length (heap s') = length (heap s) + (case r of Inl e \<Rightarrow> 0 | Inr h \<Rightarrow> 1)"
  by (auto simp: store_reserved_def write_spilled_bytes_def write_file_def try_inline_reserve_def build_handle_def
      record_spill_def set_file_def Let_def split: prod.splits if_splits sum.splits option.splits)

lemma store_either:
  assumes "blob_inv s" "ready b s"
    and "store_external_shared_bytes b m s = (r, s') \<or> store_shared_bytes b m s = (r, s')"
  shows "blob_inv s' \<and> same_env s s' \<and> next_id_ctr s' = next_id_ctr s + 1
    \<and> (case r of
         Inl e \<Rightarrow> blob_contents s' = blob_contents s \<and> length (heap s') = length (heap s)
       | Inr h \<Rightarrow> h = length (heap s) \<and> blob_contents s' = (blob_contents s)(h \<mapsto> b) \<and> length (heap s') = Suc (length (heap s)))"
  using assms(3)
proof
  assume ext: "store_external_shared_bytes b m s = (r, s')"
  then obtain h where r: "r = Ok h" using store_external_total [of b m s] by auto
  have "length (heap s') = Suc (length (heap s)) \<and> next_id_ctr s' = next_id_ctr s + 1"
    using ext by (auto simp: store_external_shared_bytes_def next_id_def build_handle_def Let_def)
  with r show ?thesis using store_external_Ok [OF assms(1,2)] ext by simp
next
  assume "store_shared_bytes b m s = (r, s')"
  then have st: "store_bytes b m s = (r, s')" by (simp add: store_shared_bytes_eq)
  have "next_id_ctr s' = next_id_ctr s + 1" using store_bytes_ctr [of b m s] st by simp
  moreover have "length (heap s') = length (heap s) + (case r of Inl e \<Rightarrow> 0 | Inr h \<Rightarrow> 1)"
    using st store_reserved_heap by (fastforce simp: store_bytes_def next_id_def Let_def)
  ultimately show ?thesis
    using store_bytes_Ok [OF assms(1,2)] store_bytes_Err [OF assms(1,2)] st by (cases r) simp_all
qed

lemma fetch_request_image_cases:
  assumes "fetch_request_image W svc u s = (r, told, s')"
  obtains (failed) e where "obtained W svc u = Err e" "r = Err e" "s' = s"
  | (stored) d r' where "obtained W svc u = Ok d" "r = work_done W u (fetched_mime d) r'"
      "store_external_shared_bytes (fetched_bytes d) (fetched_mime d) s = (r', s')
       \<or> store_shared_bytes (fetched_bytes d) (fetched_mime d) s = (r', s')"
proof (cases "mat_fetch_service svc")
  case (Some fetch)
  show ?thesis
  proof (cases "fetch u")
    case (Inl e)
    with Some assms show ?thesis by (intro failed [of e]) (auto simp: fetch_request_image_def obtained_def)
  next
    case (Inr f)
    let ?b = "result_bytes f" and ?m = "result_mime f"
    obtain r' t where rt: "(if from_cache f then store_external_shared_bytes ?b ?m s else store_shared_bytes ?b ?m s) = (r', t)"
      by (metis prod.collapse)
    with Some Inr assms show ?thesis
      by (intro stored [of "\<lparr>fetched_mime = ?m, fetched_bytes = ?b\<rparr>" r'])
        (auto simp: fetch_request_image_def obtained_def Let_def split: if_splits)
  qed
next
  case None
  show ?thesis
  proof (cases "obtained W svc u")
    case (Inl e)
    with None assms show ?thesis
      by (intro failed [of e]) (auto simp: fetch_request_image_def obtained_def Let_def and_then_def split: sum.splits if_splits)
  next
    case (Inr d)
    obtain r' t where rt: "store_shared_bytes (fetched_bytes d) (fetched_mime d) s = (r', t)" by (metis prod.collapse)
    with None Inr assms show ?thesis
      by (intro stored [of d r'])
        (auto simp: fetch_request_image_def obtained_def Let_def and_then_def split: sum.splits if_splits)
  qed
qed

text \<open>A fetched blob that holds what its URL delivered.\<close>

definition holds_image :: "work_world \<Rightarrow> request_materialize_services \<Rightarrow> runtime \<Rightarrow> string \<Rightarrow> fetched_blob \<Rightarrow> bool" where
  "holds_image W svc s u fb \<longleftrightarrow>
     (\<exists>d. obtained W svc u = Ok d \<and> blob_mime fb = fetched_mime d \<and> blob_contents s (blob_ref fb) = Some (fetched_bytes d))"

definition keeps_blobs :: "runtime \<Rightarrow> runtime \<Rightarrow> bool" where
  "keeps_blobs s s' \<longleftrightarrow> same_env s s' \<and> blob_contents s \<subseteq>\<^sub>m blob_contents s'"

lemma keeps_blobs_trans: "keeps_blobs s t \<Longrightarrow> keeps_blobs t u \<Longrightarrow> keeps_blobs s u"
  using map_le_trans by (auto simp: keeps_blobs_def same_env_def)

lemma holds_image_keeps: "keeps_blobs s s' \<Longrightarrow> holds_image W svc s u fb \<Longrightarrow> holds_image W svc s' u fb"
  unfolding holds_image_def keeps_blobs_def map_le_def by (metis domI)

definition images_fit :: "work_world \<Rightarrow> request_materialize_services \<Rightarrow> bool" where
  "images_fit W svc \<longleftrightarrow> (\<forall>u d. obtained W svc u = Ok d \<longrightarrow> fits (fetched_bytes d))"

lemma fetch_request_image_effect:
  assumes run: "fetch_request_image W svc u s = (r, told, s')"
    and inv: "blob_inv s" "next_id_ctr s \<noteq> - 1" and fit: "images_fit W svc"
  shows "blob_inv s' \<and> keeps_blobs s s' \<and> (next_id_ctr s' = next_id_ctr s \<or> next_id_ctr s' = next_id_ctr s + 1)
    \<and> (case r of
         Inl e \<Rightarrow> blob_contents s' = blob_contents s \<and> length (heap s') = length (heap s)
       | Inr (u', fb, dur) \<Rightarrow> u' = u \<and> holds_image W svc s' u fb \<and> length (heap s') = Suc (length (heap s))
           \<and> blob_ref fb = length (heap s) \<and> (\<forall>h. h \<noteq> blob_ref fb \<longrightarrow> blob_contents s' h = blob_contents s h))"
  using run
proof (cases rule: fetch_request_image_cases)
  case (failed e)
  with inv show ?thesis by (simp add: keeps_blobs_def)
next
  case (stored d r')
  have "ready (fetched_bytes d) s" using stored(1) fit inv(2) by (auto simp: ready_def images_fit_def)
  from store_either [OF inv(1) this stored(3)] stored(1,2) show ?thesis
    by (cases r') (auto simp: work_done_def holds_image_def keeps_blobs_def blob_contents_fresh map_le_def)
qed

section \<open>The transition system\<close>

definition tally :: "(task_state option \<Rightarrow> bool) \<Rightarrow> string list \<Rightarrow> (string \<Rightarrow> task_state option) \<Rightarrow> nat" where
  "tally P urls f = length (filter (\<lambda>u. P (f u)) urls)"

lemma tally_update:
  "distinct urls \<Longrightarrow> u \<in> set urls \<Longrightarrow>
     tally P urls (f(u := v)) + of_bool (P (f u)) = tally P urls f + of_bool (P v)"
proof (induction urls)
  case (Cons x xs)
  show ?case
  proof (cases "x = u")
    case True
    with Cons.prems(1) have "filter (\<lambda>y. P ((f(u := v)) y)) xs = filter (\<lambda>y. P (f y)) xs"
      by (intro filter_cong) auto
    with True show ?thesis by (simp add: tally_def)
  next
    case False
    with Cons show ?thesis by (auto simp: tally_def)
  qed
qed simp

lemma tally_less: "u \<in> set urls \<Longrightarrow> \<not> P (f u) \<Longrightarrow> tally P urls f < length urls"
  unfolding tally_def by (rule length_filter_less)

definition running :: "task_state option \<Rightarrow> bool" where
  "running t \<longleftrightarrow> t = Some Permitted"

fun worked :: "task_state option \<Rightarrow> bool" where
  "worked (Some (Completed r)) = True"
| "worked (Some Joined) = True"
| "worked _ = False"

fun keeps_image :: "task_state option \<Rightarrow> bool" where
  "keeps_image (Some (Completed (Inr r))) = True"
| "keeps_image (Some Joined) = True"
| "keeps_image _ = False"

text \<open>The steps by cases, with the state before and after.\<close>

lemma step_run_cases:
  assumes "step_run W svc ev st = Some st'"
  obtains (acquire) u where "ev = Acquire u" "task st u = Some Spawned" "permits st > 0"
      "st' = st\<lparr>task := (task st)(u \<mapsto> Permitted), permits := permits st - 1\<rparr>"
  | (work) u r told s' where "ev = Work u" "task st u = Some Permitted" "fetch_request_image W svc u (blobs st) = (r, told, s')"
      "st' = st\<lparr>task := (task st)(u \<mapsto> Completed r), permits := permits st + 1, blobs := s', told_cache := told_cache st @ told\<rparr>"
  | (join_err) u e where "ev = Join u" "failure st = None" "task st u = Some (Completed (Err e))"
      "st' = st\<lparr>task := (task st)(u \<mapsto> Joined), failure := Some e\<rparr>"
  | (join_ok) u u' fb dur where "ev = Join u" "failure st = None" "task st u = Some (Completed (Ok (u', fb, dur)))"
      "st' = st\<lparr>task := (task st)(u \<mapsto> Joined), fetched_by_url := (fetched_by_url st)(u' \<mapsto> fb),
        run_fetch_ms := run_fetch_ms st + fetch_work_ms dur, run_store_ms := run_store_ms st + store_work_ms dur\<rparr>"
proof (cases ev)
  case (Acquire u)
  with assms show ?thesis by (intro acquire [of u]) (auto split: if_splits)
next
  case (Work u)
  moreover obtain r told s' where "fetch_request_image W svc u (blobs st) = (r, told, s')" by (metis prod.collapse)
  ultimately show ?thesis using assms by (intro work [of u r told s']) (auto split: if_splits)
next
  case (Join u)
  with assms that(3,4) show ?thesis by (auto split: if_splits option.splits task_state.splits sum.splits prod.splits)
qed

definition sched_inv :: "string list \<Rightarrow> run \<Rightarrow> bool" where
  "sched_inv urls st \<longleftrightarrow>
     distinct urls \<and> dom (task st) = set urls
   \<and> permits st + tally running urls (task st) = MAX_CONCURRENT_REQUEST_IMAGE_FETCHES"

lemma sched_inv_start: "distinct urls \<Longrightarrow> sched_inv urls (start_run urls s)"
  by (auto simp: sched_inv_def start_run_def tally_def running_def MAX_CONCURRENT_REQUEST_IMAGE_FETCHES_def
      filter_empty_conv split: if_splits)

lemma sched_inv_task: "sched_inv urls st \<Longrightarrow> task st u = Some t \<Longrightarrow> u \<in> set urls"
  by (auto simp: sched_inv_def)

lemma sched_inv_step:
  assumes "step_run W svc ev st = Some st'" "sched_inv urls st"
  shows "sched_inv urls st'"
proof -
  note u = sched_inv_task [OF assms(2)]
  have d: "distinct urls" "dom (task st) = set urls" using assms(2) by (simp_all add: sched_inv_def)
  note upd = tally_update [OF d(1) u, where P = running and f = "task st"]
  from assms(1) show ?thesis
  proof (cases rule: step_run_cases)
    case (acquire u)
    with upd [OF acquire(2), where v = "Some Permitted"] assms(2) u [OF acquire(2)] show ?thesis
      by (auto simp: sched_inv_def running_def)
  next
    case (work u r told s')
    with upd [OF work(2), where v = "Some (Completed r)"] assms(2) u [OF work(2)] show ?thesis
      by (auto simp: sched_inv_def running_def)
  next
    case (join_err u e)
    with upd [OF join_err(3), where v = "Some Joined"] assms(2) u [OF join_err(3)] show ?thesis
      by (auto simp: sched_inv_def running_def)
  next
    case (join_ok u u' fb dur)
    with upd [OF join_ok(3), where v = "Some Joined"] assms(2) u [OF join_ok(3)] show ?thesis
      by (auto simp: sched_inv_def running_def)
  qed
qed

lemma run_events_append:
  "run_events W svc (evs @ evs') st = (case run_events W svc evs st of None \<Rightarrow> None | Some st' \<Rightarrow> run_events W svc evs' st')"
  by (induction evs arbitrary: st) (auto split: option.splits)

lemma run_events_invariant:
  assumes "run_events W svc evs st = Some st'" "I st"
    and "\<And>ev st st'. step_run W svc ev st = Some st' \<Longrightarrow> I st \<Longrightarrow> I st'"
  shows "I st'"
  using assms(1,2) by (induction evs arbitrary: st) (auto split: option.splits intro: assms(3))

definition data_inv :: "work_world \<Rightarrow> request_materialize_services \<Rightarrow> string list \<Rightarrow> runtime \<Rightarrow> run \<Rightarrow> bool" where
  "data_inv W svc urls s st \<longleftrightarrow>
     blob_inv (blobs st) \<and> keeps_blobs s (blobs st)
   \<and> unat (next_id_ctr (blobs st)) \<le> unat (next_id_ctr s) + tally worked urls (task st)
   \<and> (\<forall>u u' fb dur. task st u = Some (Completed (Ok (u', fb, dur))) \<longrightarrow> u' = u \<and> holds_image W svc (blobs st) u fb)
   \<and> (\<forall>u fb. fetched_by_url st u = Some fb \<longrightarrow> holds_image W svc (blobs st) u fb)
   \<and> (failure st = None \<longrightarrow>
        (\<forall>u. task st u = Some Joined \<longrightarrow> fetched_by_url st u \<noteq> None)
      \<and> length (heap (blobs st)) = length (heap s) + tally keeps_image urls (task st))"

lemma data_inv_start: "blob_inv s \<Longrightarrow> data_inv W svc urls s (start_run urls s)"
  by (auto simp: data_inv_def start_run_def keeps_blobs_def tally_def filter_empty_conv split: if_splits)

lemma unat_succ_le: "w' = w \<or> w' = w + (1 :: u64) \<Longrightarrow> unat w' \<le> Suc (unat w)"
  by (auto simp: unat_word_ariths)

lemma data_inv_ctr:
  assumes "sched_inv urls st" "data_inv W svc urls s st" "unat (next_id_ctr s) + length urls < 2 ^ 64" "task st u = Some Permitted"
  shows "next_id_ctr (blobs st) \<noteq> - 1"
proof -
  have "tally worked urls (task st) < length urls" using sched_inv_task [OF assms(1,4)] assms(4) by (intro tally_less) auto
  moreover have "unat (next_id_ctr (blobs st)) \<le> unat (next_id_ctr s) + tally worked urls (task st)"
    using assms(2) by (simp add: data_inv_def)
  ultimately have "unat (next_id_ctr (blobs st)) < 2 ^ 64 - 1" using assms(3) by simp
  then show ?thesis by (auto simp: unsigned_minus_1_eq_mask mask_eq_exp_minus_1)
qed

lemma data_inv_work:
  assumes "sched_inv urls st" "data_inv W svc urls s st" "images_fit W svc"
    and room: "unat (next_id_ctr s) + length urls < 2 ^ 64"
    and t: "task st u = Some Permitted" and run: "fetch_request_image W svc u (blobs st) = (r, told, s')"
  shows "data_inv W svc urls s
    (st\<lparr>task := (task st)(u \<mapsto> Completed r), permits := permits st + 1, blobs := s', told_cache := told_cache st @ told\<rparr>)"
proof -
  have u: "u \<in> set urls" and d: "distinct urls" using assms(1) t sched_inv_task by (auto simp: sched_inv_def)
  have inv: "blob_inv (blobs st)" "keeps_blobs s (blobs st)"
    and ctr: "unat (next_id_ctr (blobs st)) \<le> unat (next_id_ctr s) + tally worked urls (task st)"
    using assms(2) by (simp_all add: data_inv_def)
  note eff = fetch_request_image_effect [OF run inv(1) data_inv_ctr [OF assms(1,2) room t] assms(3)]
  have k: "keeps_blobs s s'" using eff inv(2) keeps_blobs_trans by blast
  have tl: "tally worked urls ((task st)(u \<mapsto> Completed r)) = Suc (tally worked urls (task st))"
    using tally_update [OF d u, of worked "task st" "Some (Completed r)"] t by simp
  have ctr': "unat (next_id_ctr s') \<le> unat (next_id_ctr s) + tally worked urls ((task st)(u \<mapsto> Completed r))"
    using eff unat_succ_le [of "next_id_ctr s'" "next_id_ctr (blobs st)"] ctr tl by simp
  have kept: "holds_image W svc s' x fb" if "holds_image W svc (blobs st) x fb" for x fb
    using eff that holds_image_keeps by blast
  have heap: "length (heap s') = length (heap s) + tally keeps_image urls ((task st)(u \<mapsto> Completed r))" if "failure st = None"
    using tally_update [OF d u, of keeps_image "task st" "Some (Completed r)"] t eff that assms(2)
    by (cases r) (auto simp: data_inv_def)
  show ?thesis
    using eff k ctr' kept heap assms(2) unfolding data_inv_def by (auto split: if_splits sum.splits)
qed

lemma data_inv_step:
  assumes "step_run W svc ev st = Some st'" "sched_inv urls st" "data_inv W svc urls s st"
    and "images_fit W svc" "unat (next_id_ctr s) + length urls < 2 ^ 64"
  shows "data_inv W svc urls s st'"
proof -
  have upd: "tally P urls ((task st)(u \<mapsto> t)) + of_bool (P (task st u)) = tally P urls (task st) + of_bool (P (Some t))"
    if "task st u = Some t'" for P u t t'
    using assms(2) sched_inv_task [OF assms(2) that] by (intro tally_update) (simp_all add: sched_inv_def)
  from assms(1) show ?thesis
  proof (cases rule: step_run_cases)
    case (acquire u)
    with assms(3) upd [OF acquire(2), of worked Permitted] upd [OF acquire(2), of keeps_image Permitted]
    show ?thesis by (auto simp: data_inv_def split: if_splits)
  next
    case (work u r told s')
    then show ?thesis using data_inv_work [OF assms(2-5)] by simp
  next
    case (join_err u e)
    with assms(3) upd [OF join_err(3), of worked Joined] show ?thesis by (auto simp: data_inv_def split: if_splits)
  next
    case (join_ok u u' fb dur)
    then have "u' = u" using assms(3) by (auto simp: data_inv_def)
    with join_ok assms(3) upd [OF join_ok(3), of worked Joined] upd [OF join_ok(3), of keeps_image Joined]
    show ?thesis by (auto simp: data_inv_def split: if_splits)
  qed
qed

text \<open>Whose blobs are live: those from before, and those of tasks that have stored theirs.\<close>

definition result_of :: "run \<Rightarrow> string \<Rightarrow> fetched_blob option" where
  "result_of st u =
     (case task st u of Some (Completed (Inr (u', fb, dur))) \<Rightarrow> Some fb | _ \<Rightarrow> fetched_by_url st u)"

definition own_inv :: "runtime \<Rightarrow> run \<Rightarrow> bool" where
  "own_inv s st \<longleftrightarrow>
     length (heap s) \<le> length (heap (blobs st))
   \<and> (\<forall>u. fetched_by_url st u \<noteq> None \<longrightarrow> task st u = Some Joined)
   \<and> (\<forall>u fb. result_of st u = Some fb \<longrightarrow> length (heap s) \<le> blob_ref fb)
   \<and> (\<forall>h. blob_contents (blobs st) h \<noteq> None \<longrightarrow>
          blob_contents s h \<noteq> None \<or> (\<exists>u fb. result_of st u = Some fb \<and> blob_ref fb = h))"

lemma own_inv_start: "own_inv s (start_run urls s)"
  by (auto simp: own_inv_def start_run_def result_of_def split: if_splits)

lemma own_inv_work:
  assumes "own_inv s st" "task st u = Some Permitted"
    and "case r of
         Inl e \<Rightarrow> blob_contents s' = blob_contents (blobs st) \<and> length (heap s') = length (heap (blobs st))
       | Inr (u', fb, dur) \<Rightarrow> length (heap s') = Suc (length (heap (blobs st))) \<and> blob_ref fb = length (heap (blobs st))
           \<and> (\<forall>h. h \<noteq> blob_ref fb \<longrightarrow> blob_contents s' h = blob_contents (blobs st) h)"
    and st': "task st' = (task st)(u \<mapsto> Completed r)" "blobs st' = s'" "fetched_by_url st' = fetched_by_url st"
  shows "own_inv s st'"
proof -
  have none: "result_of st u = None" using assms(1,2) by (auto simp: own_inv_def result_of_def)
  have other: "x \<noteq> u \<Longrightarrow> result_of st' x = result_of st x" for x using st' by (auto simp: result_of_def split: option.splits task_state.splits sum.splits)
  have joined: "\<forall>x. fetched_by_url st' x \<noteq> None \<longrightarrow> task st' x = Some Joined"
    using assms(1,2) st' by (auto simp: own_inv_def)
  show ?thesis
  proof (cases r)
    case (Inl e)
    then have "result_of st' u = None" using none st' assms(2) by (simp add: result_of_def)
    with other none have "result_of st' = result_of st" by (metis ext)
    with Inl assms(1,3) st' joined show ?thesis by (simp add: own_inv_def)
  next
    case (Inr x)
    obtain u' fb dur where r: "r = Ok (u', fb, dur)" using Inr by (cases x) auto
    then have own: "result_of st' u = Some fb" using st' by (simp add: result_of_def)
    have kept: "result_of st y = Some b \<Longrightarrow> result_of st' y = Some b" for y b using none other by (cases "y = u") auto
    have "length (heap s) \<le> blob_ref b" if "result_of st' y = Some b" for y b
      using that own other [of y] assms(1,3) r by (cases "y = u") (auto simp: own_inv_def)
    moreover have "blob_contents s h \<noteq> None \<or> (\<exists>y b. result_of st' y = Some b \<and> blob_ref b = h)"
      if h: "blob_contents s' h \<noteq> None" for h
    proof (cases "h = blob_ref fb")
      case False
      with assms(3) r h have "blob_contents (blobs st) h \<noteq> None" by simp
      with assms(1) kept show ?thesis unfolding own_inv_def by blast
    qed (use own in blast)
    moreover have "length (heap s) \<le> length (heap s')" using assms(1,3) r by (simp add: own_inv_def)
    ultimately show ?thesis using joined st'(2) by (simp add: own_inv_def)
  qed
qed

lemma own_inv_step:
  assumes "step_run W svc ev st = Some st'" "sched_inv urls st" "data_inv W svc urls s st" "own_inv s st"
    and "images_fit W svc" "unat (next_id_ctr s) + length urls < 2 ^ 64"
  shows "own_inv s st'"
  using assms(1)
proof (cases rule: step_run_cases)
  case (acquire u)
  then have "result_of st' = result_of st" by (auto simp: fun_eq_iff result_of_def split: option.splits task_state.splits sum.splits)
  with acquire assms(4) show ?thesis by (auto simp: own_inv_def)
next
  case (work u r told s')
  have "blob_inv (blobs st)" using assms(3) by (simp add: data_inv_def)
  note eff = fetch_request_image_effect [OF work(3) this data_inv_ctr [OF assms(2,3,6) work(2)] assms(5)]
  show ?thesis
    by (rule own_inv_work [OF assms(4) work(2), where r = r and s' = s']) (use eff work(4) in \<open>auto split: sum.splits\<close>)
next
  case (join_err u e)
  then have "result_of st' = result_of st" by (auto simp: fun_eq_iff result_of_def split: option.splits task_state.splits sum.splits)
  with join_err assms(4) show ?thesis by (auto simp: own_inv_def)
next
  case (join_ok u u' fb dur)
  have "u' = u" using join_ok(3) assms(3) by (auto simp: data_inv_def)
  then have "result_of st' = result_of st"
    using join_ok(3,4) by (auto simp: fun_eq_iff result_of_def split: option.splits task_state.splits sum.splits)
  with join_ok assms(4) \<open>u' = u\<close> show ?thesis by (auto simp: own_inv_def)
qed

lemma run_inv:
  assumes "run_events W svc evs (start_run urls s) = Some st" "distinct urls" "blob_inv s" "images_fit W svc"
    and "unat (next_id_ctr s) + length urls < 2 ^ 64"
  shows "sched_inv urls st \<and> data_inv W svc urls s st \<and> own_inv s st"
  using assms(1)
proof (rule run_events_invariant)
  show "sched_inv urls (start_run urls s) \<and> data_inv W svc urls s (start_run urls s) \<and> own_inv s (start_run urls s)"
    using sched_inv_start [OF assms(2)] data_inv_start [OF assms(3)] own_inv_start by blast
qed (use sched_inv_step data_inv_step [OF _ _ _ assms(4,5)] own_inv_step [OF _ _ _ _ assms(4,5)] in blast)

section \<open>Complete runs\<close>

lemma unique_urls_set: "set (unique_urls rs seen) = ref_url ` set rs - set seen"
  by (induction rs seen rule: unique_urls.induct) auto

lemma unique_urls_distinct: "distinct (unique_urls rs seen)"
  by (induction rs seen rule: unique_urls.induct) (auto simp: unique_urls_set)

lemma unique_urls_length: "length (unique_urls rs seen) \<le> length rs"
  by (induction rs seen rule: unique_urls.induct) auto

lemma build_replacements_Ok:
  assumes "\<forall>r \<in> set refs. \<exists>fb. F (ref_url r) = Some fb \<and> Q (ref_url r) fb"
  shows "\<exists>rs. build_replacements F refs = Ok rs
    \<and> list_all2 (\<lambda>r q. repl_pointer q = json_pointer r \<and> Q (ref_url r) \<lparr>blob_mime = repl_mime q, blob_ref = repl_blob q\<rparr>) refs rs"
  using assms
proof (induction refs)
  case (Cons r refs)
  then obtain rs where rs: "build_replacements F refs = Ok rs"
      "list_all2 (\<lambda>r q. repl_pointer q = json_pointer r \<and> Q (ref_url r) \<lparr>blob_mime = repl_mime q, blob_ref = repl_blob q\<rparr>) refs rs"
    by auto
  from Cons.prems obtain fb where fb: "F (ref_url r) = Some fb" "Q (ref_url r) fb" by auto
  from fb rs show ?case by (cases fb) simp
qed simp

lemma scan_Ok_length: "scan_request_image_urls request = Ok refs \<Longrightarrow> length refs \<le> 7"
  by (auto simp: scan_eq limited_def MAX_INLINE_DATA_URLS_def split: if_splits)

text \<open>A replacement that stands for a reference: same pointer, the image the URL delivered.\<close>

definition replaces :: "work_world \<Rightarrow> request_materialize_services \<Rightarrow> runtime \<Rightarrow> request_image_ref \<Rightarrow> request_replacement \<Rightarrow> bool" where
  "replaces W svc s r q \<longleftrightarrow>
     repl_pointer q = json_pointer r
   \<and> (\<exists>d. obtained W svc (ref_url r) = Ok d \<and> repl_mime q = fetched_mime d \<and> blob_contents s (repl_blob q) = Some (fetched_bytes d))"

lemma complete_run_Ok:
  assumes "run_events W svc schedule (start_run (unique_urls refs []) s) = Some st"
    and "failure st = None" "all_joined (unique_urls refs []) st"
    and "blob_inv s" "images_fit W svc" "unat (next_id_ctr s) + length refs < 2 ^ 64"
  shows "\<exists>rs. build_replacements (fetched_by_url st) refs = Ok rs \<and> list_all2 (replaces W svc (blobs st)) refs rs"
    "blob_inv (blobs st)" "keeps_blobs s (blobs st)" "length (heap (blobs st)) = length (heap s) + card (ref_url ` set refs)"
    "unat (next_id_ctr (blobs st)) \<le> unat (next_id_ctr s) + length refs"
proof -
  let ?urls = "unique_urls refs []"
  have "unat (next_id_ctr s) + length ?urls < 2 ^ 64" using assms(6) unique_urls_length [of refs "[]"] by linarith
  then have inv: "sched_inv ?urls st" "data_inv W svc ?urls s st"
    using run_inv [OF assms(1) unique_urls_distinct assms(4,5)] by simp_all
  have "\<exists>fb. fetched_by_url st (ref_url r) = Some fb \<and> holds_image W svc (blobs st) (ref_url r) fb" if "r \<in> set refs" for r
  proof -
    have "task st (ref_url r) = Some Joined" using that assms(3) by (simp add: all_joined_def list_all_iff unique_urls_set)
    then show ?thesis using inv(2) assms(2) by (auto simp: data_inv_def)
  qed
  then have "\<forall>r \<in> set refs. \<exists>fb. fetched_by_url st (ref_url r) = Some fb \<and> holds_image W svc (blobs st) (ref_url r) fb" by blast
  from build_replacements_Ok [OF this]
  show "\<exists>rs. build_replacements (fetched_by_url st) refs = Ok rs \<and> list_all2 (replaces W svc (blobs st)) refs rs"
    by (auto simp: holds_image_def replaces_def [abs_def] )
  have all: "tally keeps_image ?urls (task st) = length ?urls"
    using assms(3) by (simp add: tally_def all_joined_def list_all_iff)
  have "tally worked ?urls (task st) \<le> length refs"
    unfolding tally_def using unique_urls_length le_trans length_filter_le by blast
  moreover have "unat (next_id_ctr (blobs st)) \<le> unat (next_id_ctr s) + tally worked ?urls (task st)"
    using inv(2) by (simp add: data_inv_def)
  ultimately show "unat (next_id_ctr (blobs st)) \<le> unat (next_id_ctr s) + length refs" by linarith
  show "length (heap (blobs st)) = length (heap s) + card (ref_url ` set refs)"
    using all inv(2) assms(2) distinct_card [OF unique_urls_distinct [of refs "[]"]] by (simp add: data_inv_def unique_urls_set)
qed (use run_inv [OF assms(1) unique_urls_distinct assms(4,5)] assms(6) unique_urls_length [of refs "[]"] in \<open>simp_all add: data_inv_def\<close>)

lemma build_replacements_blobs:
  "build_replacements F refs = Ok rs \<Longrightarrow> repl_blob ` set rs = {blob_ref fb | fb r. r \<in> set refs \<and> F (ref_url r) = Some fb}"
  by (induction refs arbitrary: rs) (fastforce simp: and_then_eq_Ok)+

text \<open>The live blobs after a complete run are those from before and those of the replacements.\<close>

lemma complete_run_owns:
  assumes "run_events W svc schedule (start_run (unique_urls refs []) s) = Some st"
    and "failure st = None" "all_joined (unique_urls refs []) st"
    and "blob_inv s" "images_fit W svc" "unat (next_id_ctr s) + length refs < 2 ^ 64"
    and rs: "build_replacements (fetched_by_url st) refs = Ok rs"
  shows "blob_contents s = (blob_contents (blobs st)) |` (- (repl_blob ` set rs))"
    "\<forall>h \<in> repl_blob ` set rs. h < length (heap (blobs st))"
proof -
  let ?urls = "unique_urls refs []"
  have "unat (next_id_ctr s) + length ?urls < 2 ^ 64" using assms(6) unique_urls_length [of refs "[]"] by linarith
  then have inv: "sched_inv ?urls st" "data_inv W svc ?urls s st" "own_inv s st"
    using run_inv [OF assms(1) unique_urls_distinct assms(4,5)] by simp_all
  have res: "result_of st u = fetched_by_url st u" for u
  proof (cases "u \<in> set ?urls")
    case True
    with assms(3) show ?thesis by (simp add: all_joined_def list_all_iff result_of_def)
  next
    case False
    then have "task st u = None" using inv(1) unfolding sched_inv_def by blast
    then show ?thesis by (simp add: result_of_def)
  qed
  have blob: "repl_blob ` set rs = {blob_ref fb | fb u. result_of st u = Some fb}"
  proof -
    have "\<exists>r \<in> set refs. ref_url r = u" if "fetched_by_url st u = Some fb" for u fb
    proof -
      have "task st u = Some Joined" using inv(3) that by (auto simp: own_inv_def)
      with sched_inv_task [OF inv(1)] show ?thesis by (fastforce simp: unique_urls_set)
    qed
    then show ?thesis unfolding build_replacements_blobs [OF rs] res by blast
  qed
  have fresh: "blob_contents s h = None" if "h \<in> repl_blob ` set rs" for h
  proof -
    have "length (heap s) \<le> h" using that inv(3) unfolding blob own_inv_def by blast
    then show ?thesis by (simp add: blob_contents_def)
  qed
  have kept: "blob_contents s \<subseteq>\<^sub>m blob_contents (blobs st)" using inv(2) by (simp add: data_inv_def keeps_blobs_def)
  show "blob_contents s = (blob_contents (blobs st)) |` (- (repl_blob ` set rs))"
  proof
    fix h
    show "blob_contents s h = (blob_contents (blobs st) |` (- (repl_blob ` set rs))) h"
    proof (cases "blob_contents s h")
      case None
      then have "h \<in> repl_blob ` set rs" if "blob_contents (blobs st) h \<noteq> None"
        using that inv(3) unfolding blob own_inv_def by blast
      with None show ?thesis by (cases "blob_contents (blobs st) h") (auto simp: restrict_map_def)
    next
      case (Some c)
      then have "blob_contents (blobs st) h = Some c" using kept by (metis domI map_le_def)
      moreover have "h \<notin> repl_blob ` set rs" using fresh Some by fastforce
      ultimately show ?thesis using Some by simp
    qed
  qed
  show "\<forall>h \<in> repl_blob ` set rs. h < length (heap (blobs st))"
  proof
    fix h assume "h \<in> repl_blob ` set rs"
    then obtain fb u where fb: "fetched_by_url st u = Some fb" "blob_ref fb = h" unfolding blob res by blast
    then have "holds_image W svc (blobs st) u fb" using inv(2) by (simp add: data_inv_def)
    with fb(2) show "h < length (heap (blobs st))" by (auto simp: holds_image_def dest: blob_contents_live)
  qed
qed

lemma materialize_Ok_cases:
  assumes "materialize_request_images_with_services W svc schedule request s = Some (Ok m, told, s')"
  obtains refs st where "scan_request_image_urls request = Ok refs"
    "run_events W svc schedule (start_run (unique_urls refs []) s) = Some st" "failure st = None"
    "all_joined (unique_urls refs []) st" "build_replacements (fetched_by_url st) refs = Ok (mat_replacements m)"
    "mat_request m = request" "s' = blobs st"
  using assms
  by (auto simp: materialize_request_images_with_services_def Let_def and_then_eq_Ok
      split: sum.splits option.splits if_splits)

lemma materialize_Ok:
  assumes "materialize_request_images_with_services W svc schedule request s = Some (Ok m, told, s')"
    and "blob_inv s" "images_fit W svc" "unat (next_id_ctr s) + 7 < 2 ^ 64"
  shows "mat_request m = request
    \<and> (\<exists>refs. scan_request_image_urls request = Ok refs \<and> list_all2 (replaces W svc s') refs (mat_replacements m)
         \<and> length (heap s') = length (heap s) + card (ref_url ` set refs))
    \<and> keeps_blobs s s' \<and> blob_inv s' \<and> unat (next_id_ctr s') \<le> unat (next_id_ctr s) + 7
    \<and> blob_contents s = blob_contents s' |` (- (repl_blob ` set (mat_replacements m)))
    \<and> (\<forall>r \<in> set (mat_replacements m). repl_blob r < length (heap s'))"
  using assms(1)
proof (cases rule: materialize_Ok_cases)
  case (1 refs st)
  have len: "length refs \<le> 7" using 1(1) by (rule scan_Ok_length)
  with assms(4) have "unat (next_id_ctr s) + length refs < 2 ^ 64" by linarith
  note run = complete_run_Ok [OF 1(2-4) assms(2,3) this] complete_run_owns [OF 1(2-4) assms(2,3) this 1(5)]
  have "list_all2 (replaces W svc s') refs (mat_replacements m)" using run(1) 1(5,7) by simp
  moreover have "unat (next_id_ctr s') \<le> unat (next_id_ctr s) + 7" using run(5) len 1(7) by simp
  ultimately show ?thesis using run(2-4,6,7) 1(1,6,7) by simp
qed

subsection \<open>Schedules\<close>

fun weight :: "task_state option \<Rightarrow> nat" where
  "weight (Some Spawned) = 3"
| "weight (Some Permitted) = 2"
| "weight (Some (Completed r)) = 1"
| "weight _ = 0"

definition pending :: "string list \<Rightarrow> run \<Rightarrow> nat" where
  "pending urls st = sum_list (map (\<lambda>u. weight (task st u)) urls)"

lemma pending_start: "pending urls (start_run urls s) = 3 * length urls"
proof -
  have "map (\<lambda>u. weight (task (start_run urls s) u)) urls = map (\<lambda>u. 3) urls"
    by (intro map_cong) (simp_all add: start_run_def)
  then show ?thesis
    unfolding pending_def by (simp only: sum_list_triv map_replicate_const sum_list_replicate mult.commute of_nat_id)
qed

lemma pending_update:
  "distinct urls \<Longrightarrow> u \<in> set urls \<Longrightarrow>
     sum_list (map (\<lambda>x. weight ((f(u := v)) x)) urls) + weight (f u) = sum_list (map (\<lambda>x. weight (f x)) urls) + weight v"
proof (induction urls)
  case (Cons x xs)
  show ?case
  proof (cases "x = u")
    case True
    with Cons.prems(1) have "map (\<lambda>x. weight ((f(u := v)) x)) xs = map (\<lambda>x. weight (f x)) xs" by (intro map_cong) auto
    with True show ?thesis by (simp del: fun_upd_apply map_eq_conv) simp
  next
    case False
    with Cons show ?thesis by auto
  qed
qed simp

lemma step_pending:
  assumes "step_run W svc ev st = Some st'" "sched_inv urls st"
  shows "pending urls st = Suc (pending urls st')"
proof -
  have upd: "sum_list (map (\<lambda>x. weight (((task st)(u \<mapsto> t)) x)) urls) + weight (task st u) = pending urls st + weight (Some t)"
    if "task st u = Some t'" for u t t'
    unfolding pending_def using assms(2) sched_inv_task [OF assms(2) that]
    by (intro pending_update) (simp_all add: sched_inv_def)
  from assms(1) show ?thesis
  proof (cases rule: step_run_cases)
    case (acquire u)
    with upd [OF acquire(2), of Permitted] show ?thesis by (simp add: pending_def del: fun_upd_apply)
  next
    case (work u r told s')
    with upd [OF work(2), of "Completed r"] show ?thesis by (simp add: pending_def del: fun_upd_apply)
  next
    case (join_err u e)
    with upd [OF join_err(3), of Joined] show ?thesis by (simp add: pending_def del: fun_upd_apply)
  next
    case (join_ok u u' fb dur)
    with upd [OF join_ok(3), of Joined] show ?thesis by (simp add: pending_def del: fun_upd_apply)
  qed
qed

lemma run_events_pending:
  "run_events W svc evs st = Some st' \<Longrightarrow> sched_inv urls st \<Longrightarrow> length evs + pending urls st' = pending urls st"
proof (induction evs arbitrary: st)
  case (Cons ev evs)
  then obtain st1 where s1: "step_run W svc ev st = Some st1" "run_events W svc evs st1 = Some st'" by (auto split: option.splits)
  from Cons.IH [OF s1(2) sched_inv_step [OF s1(1) Cons.prems(2)]] step_pending [OF s1(1) Cons.prems(2)] show ?case by simp
qed simp

lemma step_possible:
  assumes "sched_inv urls st" "failure st = None" "\<not> all_joined urls st"
  shows "\<exists>ev st'. step_run W svc ev st = Some st'"
proof -
  obtain u t where u: "u \<in> set urls" "task st u = Some t" "t \<noteq> Joined"
    using assms(1,3) by (auto simp: all_joined_def list_all_iff sched_inv_def) (metis domD)
  consider r where "\<exists>v. task st v = Some (Completed r)" | "\<exists>v. task st v = Some Permitted"
    | "\<forall>v \<in> set urls. task st v \<noteq> Some Permitted" "t = Spawned"
    using u by (cases t) blast+
  then show ?thesis
  proof cases
    case (1 r)
    then obtain v where "task st v = Some (Completed r)" by blast
    with assms(2) have "step_run W svc (Join v) st \<noteq> None" by (cases r) (auto split: prod.splits)
    then show ?thesis by blast
  next
    case 2
    then obtain v where "task st v = Some Permitted" by blast
    then have "step_run W svc (Work v) st \<noteq> None" by (simp split: prod.splits)
    then show ?thesis by blast
  next
    case 3
    then have "tally running urls (task st) = 0" by (simp add: tally_def running_def filter_empty_conv)
    with assms(1) have "permits st = 4" by (simp add: sched_inv_def MAX_CONCURRENT_REQUEST_IMAGE_FETCHES_def)
    with u 3 have "step_run W svc (Acquire u) st \<noteq> None" by simp
    then show ?thesis by blast
  qed
qed

lemma run_completes:
  "sched_inv urls st \<Longrightarrow> \<exists>evs st'. run_events W svc evs st = Some st' \<and> (failure st' \<noteq> None \<or> all_joined urls st')"
proof (induction "pending urls st" arbitrary: st rule: less_induct)
  case less
  show ?case
  proof (cases "failure st \<noteq> None \<or> all_joined urls st")
    case True
    then have "run_events W svc [] st = Some st \<and> (failure st \<noteq> None \<or> all_joined urls st)" by simp
    then show ?thesis by blast
  next
    case False
    then obtain ev st1 where s1: "step_run W svc ev st = Some st1" using step_possible less.prems by blast
    have "pending urls st1 < pending urls st" using step_pending [OF s1 less.prems] by simp
    from less.hyps [OF this sched_inv_step [OF s1 less.prems]]
    obtain evs st' where "run_events W svc evs st1 = Some st'" "failure st' \<noteq> None \<or> all_joined urls st'" by blast
    with s1 have "run_events W svc (ev # evs) st = Some st' \<and> (failure st' \<noteq> None \<or> all_joined urls st')" by simp
    then show ?thesis by blast
  qed
qed

subsection \<open>Errors\<close>

text \<open>Without I/O errors a task fails only when its image could not be obtained.\<close>

definition err_inv :: "work_world \<Rightarrow> request_materialize_services \<Rightarrow> string list \<Rightarrow> runtime \<Rightarrow> run \<Rightarrow> bool" where
  "err_inv W svc urls s st \<longleftrightarrow>
     io_error (blobs st) = Map.empty
   \<and> (\<forall>u e. task st u = Some (Completed (Err e)) \<longrightarrow> obtained W svc u = Err e)
   \<and> (\<forall>e. failure st = Some e \<longrightarrow> (\<exists>u \<in> set urls. obtained W svc u = Err e))"

lemma fetch_request_image_no_io:
  assumes "fetch_request_image W svc u s = (r, told, s')" "io_error s = Map.empty"
  shows "io_error s' = Map.empty \<and> (\<forall>e. r = Err e \<longrightarrow> obtained W svc u = Err e)"
  using assms(1)
proof (cases rule: fetch_request_image_cases)
  case (stored d r')
  have "io_error s' = io_error s \<and> (\<exists>h. r' = Ok h)"
    using stored(3)
  proof
    assume "store_external_shared_bytes (fetched_bytes d) (fetched_mime d) s = (r', s')"
    then show ?thesis by (auto simp: store_external_shared_bytes_def next_id_def build_handle_def Let_def)
  next
    assume "store_shared_bytes (fetched_bytes d) (fetched_mime d) s = (r', s')"
    with assms(2) show ?thesis
      by (auto simp: store_shared_bytes_def store_reserved_def write_spilled_bytes_def write_file_def next_id_def
          try_inline_reserve_def build_handle_def record_spill_def set_file_def Let_def
          split: prod.splits if_splits sum.splits option.splits)
  qed
  with stored assms(2) show ?thesis by (auto simp: work_done_def)
qed (use assms(2) in simp)

lemma err_inv_step:
  assumes "step_run W svc ev st = Some st'" "sched_inv urls st" "err_inv W svc urls s st"
  shows "err_inv W svc urls s st'"
  using assms(1)
proof (cases rule: step_run_cases)
  case (work u r told s')
  with fetch_request_image_no_io [OF work(3)] assms(3) show ?thesis by (auto simp: err_inv_def)
next
  case (join_err u e)
  with assms(3) sched_inv_task [OF assms(2) join_err(3)] show ?thesis by (auto simp: err_inv_def)
qed (use assms(3) in \<open>auto simp: err_inv_def\<close>)

lemma run_err_inv:
  assumes "run_events W svc evs (start_run urls s) = Some st" "distinct urls" "io_error s = Map.empty"
  shows "sched_inv urls st \<and> err_inv W svc urls s st"
  using assms(1)
proof (rule run_events_invariant)
  show "sched_inv urls (start_run urls s) \<and> err_inv W svc urls s (start_run urls s)"
    using sched_inv_start [OF assms(2)] assms(3) by (auto simp: err_inv_def start_run_def split: if_splits)
qed (use sched_inv_step err_inv_step in blast)

lemma materialize_error_cause:
  assumes "materialize_request_images_with_services W svc schedule request s = Some (Err e, told, s')"
    and "io_error s = Map.empty" "blob_inv s" "images_fit W svc" "unat (next_id_ctr s) + 7 < 2 ^ 64"
  shows "scan_request_image_urls request = Err e
    \<or> (\<exists>refs r. scan_request_image_urls request = Ok refs \<and> r \<in> set refs \<and> obtained W svc (ref_url r) = Err e)"
proof (cases "scan_request_image_urls request")
  case (Inr refs)
  then obtain st where run: "run_events W svc schedule (start_run (unique_urls refs []) s) = Some st"
    using assms(1) by (auto simp: materialize_request_images_with_services_def Let_def split: option.splits)
  have "unat (next_id_ctr s) + length refs < 2 ^ 64" using scan_Ok_length [OF Inr] assms(5) by linarith
  note ok = complete_run_Ok(1) [OF run _ _ assms(3,4) this]
  from run assms(1) Inr ok have "failure st = Some e"
    by (auto simp: materialize_request_images_with_services_def Let_def split: option.splits if_splits)
  then obtain u where "u \<in> set (unique_urls refs [])" "obtained W svc u = Err e"
    using run_err_inv [OF run unique_urls_distinct assms(2)] by (auto simp: err_inv_def)
  with Inr show ?thesis by (auto simp: unique_urls_set)
qed (use assms(1) in \<open>simp add: materialize_request_images_with_services_def\<close>)

section \<open>Properties\<close>

text \<open>
  C11: Whatever the interleaving, a run that succeeds returns the request unchanged with one
  replacement per reference, in order: the reference's pointer, and a blob that holds the
  bytes its URL delivered, with their type.  Every distinct URL was stored once, earlier
  blobs are untouched, and the blob invariant holds.
\<close>

theorem materialize_replacements:
  assumes "materialize_request_images_with_services W svc schedule request s = Some (Ok m, told, s')"
    and "scan_request_image_urls request = Ok refs"
    and "blob_inv s" "images_fit W svc" "unat (next_id_ctr s) + 7 < 2 ^ 64"
  shows "mat_request m = request
    \<and> map repl_pointer (mat_replacements m) = map json_pointer refs
    \<and> (\<forall>i < length refs. \<exists>d. obtained W svc (ref_url (refs ! i)) = Ok d
         \<and> repl_mime (mat_replacements m ! i) = fetched_mime d
         \<and> blob_contents s' (repl_blob (mat_replacements m ! i)) = Some (fetched_bytes d))
    \<and> length (heap s') = length (heap s) + card (ref_url ` set refs)
    \<and> blob_contents s \<subseteq>\<^sub>m blob_contents s' \<and> blob_inv s'"
proof -
  from materialize_Ok [OF assms(1,3-5)] assms(2)
  have *: "mat_request m = request" "list_all2 (replaces W svc s') refs (mat_replacements m)"
    "length (heap s') = length (heap s) + card (ref_url ` set refs)" "keeps_blobs s s'" "blob_inv s'" by auto
  have "map repl_pointer (mat_replacements m) = map json_pointer refs"
    using *(2) by (intro nth_equalityI) (auto simp: list_all2_conv_all_nth replaces_def)
  moreover have "\<forall>i < length refs. \<exists>d. obtained W svc (ref_url (refs ! i)) = Ok d
         \<and> repl_mime (mat_replacements m ! i) = fetched_mime d
         \<and> blob_contents s' (repl_blob (mat_replacements m ! i)) = Some (fetched_bytes d)"
    using *(2) by (auto simp: list_all2_conv_all_nth replaces_def)
  ultimately show ?thesis using *(1,3-5) by (simp add: keeps_blobs_def)
qed

definition demo_mat :: request_materialize_services where
  "demo_mat =
     \<lparr>image_client = demo_http ''a.b'', mat_max_image_bytes = 8, mat_allow_private_networks = True,
      enable_webp_optimization = False,
      mat_fetch_service = Some (\<lambda>u. if u = ''http://h/a''
        then Ok \<lparr>result_mime = ''image/png'', result_bytes = ''abcd'', from_cache = False\<rparr> else Err (Message ''no such image'')),
      cache_observer = True\<rparr>"

definition demo_work :: work_world where
  "demo_work = \<lparr>work_codec = demo_codec, fetch_elapsed = (\<lambda>_. 5), store_elapsed = (\<lambda>_. 1)\<rparr>"

abbreviation demo_schedule :: "event list" where
  "demo_schedule \<equiv> [Acquire ''http://h/a'', Work ''http://h/a'', Join ''http://h/a'']"

lemma demo_images_fit: "images_fit demo_work demo_mat"
  by (auto simp: images_fit_def obtained_def demo_mat_def fits_def split: if_splits)

lemmas demo_run_simps =
  materialize_request_images_with_services_def fetch_request_image_def work_done_def start_run_def
  MAX_CONCURRENT_REQUEST_IMAGE_FETCHES_def demo_mat_def demo_work_def store_shared_bytes_def demo_runtime_def runtime_new_def
  demo_config_def runtime_op_defs checked_add_def all_joined_def Let_def

lemma demo_materialize:
  "\<exists>m s'. materialize_request_images_with_services demo_work demo_mat demo_schedule demo_request demo_runtime
     = Some (Ok m, [(''http://h/a'', False)], s')"
  by (simp add: demo_run_simps demo_request_scan)

theorem materialize_replacements_witness:
  "\<exists>m s'. materialize_request_images_with_services demo_work demo_mat demo_schedule demo_request demo_runtime
       = Some (Ok m, [(''http://h/a'', False)], s')
     \<and> map repl_pointer (mat_replacements m) = [''/contents/0/inlineData'']
     \<and> blob_contents s' (repl_blob (mat_replacements m ! 0)) = Some ''abcd''"
proof -
  from demo_materialize obtain m s' where run:
    "materialize_request_images_with_services demo_work demo_mat demo_schedule demo_request demo_runtime
       = Some (Ok m, [(''http://h/a'', False)], s')" by blast
  have "unat (next_id_ctr demo_runtime) + 7 < 2 ^ 64" by (simp add: demo_runtime_def runtime_new_def)
  from materialize_replacements [OF run demo_request_scan(2) demo_runtime_ready(1) demo_images_fit this] run
  show ?thesis by (auto simp: obtained_def demo_mat_def)
qed

text \<open>
  C13: The semaphore works: at every moment of every schedule no more than four tasks hold a
  permit, each distinct URL has exactly one task, and the free permits are the rest.
\<close>

theorem fetches_bounded:
  assumes "run_events W svc events (start_run (unique_urls refs []) s) = Some st"
  shows "card {u. task st u = Some Permitted} \<le> 4 \<and> dom (task st) = ref_url ` set refs
    \<and> permits st + card {u. task st u = Some Permitted} = 4"
proof -
  let ?urls = "unique_urls refs []"
  have inv: "sched_inv ?urls st"
    using assms sched_inv_start [OF unique_urls_distinct] sched_inv_step by (rule run_events_invariant)
  then have d: "dom (task st) = set ?urls" by (simp add: sched_inv_def)
  have "{u. task st u = Some Permitted} = set (filter (\<lambda>u. running (task st u)) ?urls)"
    using d by (auto simp: running_def)
  moreover have "distinct (filter (\<lambda>u. running (task st u)) ?urls)" by (simp add: unique_urls_distinct)
  ultimately have "card {u. task st u = Some Permitted} = tally running ?urls (task st)"
    by (metis distinct_card tally_def)
  with inv d show ?thesis
    by (simp add: sched_inv_def MAX_CONCURRENT_REQUEST_IMAGE_FETCHES_def unique_urls_set)
qed

theorem fetches_bounded_witness:
  "\<exists>st. run_events demo_work demo_mat [Acquire ''http://h/a'']
       (start_run (unique_urls [\<lparr>json_pointer = ''/x'', ref_url = ''http://h/a''\<rparr>] []) demo_runtime) = Some st
     \<and> permits st + card {u. task st u = Some Permitted} = 4"
proof -
  obtain st where run: "run_events demo_work demo_mat [Acquire ''http://h/a'']
       (start_run (unique_urls [\<lparr>json_pointer = ''/x'', ref_url = ''http://h/a''\<rparr>] []) demo_runtime) = Some st"
    by (simp add: start_run_def MAX_CONCURRENT_REQUEST_IMAGE_FETCHES_def)
  from fetches_bounded [OF this] this show ?thesis by blast
qed

text \<open>
  No schedule gets stuck or goes on forever: a schedule has at most three events per
  distinct URL, and whatever has happened so far, some continuation is a complete run with a
  result.
\<close>

theorem materialize_completes:
  assumes "scan_request_image_urls request = Ok refs"
    and "run_events W svc events (start_run (unique_urls refs []) s) = Some st"
  shows "length events \<le> 3 * card (ref_url ` set refs)
    \<and> (\<exists>rest. materialize_request_images_with_services W svc (events @ rest) request s \<noteq> None)"
proof -
  let ?urls = "unique_urls refs []"
  note start = sched_inv_start [OF unique_urls_distinct, of refs "[]" s]
  have inv: "sched_inv ?urls st" using assms(2) start sched_inv_step by (rule run_events_invariant)
  have "pending ?urls (start_run ?urls s) = 3 * length ?urls" by (rule pending_start)
  moreover have "card (ref_url ` set refs) = length ?urls"
    using distinct_card [OF unique_urls_distinct [of refs "[]"]] by (simp add: unique_urls_set)
  ultimately have "length events \<le> 3 * card (ref_url ` set refs)"
    using run_events_pending [OF assms(2) start] by simp
  moreover obtain rest st' where "run_events W svc rest st = Some st'" "failure st' \<noteq> None \<or> all_joined ?urls st'"
    using run_completes [OF inv] by blast
  with assms have "materialize_request_images_with_services W svc (events @ rest) request s \<noteq> None"
    by (auto simp: materialize_request_images_with_services_def run_events_append Let_def split: option.splits)
  ultimately show ?thesis by blast
qed

theorem materialize_completes_witness:
  "\<exists>rest. materialize_request_images_with_services demo_work demo_mat ([Acquire ''http://h/a''] @ rest) demo_request demo_runtime
     \<noteq> None"
proof -
  obtain st where "run_events demo_work demo_mat [Acquire ''http://h/a'']
       (start_run (unique_urls [\<lparr>json_pointer = ''/contents/0/inlineData'', ref_url = ''http://h/a''\<rparr>] []) demo_runtime) = Some st"
    by (simp add: start_run_def MAX_CONCURRENT_REQUEST_IMAGE_FETCHES_def)
  from materialize_completes [OF demo_request_scan(2) this] show ?thesis by blast
qed

text \<open>
  With a healthy spill directory the download fails only for its own reasons: the request
  names too many URLs, or one of its images could not be obtained, and then the error is that
  one; it never fails for want of a blob.
\<close>

theorem materialize_errors:
  assumes "materialize_request_images_with_services W svc schedule request s = Some (Err e, told, s')"
    and "io_error s = Map.empty" "blob_inv s" "images_fit W svc" "unat (next_id_ctr s) + 7 < 2 ^ 64"
  shows "scan_request_image_urls request = Err e
    \<or> (\<exists>refs r. scan_request_image_urls request = Ok refs \<and> r \<in> set refs \<and> obtained W svc (ref_url r) = Err e)"
  using materialize_error_cause [OF assms] .

definition two_images :: json where
  "two_images = JArray [JObject [(''inlineData'', JObject [(''data'', JString ''http://h/a'')])],
                        JObject [(''inlineData'', JObject [(''data'', JString ''http://h/b'')])]]"

lemma two_images_scan:
  "scan_request_image_urls two_images =
     Ok [\<lparr>json_pointer = ''/0/inlineData'', ref_url = ''http://h/a''\<rparr>, \<lparr>json_pointer = ''/1/inlineData'', ref_url = ''http://h/b''\<rparr>]"
  by code_simp

abbreviation failing_schedule :: "event list" where
  "failing_schedule \<equiv>
     [Acquire ''http://h/a'', Acquire ''http://h/b'', Work ''http://h/a'', Work ''http://h/b'', Join ''http://h/b'']"

lemma failing_run:
  "\<exists>s'. materialize_request_images_with_services demo_work demo_mat failing_schedule two_images demo_runtime
       = Some (Err (Message ''no such image''), [(''http://h/a'', False)], s')
     \<and> blob_contents s' 0 = Some ''abcd''"
  by (simp add: demo_run_simps two_images_scan blob_contents_def)

theorem materialize_errors_witness:
  "\<exists>s'. materialize_request_images_with_services demo_work demo_mat failing_schedule two_images demo_runtime
       = Some (Err (Message ''no such image''), [(''http://h/a'', False)], s')
     \<and> (\<exists>u. obtained demo_work demo_mat u = Err (Message ''no such image''))"
proof -
  from failing_run obtain s' where run:
    "materialize_request_images_with_services demo_work demo_mat failing_schedule two_images demo_runtime
       = Some (Err (Message ''no such image''), [(''http://h/a'', False)], s')" by blast
  have "unat (next_id_ctr demo_runtime) + 7 < 2 ^ 64" by (simp add: demo_runtime_def runtime_new_def)
  from materialize_errors [OF run demo_runtime_ready(3,1) demo_images_fit this] run two_images_scan show ?thesis by auto
qed


section \<open>The body that is sent\<close>

text \<open>
  The document with every image reference replaced by the image itself: what downloading
  and encoding are for.
\<close>

definition inlined_at :: "(bytes \<Rightarrow> bytes) \<Rightarrow> work_world \<Rightarrow> request_materialize_services \<Rightarrow> request_image_ref list
    \<Rightarrow> string \<Rightarrow> json option" where
  "inlined_at enc W svc refs p =
     map_option (\<lambda>u. case obtained W svc u of
                      Inl e \<Rightarrow> JNull
                    | Inr d \<Rightarrow> image_value enc (fetched_mime d) (fetched_bytes d))
       (map_of (map (\<lambda>r. (json_pointer r, ref_url r)) refs) p)"

definition inlined_document :: "(bytes \<Rightarrow> bytes) \<Rightarrow> work_world \<Rightarrow> request_materialize_services \<Rightarrow> request_image_ref list
    \<Rightarrow> json \<Rightarrow> json" where
  "inlined_document enc W svc refs request = patch (inlined_at enc W svc refs) [] (strip_output_from_value request)"

lemma map_of_rev_distinct: "distinct (map fst xs) \<Longrightarrow> map_of (rev xs) = map_of xs"
  by (subst map_of_inject_set) (simp_all flip: rev_map)

lemma image_at_inlined:
  assumes "list_all2 (replaces W svc s) refs rs" "distinct (map json_pointer refs)"
  shows "image_at enc rs s = inlined_at enc W svc refs"
proof
  fix p
  have ptr: "map repl_pointer rs = map json_pointer refs"
    using assms(1) by (intro nth_equalityI) (auto simp: list_all2_conv_all_nth replaces_def)
  have "replacement_map rs = map_of (map (\<lambda>r. (repl_pointer r, r)) rs)"
    unfolding replacement_map_def using assms(2) ptr by (intro map_of_rev_distinct) (simp add: comp_def)
  moreover have "map_option (\<lambda>r. image_value enc (repl_mime r) (the (blob_contents s (repl_blob r))))
        (map_of (map (\<lambda>r. (repl_pointer r, r)) rs) p) = inlined_at enc W svc refs p"
    using assms(1) unfolding inlined_at_def by induction (auto simp: replaces_def)
  ultimately show "image_at enc rs s p = inlined_at enc W svc refs p" by (simp add: image_at_def)
qed

lemma replaces_live: "list_all2 (replaces W svc s) refs rs \<Longrightarrow> r \<in> set rs \<Longrightarrow> blob_contents s (repl_blob r) \<noteq> None"
  by (induction rule: list_all2_induct) (auto simp: replaces_def)

end
