(* ===== verification/Env_Config.thy ===== *)
theory Env_Config
  imports Image_Io
begin

text \<open>
  Configuration from environment variables (rust-sync-proxy/src/config.rs).  The environment
  is a partial function from names to values.  Durations are their number of milliseconds as
  the 64-bit words they are parsed from.  The URL parser and printer of the \<open>url\<close> crate are
  the parameter \<open>url_ops\<close>.

  Shown here: what holds of every configuration that \<open>from_env_map\<close> accepts, in which cases it
  accepts at all, and that the blob budgets derived from the memory size are ordered.
\<close>

section \<open>Constants and data\<close>

definition DEFAULT_PORT :: u16 where
  "DEFAULT_PORT = 8787"

definition DEFAULT_UPSTREAM_TIMEOUT_MS :: u64 where
  "DEFAULT_UPSTREAM_TIMEOUT_MS = 600000"

definition DEFAULT_UPSTREAM_CONNECT_TIMEOUT_MS :: u64 where
  "DEFAULT_UPSTREAM_CONNECT_TIMEOUT_MS = 10000"

definition DEFAULT_UPSTREAM_TCP_KEEPALIVE_MS :: u64 where
  "DEFAULT_UPSTREAM_TCP_KEEPALIVE_MS = 30000"

definition DEFAULT_UPSTREAM_POOL_IDLE_TIMEOUT_MS :: u64 where
  "DEFAULT_UPSTREAM_POOL_IDLE_TIMEOUT_MS = 15000"

definition DEFAULT_SLOW_LOG_THRESHOLD_MS :: u64 where
  "DEFAULT_SLOW_LOG_THRESHOLD_MS = 100000"

definition DEFAULT_IMAGE_FETCH_TIMEOUT_MS :: u64 where
  "DEFAULT_IMAGE_FETCH_TIMEOUT_MS = 20000"

definition DEFAULT_UPLOAD_TIMEOUT_MS :: u64 where
  "DEFAULT_UPLOAD_TIMEOUT_MS = 20000"

definition DEFAULT_IMAGE_TLS_HANDSHAKE_TIMEOUT_MS :: u64 where
  "DEFAULT_IMAGE_TLS_HANDSHAKE_TIMEOUT_MS = 15000"

definition DEFAULT_UPLOAD_TLS_HANDSHAKE_TIMEOUT_MS :: u64 where
  "DEFAULT_UPLOAD_TLS_HANDSHAKE_TIMEOUT_MS = 10000"

definition DEFAULT_INSTANCE_MEMORY_BYTES :: u64 where
  "DEFAULT_INSTANCE_MEMORY_BYTES = 2 * 1024 * 1024 * 1024"

definition DEFAULT_INLINE_DATA_URL_CACHE_TTL_MS :: u64 where
  "DEFAULT_INLINE_DATA_URL_CACHE_TTL_MS = 3600000"

definition DEFAULT_INLINE_DATA_URL_CACHE_MAX_BYTES :: u64 where
  "DEFAULT_INLINE_DATA_URL_CACHE_MAX_BYTES = 1073741824"

definition DEFAULT_INLINE_DATA_URL_MEMORY_CACHE_MAX_BYTES :: u64 where
  "DEFAULT_INLINE_DATA_URL_MEMORY_CACHE_MAX_BYTES = 100 * 1024 * 1024"

definition DEFAULT_INLINE_DATA_URL_BACKGROUND_FETCH_TOTAL_TIMEOUT_MS :: u64 where
  "DEFAULT_INLINE_DATA_URL_BACKGROUND_FETCH_TOTAL_TIMEOUT_MS = 90000"

definition DEFAULT_INLINE_DATA_URL_BACKGROUND_FETCH_MAX_INFLIGHT :: nat where
  "DEFAULT_INLINE_DATA_URL_BACKGROUND_FETCH_MAX_INFLIGHT = 128"

definition DEFAULT_BLOB_INLINE_MAX_BYTES :: u64 where
  "DEFAULT_BLOB_INLINE_MAX_BYTES = 8 * 1024 * 1024"

definition DEFAULT_BLOB_REQUEST_HOT_BUDGET_BYTES :: u64 where
  "DEFAULT_BLOB_REQUEST_HOT_BUDGET_BYTES = 24 * 1024 * 1024"

definition DEFAULT_BLOB_GLOBAL_HOT_BUDGET_BYTES :: u64 where
  "DEFAULT_BLOB_GLOBAL_HOT_BUDGET_BYTES = 384 * 1024 * 1024"

definition DEFAULT_IMAGE_COMPRESSION_JPEG_QUALITY :: u8 where
  "DEFAULT_IMAGE_COMPRESSION_JPEG_QUALITY = 97"

definition DEFAULT_UPSTREAM_BASE_URL :: string where
  "DEFAULT_UPSTREAM_BASE_URL = ''https://magic666.top''"

definition DEFAULT_BLOB_SPILL_DIR :: string where
  "DEFAULT_BLOB_SPILL_DIR = ''/tmp/rust-sync-proxy-blobs''"

definition DEFAULT_LEGACY_UGUU_UPLOAD_URL :: string where
  "DEFAULT_LEGACY_UGUU_UPLOAD_URL = ''https://uguu.se/upload''"

definition DEFAULT_LEGACY_KEFAN_UPLOAD_URL :: string where
  "DEFAULT_LEGACY_KEFAN_UPLOAD_URL = ''https://ai.kefan.cn/api/upload/local''"

record blob_budget_defaults =
  default_inline_max_bytes :: u64
  default_request_hot_budget_bytes :: u64
  default_global_hot_budget_bytes :: u64

record config =
  cfg_port :: u16
  upstream_base_url :: string
  upstream_api_key :: string
  upstream_timeout :: u64
  upstream_connect_timeout :: u64
  upstream_tcp_keepalive :: u64
  upstream_pool_idle_timeout :: u64
  image_host_mode :: string
  allowed_proxy_domains :: "string list"
  public_base_url :: string
  external_image_proxy_prefix :: string
  slow_log_threshold :: u64
  proxy_standard_output_urls :: bool
  proxy_special_upstream_urls :: bool
  enable_image_compression :: bool
  enable_request_image_webp_optimization :: bool
  image_compression_jpeg_quality :: u8
  admin_password :: string
  image_fetch_timeout :: u64
  image_tls_handshake_timeout :: u64
  image_fetch_insecure_skip_verify :: bool
  image_fetch_external_proxy_domains :: "string list"
  inline_data_url_cache_dir :: string
  inline_data_url_cache_ttl :: u64
  inline_data_url_cache_max_bytes :: u64
  inline_data_url_memory_cache_max_bytes :: u64
  inline_data_url_background_fetch_wait_timeout :: u64
  inline_data_url_background_fetch_total_timeout :: u64
  inline_data_url_background_fetch_max_inflight :: nat
  blob_inline_max_bytes :: u64
  blob_request_hot_budget_bytes :: u64
  blob_global_hot_budget_bytes :: u64
  blob_spill_dir :: string
  upload_timeout :: u64
  upload_tls_handshake_timeout :: u64
  upload_insecure_skip_verify :: bool
  legacy_uguu_upload_url :: string
  legacy_kefan_upload_url :: string
  r2_endpoint :: string
  r2_bucket :: string
  r2_access_key_id :: string
  r2_secret_access_key :: string
  r2_public_base_url :: string
  r2_object_prefix :: string

type_synonym env_map = "string \<Rightarrow> string option"

text \<open>\<open>Url::parse\<close> with the text of its error, and the printer.\<close>

record url_ops =
  url_parse :: "string \<Rightarrow> string + url"
  url_text :: "url \<Rightarrow> string"

section \<open>Parsers of single values\<close>

definition and_then_opt :: "'a option \<Rightarrow> ('a \<Rightarrow> 'b option) \<Rightarrow> 'b option" where
  "and_then_opt x f = (case x of None \<Rightarrow> None | Some y \<Rightarrow> f y)"

definition parse_port :: "string \<Rightarrow> u16 option" where
  "parse_port raw = (let trimmed = str_trim raw in if trimmed = [] then None else parse_u16 trimmed)"

definition parse_positive_u64_with_default :: "string option \<Rightarrow> u64 \<Rightarrow> u64" where
  "parse_positive_u64_with_default v d =
     unwrap_or d (filter_option (\<lambda>n. n > 0) (and_then_opt v (\<lambda>raw. parse_u64 (str_trim raw))))"

definition parse_non_negative_u64_with_default :: "string option \<Rightarrow> u64 \<Rightarrow> u64" where
  "parse_non_negative_u64_with_default v d = unwrap_or d (and_then_opt v (\<lambda>raw. parse_u64 (str_trim raw)))"

text \<open>\<open>usize\<close> has 64 bits.\<close>

definition parse_non_negative_usize_with_default :: "string option \<Rightarrow> nat \<Rightarrow> nat" where
  "parse_non_negative_usize_with_default v d =
     unwrap_or d (and_then_opt v (\<lambda>raw. parse_unsigned (2 ^ 64) (str_trim raw)))"

definition parse_jpeg_quality :: "string option \<Rightarrow> u8 \<Rightarrow> u8" where
  "parse_jpeg_quality v d =
     unwrap_or d (filter_option (\<lambda>q. 1 \<le> q \<and> q \<le> 100) (and_then_opt v (\<lambda>raw. parse_u8 (str_trim raw))))"

definition is_disabled_value :: "string \<Rightarrow> bool" where
  "is_disabled_value raw =
     (to_ascii_lowercase (str_trim raw) \<in>
        set [[], ''0'', ''false'', ''no'', ''n'', ''off'', ''disable'', ''disabled'', ''none''])"

definition parse_cache_bytes :: "string option \<Rightarrow> u64 \<Rightarrow> u64" where
  "parse_cache_bytes v d =
     (case map_option str_trim v of
        Some raw \<Rightarrow> if is_disabled_value raw then 0 else unwrap_or d (parse_u64 raw)
      | None \<Rightarrow> d)"

definition parse_wait_timeout_ms :: "string option \<Rightarrow> u64 \<Rightarrow> u64" where
  "parse_wait_timeout_ms v d = unwrap_or d (and_then_opt v (\<lambda>raw. parse_u64 (str_trim raw)))"

definition parse_csv :: "string \<Rightarrow> string list" where
  "parse_csv raw = filter (\<lambda>part. part \<noteq> []) (map str_trim (split_on (CHR '','') raw))"

definition parse_optional_string_with_disabled :: "string \<Rightarrow> string" where
  "parse_optional_string_with_disabled raw = (if is_disabled_value raw then [] else str_trim raw)"

definition parse_http_base_url :: "url_ops \<Rightarrow> string \<Rightarrow> string \<Rightarrow> string + string" where
  "parse_http_base_url U raw env_name =
     (let trimmed = str_trim raw
      in if trimmed = [] then Err (env_name @ '' is empty'')
         else
           (case url_parse U trimmed of
              Inl err \<Rightarrow> Err (''parse '' @ env_name @ '': '' @ err)
            | Inr parsed \<Rightarrow>
                if \<not> (scheme parsed = ''http'' \<or> scheme parsed = ''https'')
                then Err (env_name @ '' must use http or https'')
                else if str_trim (unwrap_or [] (host_str parsed)) = [] then Err (env_name @ '' host is empty'')
                else Ok (trim_end_matches (CHR ''/'') (url_text U (parsed\<lparr>url_fragment := None\<rparr>)))))"

definition normalize_optional_http_base_url :: "url_ops \<Rightarrow> string \<Rightarrow> string" where
  "normalize_optional_http_base_url U raw =
     (if is_disabled_value raw then []
      else (case parse_http_base_url U raw ''PUBLIC_BASE_URL'' of Inl _ \<Rightarrow> [] | Inr s \<Rightarrow> s))"

definition parse_bool :: "string option \<Rightarrow> bool \<Rightarrow> bool" where
  "parse_bool v d =
     (case map_option (\<lambda>s. to_ascii_lowercase (str_trim s)) v of
        Some s \<Rightarrow>
          if s \<in> set [''1'', ''true'', ''yes'', ''y'', ''on'', ''enable'', ''enabled''] then True
          else if s \<in> set [''0'', ''false'', ''no'', ''n'', ''off'', ''disable'', ''disabled'', ''none''] then False
          else d
      | None \<Rightarrow> d)"

definition default_allowed_proxy_domains :: "string list" where
  "default_allowed_proxy_domains = [''ai.kefan.cn'', ''uguu.se'', ''.uguu.se'', ''.aitohumanize.com'']"

definition blob_budget_defaults_for_memory :: "u64 \<Rightarrow> blob_budget_defaults" where
  "blob_budget_defaults_for_memory memory_bytes =
     (if memory_bytes \<ge> 8 * 1024 * 1024 * 1024 then
        \<lparr>default_inline_max_bytes = 16 * 1024 * 1024, default_request_hot_budget_bytes = 64 * 1024 * 1024,
         default_global_hot_budget_bytes = 1536 * 1024 * 1024\<rparr>
      else if memory_bytes \<ge> 4 * 1024 * 1024 * 1024 then
        \<lparr>default_inline_max_bytes = 12 * 1024 * 1024, default_request_hot_budget_bytes = 40 * 1024 * 1024,
         default_global_hot_budget_bytes = 768 * 1024 * 1024\<rparr>
      else
        \<lparr>default_inline_max_bytes = DEFAULT_BLOB_INLINE_MAX_BYTES,
         default_request_hot_budget_bytes = DEFAULT_BLOB_REQUEST_HOT_BUDGET_BYTES,
         default_global_hot_budget_bytes = DEFAULT_BLOB_GLOBAL_HOT_BUDGET_BYTES\<rparr>)"

section \<open>The configuration\<close>

fun first_blank :: "(string \<times> string) list \<Rightarrow> string option" where
  "first_blank [] = None"
| "first_blank ((name, v) # r) = (if str_trim v = [] then Some name else first_blank r)"

definition validate :: "url_ops \<Rightarrow> config \<Rightarrow> string + unit" where
  "validate U c =
     (if image_host_mode c \<notin> set [[], ''legacy'', ''r2'', ''r2_then_legacy'']
      then Err (''IMAGE_HOST_MODE must be one of legacy, r2, r2_then_legacy, got '' @ image_host_mode c)
      else if image_host_mode c \<in> set [''r2'', ''r2_then_legacy''] then
        (case first_blank [(''R2_ENDPOINT'', r2_endpoint c), (''R2_BUCKET'', r2_bucket c),
             (''R2_ACCESS_KEY_ID'', r2_access_key_id c), (''R2_SECRET_ACCESS_KEY'', r2_secret_access_key c),
             (''R2_PUBLIC_BASE_URL'', r2_public_base_url c)] of
           Some name \<Rightarrow> Err (name @ '' is required when IMAGE_HOST_MODE is r2 or r2_then_legacy'')
         | None \<Rightarrow>
             (case parse_http_base_url U (r2_endpoint c) ''R2_ENDPOINT'' of
                Inl err \<Rightarrow> Err (''R2_ENDPOINT is invalid: '' @ err)
              | Inr _ \<Rightarrow>
                  (case parse_http_base_url U (r2_public_base_url c) ''R2_PUBLIC_BASE_URL'' of
                     Inl err \<Rightarrow> Err err
                   | Inr _ \<Rightarrow> Ok ())))
      else Ok ())"

definition read_config :: "url_ops \<Rightarrow> env_map \<Rightarrow> config" where
  "read_config U env =
     (let blob_budget_defaults = blob_budget_defaults_for_memory
            (parse_non_negative_u64_with_default (env ''INSTANCE_MEMORY_BYTES'') DEFAULT_INSTANCE_MEMORY_BYTES);
          image_fetch_timeout_ms_raw =
            parse_positive_u64_with_default (env ''IMAGE_FETCH_TIMEOUT_MS'') DEFAULT_IMAGE_FETCH_TIMEOUT_MS
      in
     \<lparr>cfg_port = unwrap_or DEFAULT_PORT (and_then_opt (env ''PORT'') parse_port),
      upstream_base_url = unwrap_or DEFAULT_UPSTREAM_BASE_URL (filter_option (\<lambda>v. v \<noteq> []) (map_option str_trim (env ''UPSTREAM_BASE_URL''))),
      upstream_api_key = unwrap_or [] (env ''UPSTREAM_API_KEY''),
      upstream_timeout = parse_positive_u64_with_default (env ''UPSTREAM_TIMEOUT_MS'') DEFAULT_UPSTREAM_TIMEOUT_MS,
      upstream_connect_timeout = parse_positive_u64_with_default (env ''UPSTREAM_CONNECT_TIMEOUT_MS'') DEFAULT_UPSTREAM_CONNECT_TIMEOUT_MS,
      upstream_tcp_keepalive = parse_positive_u64_with_default (env ''UPSTREAM_TCP_KEEPALIVE_MS'') DEFAULT_UPSTREAM_TCP_KEEPALIVE_MS,
      upstream_pool_idle_timeout = parse_positive_u64_with_default (env ''UPSTREAM_POOL_IDLE_TIMEOUT_MS'') DEFAULT_UPSTREAM_POOL_IDLE_TIMEOUT_MS,
      image_host_mode = to_ascii_lowercase (unwrap_or ''legacy'' (filter_option (\<lambda>v. v \<noteq> []) (map_option str_trim (env ''IMAGE_HOST_MODE'')))),
      allowed_proxy_domains = unwrap_or default_allowed_proxy_domains (filter_option (\<lambda>v. v \<noteq> []) (map_option parse_csv (env ''ALLOWED_PROXY_DOMAINS''))),
      public_base_url = unwrap_or [] (map_option (normalize_optional_http_base_url U) (env ''PUBLIC_BASE_URL'')),
      external_image_proxy_prefix = unwrap_or [] (map_option parse_optional_string_with_disabled (env ''EXTERNAL_IMAGE_PROXY_PREFIX'')),
      slow_log_threshold = parse_non_negative_u64_with_default (env ''SLOW_LOG_THRESHOLD_MS'') DEFAULT_SLOW_LOG_THRESHOLD_MS,
      proxy_standard_output_urls = parse_bool (env ''PROXY_STANDARD_OUTPUT_URLS'') True,
      proxy_special_upstream_urls = parse_bool (env ''PROXY_SPECIAL_UPSTREAM_URLS'') True,
      enable_image_compression = parse_bool (env ''ENABLE_IMAGE_COMPRESSION'') False,
      enable_request_image_webp_optimization = parse_bool (env ''ENABLE_REQUEST_IMAGE_WEBP_OPTIMIZATION'') False,
      image_compression_jpeg_quality = parse_jpeg_quality (env ''IMAGE_COMPRESSION_JPEG_QUALITY'') DEFAULT_IMAGE_COMPRESSION_JPEG_QUALITY,
      admin_password = unwrap_or [] (map_option parse_optional_string_with_disabled (env ''ADMIN_PASSWORD'')),
      image_fetch_timeout = image_fetch_timeout_ms_raw,
      image_tls_handshake_timeout = parse_positive_u64_with_default (env ''IMAGE_TLS_HANDSHAKE_TIMEOUT_MS'') DEFAULT_IMAGE_TLS_HANDSHAKE_TIMEOUT_MS,
      image_fetch_insecure_skip_verify = parse_bool (env ''IMAGE_FETCH_INSECURE_SKIP_VERIFY'') False,
      image_fetch_external_proxy_domains = unwrap_or [] (map_option parse_csv (env ''IMAGE_FETCH_EXTERNAL_PROXY_DOMAINS'')),
      inline_data_url_cache_dir = unwrap_or [] (map_option parse_optional_string_with_disabled (env ''INLINE_DATA_URL_CACHE_DIR'')),
      inline_data_url_cache_ttl = parse_non_negative_u64_with_default (env ''INLINE_DATA_URL_CACHE_TTL_MS'') DEFAULT_INLINE_DATA_URL_CACHE_TTL_MS,
      inline_data_url_cache_max_bytes = parse_non_negative_u64_with_default (env ''INLINE_DATA_URL_CACHE_MAX_BYTES'') DEFAULT_INLINE_DATA_URL_CACHE_MAX_BYTES,
      inline_data_url_memory_cache_max_bytes = parse_cache_bytes (env ''INLINE_DATA_URL_MEMORY_CACHE_MAX_BYTES'') DEFAULT_INLINE_DATA_URL_MEMORY_CACHE_MAX_BYTES,
      inline_data_url_background_fetch_wait_timeout = parse_wait_timeout_ms (env ''INLINE_DATA_URL_BACKGROUND_FETCH_WAIT_TIMEOUT_MS'') image_fetch_timeout_ms_raw,
      inline_data_url_background_fetch_total_timeout = parse_non_negative_u64_with_default (env ''INLINE_DATA_URL_BACKGROUND_FETCH_TOTAL_TIMEOUT_MS'') DEFAULT_INLINE_DATA_URL_BACKGROUND_FETCH_TOTAL_TIMEOUT_MS,
      inline_data_url_background_fetch_max_inflight = parse_non_negative_usize_with_default (env ''INLINE_DATA_URL_BACKGROUND_FETCH_MAX_INFLIGHT'') DEFAULT_INLINE_DATA_URL_BACKGROUND_FETCH_MAX_INFLIGHT,
      blob_inline_max_bytes = parse_non_negative_u64_with_default (env ''BLOB_INLINE_MAX_BYTES'') (default_inline_max_bytes blob_budget_defaults),
      blob_request_hot_budget_bytes = parse_non_negative_u64_with_default (env ''BLOB_REQUEST_HOT_BUDGET_BYTES'') (default_request_hot_budget_bytes blob_budget_defaults),
      blob_global_hot_budget_bytes = parse_non_negative_u64_with_default (env ''BLOB_GLOBAL_HOT_BUDGET_BYTES'') (default_global_hot_budget_bytes blob_budget_defaults),
      blob_spill_dir = unwrap_or DEFAULT_BLOB_SPILL_DIR (filter_option (\<lambda>v. v \<noteq> []) (map_option parse_optional_string_with_disabled (env ''BLOB_SPILL_DIR''))),
      upload_timeout = parse_positive_u64_with_default (env ''UPLOAD_TIMEOUT_MS'') DEFAULT_UPLOAD_TIMEOUT_MS,
      upload_tls_handshake_timeout = parse_positive_u64_with_default (env ''UPLOAD_TLS_HANDSHAKE_TIMEOUT_MS'') DEFAULT_UPLOAD_TLS_HANDSHAKE_TIMEOUT_MS,
      upload_insecure_skip_verify = parse_bool (env ''UPLOAD_INSECURE_SKIP_VERIFY'') False,
      legacy_uguu_upload_url = DEFAULT_LEGACY_UGUU_UPLOAD_URL,
      legacy_kefan_upload_url = DEFAULT_LEGACY_KEFAN_UPLOAD_URL,
      r2_endpoint = unwrap_or [] (map_option str_trim (env ''R2_ENDPOINT'')),
      r2_bucket = unwrap_or [] (map_option str_trim (env ''R2_BUCKET'')),
      r2_access_key_id = unwrap_or [] (map_option str_trim (env ''R2_ACCESS_KEY_ID'')),
      r2_secret_access_key = unwrap_or [] (map_option str_trim (env ''R2_SECRET_ACCESS_KEY'')),
      r2_public_base_url = unwrap_or [] (map_option str_trim (env ''R2_PUBLIC_BASE_URL'')),
      r2_object_prefix = unwrap_or ''images'' (filter_option (\<lambda>v. v \<noteq> []) (map_option (\<lambda>v. trim_matches (CHR ''/'') (str_trim v)) (env ''R2_OBJECT_PREFIX'')))\<rparr>)"

definition from_env_map :: "url_ops \<Rightarrow> env_map \<Rightarrow> string + config" where
  "from_env_map U env = (let c = read_config U env in and_then (validate U c) (\<lambda>_. Ok c))"

definition resolved_external_image_proxy_prefix :: "config \<Rightarrow> string" where
  "resolved_external_image_proxy_prefix c =
     (let external_prefix = str_trim (external_image_proxy_prefix c)
      in if external_prefix \<noteq> [] then external_prefix
         else
           (let public_base = trim_end_matches (CHR ''/'') (str_trim (public_base_url c))
            in if public_base = [] then [] else public_base @ ''/proxy/image?url=''))"

section \<open>Lemmas\<close>

lemma and_then_opt_simps [simp]: "and_then_opt None f = None" "and_then_opt (Some x) f = f x"
  by (simp_all add: and_then_opt_def)

lemma positive_default: "0 < d \<Longrightarrow> 0 < parse_positive_u64_with_default v d"
  unfolding parse_positive_u64_with_default_def by (rule unwrap_or_filter)

lemma jpeg_quality_bounds:
  "1 \<le> d \<and> d \<le> 100 \<Longrightarrow> 1 \<le> parse_jpeg_quality v d \<and> parse_jpeg_quality v d \<le> 100"
  unfolding parse_jpeg_quality_def by (rule unwrap_or_filter)

lemma nonempty_default: "d \<noteq> [] \<Longrightarrow> unwrap_or d (filter_option (\<lambda>v. v \<noteq> []) x) \<noteq> []"
  by (cases x) auto

lemma parse_csv_parts: "p \<in> set (parse_csv raw) \<Longrightarrow> p \<noteq> []"
  by (auto simp: parse_csv_def)

lemma first_blank_None: "first_blank xs = None \<longleftrightarrow> (\<forall>(n, v) \<in> set xs. str_trim v \<noteq> [])"
  by (induction xs rule: first_blank.induct) auto

lemma parse_http_base_url_Ok:
  "parse_http_base_url U raw n = Ok s \<Longrightarrow>
     \<exists>u. url_parse U (str_trim raw) = Ok u \<and> (scheme u = ''http'' \<or> scheme u = ''https'')
       \<and> str_trim (unwrap_or [] (host_str u)) \<noteq> []"
  by (auto simp: parse_http_base_url_def Let_def split: if_splits sum.splits)

text \<open>Hosting on R2 is completely configured.\<close>

definition r2_complete :: "url_ops \<Rightarrow> config \<Rightarrow> bool" where
  "r2_complete U c \<longleftrightarrow>
     (\<forall>v \<in> set [r2_endpoint c, r2_bucket c, r2_access_key_id c, r2_secret_access_key c, r2_public_base_url c]. str_trim v \<noteq> [])
   \<and> (\<forall>v \<in> set [r2_endpoint c, r2_public_base_url c].
        \<exists>u. url_parse U (str_trim v) = Ok u \<and> (scheme u = ''http'' \<or> scheme u = ''https'')
          \<and> str_trim (unwrap_or [] (host_str u)) \<noteq> [])"

lemma parse_http_base_url_total:
  assumes "url_parse U (str_trim raw) = Ok u" "scheme u = ''http'' \<or> scheme u = ''https''"
    "str_trim (unwrap_or [] (host_str u)) \<noteq> []" "str_trim raw \<noteq> []"
  shows "\<exists>s. parse_http_base_url U raw n = Ok s"
  using assms by (auto simp: parse_http_base_url_def Let_def)

lemma validate_Ok_iff:
  "validate U c = Ok () \<longleftrightarrow>
     image_host_mode c \<in> {[], ''legacy''} \<or> (image_host_mode c \<in> {''r2'', ''r2_then_legacy''} \<and> r2_complete U c)"
proof (cases "image_host_mode c \<in> {''r2'', ''r2_then_legacy''}")
  case False
  then show ?thesis by (auto simp: validate_def)
next
  case True
  let ?fields = "[(''R2_ENDPOINT'', r2_endpoint c), (''R2_BUCKET'', r2_bucket c),
    (''R2_ACCESS_KEY_ID'', r2_access_key_id c), (''R2_SECRET_ACCESS_KEY'', r2_secret_access_key c),
    (''R2_PUBLIC_BASE_URL'', r2_public_base_url c)]"
  have v: "validate U c = (case first_blank ?fields of
       Some name \<Rightarrow> Err (name @ '' is required when IMAGE_HOST_MODE is r2 or r2_then_legacy'')
     | None \<Rightarrow> (case parse_http_base_url U (r2_endpoint c) ''R2_ENDPOINT'' of
          Inl err \<Rightarrow> Err (''R2_ENDPOINT is invalid: '' @ err)
        | Inr _ \<Rightarrow> (case parse_http_base_url U (r2_public_base_url c) ''R2_PUBLIC_BASE_URL'' of
             Inl err \<Rightarrow> Err err | Inr _ \<Rightarrow> Ok ())))"
    using True by (auto simp: validate_def)
  have mode: "image_host_mode c \<notin> {[], ''legacy''}" using True by auto
  show ?thesis
  proof (cases "first_blank ?fields")
    case None
    then have fields: "\<forall>v \<in> set [r2_endpoint c, r2_bucket c, r2_access_key_id c, r2_secret_access_key c, r2_public_base_url c]. str_trim v \<noteq> []"
      unfolding first_blank_None by simp
    have "validate U c = Ok () \<longleftrightarrow> (\<exists>s. parse_http_base_url U (r2_endpoint c) ''R2_ENDPOINT'' = Ok s)
        \<and> (\<exists>s. parse_http_base_url U (r2_public_base_url c) ''R2_PUBLIC_BASE_URL'' = Ok s)"
      unfolding v None by (simp split: sum.splits)
    moreover have "\<dots> \<longleftrightarrow> r2_complete U c"
      using fields parse_http_base_url_Ok parse_http_base_url_total
      unfolding r2_complete_def by (auto 0 3)
    ultimately show ?thesis using True mode by blast
  next
    case (Some name)
    then have "\<not> (\<forall>(n, v) \<in> set ?fields. str_trim v \<noteq> [])" using first_blank_None [of ?fields] by simp
    then have "\<not> r2_complete U c" by (auto simp: r2_complete_def)
    with mode v Some show ?thesis by simp
  qed
qed

lemma read_config_mode: "image_host_mode (read_config U env) \<noteq> []"
  using nonempty_default [of "''legacy''"] by (simp add: read_config_def Let_def)

lemma trim_matches_ends:
  assumes "trim_matches c s = t" "t \<noteq> []"
  shows "hd t \<noteq> c" "last t \<noteq> c"
proof -
  let ?u = "dropWhile (\<lambda>d. d = c) s"
  let ?r = "dropWhile (\<lambda>d. d = c) (rev ?u)"
  have t: "t = rev ?r" using assms(1) by (simp add: trim_matches_def trim_start_matches_def trim_end_matches_def)
  then have r: "?r \<noteq> []" using assms(2) by simp
  then show "last t \<noteq> c" using t hd_dropWhile [OF r] by (simp add: last_rev)
  obtain v where "rev ?u = v @ ?r" by (metis takeWhile_dropWhile_id)
  then have u: "?u = t @ rev v" by (metis rev_append rev_rev_ident t)
  with assms(2) have "?u \<noteq> []" "hd t = hd ?u" by auto
  then show "hd t \<noteq> c" using hd_dropWhile [of "\<lambda>d. d = c" s] by auto
qed

section \<open>Properties\<close>

text \<open>
  \<open>from_env_map\<close> accepts an environment exactly when the image host mode is \<open>legacy\<close>, or
  is one of the two R2 modes and the five R2 settings are present with http(s) endpoint and
  public URL; the result is then the configuration as read.
\<close>

theorem from_env_map_accepts:
  "from_env_map U env = Ok c \<longleftrightarrow>
     c = read_config U env
   \<and> (image_host_mode c = ''legacy'' \<or> (image_host_mode c \<in> {''r2'', ''r2_then_legacy''} \<and> r2_complete U c))"
proof -
  have "from_env_map U env = Ok c \<longleftrightarrow> c = read_config U env \<and> validate U c = Ok ()"
    by (auto simp: from_env_map_def and_then_eq_Ok Let_def)
  then show ?thesis using read_config_mode [of U env] by (auto simp: validate_Ok_iff)
qed

lemma from_env_map_read: "from_env_map U env = Ok c \<Longrightarrow> c = read_config U env"
  by (auto simp: from_env_map_def and_then_eq_Ok Let_def)

text \<open>
  Whatever the environment holds, an accepted configuration has non-zero timeouts, a
  JPEG quality from 1 to 100, at least one allowed proxy domain and no blank one, a spill
  directory, and an object prefix that is not empty and neither begins nor ends with a slash.
\<close>

theorem config_bounds:
  assumes "from_env_map U env = Ok c"
  shows "0 < upstream_timeout c \<and> 0 < upstream_connect_timeout c \<and> 0 < image_fetch_timeout c \<and> 0 < upload_timeout c
    \<and> 1 \<le> image_compression_jpeg_quality c \<and> image_compression_jpeg_quality c \<le> 100
    \<and> allowed_proxy_domains c \<noteq> [] \<and> [] \<notin> set (allowed_proxy_domains c)
    \<and> blob_spill_dir c \<noteq> []
    \<and> r2_object_prefix c \<noteq> [] \<and> hd (r2_object_prefix c) \<noteq> CHR ''/'' \<and> last (r2_object_prefix c) \<noteq> CHR ''/''"
proof -
  have c: "c = read_config U env" by (rule from_env_map_read [OF assms])
  have t: "0 < upstream_timeout c" "0 < upstream_connect_timeout c" "0 < image_fetch_timeout c" "0 < upload_timeout c"
    unfolding c read_config_def Let_def config.select_convs
    by (rule positive_default, simp add: DEFAULT_UPSTREAM_TIMEOUT_MS_def DEFAULT_UPSTREAM_CONNECT_TIMEOUT_MS_def
        DEFAULT_IMAGE_FETCH_TIMEOUT_MS_def DEFAULT_UPLOAD_TIMEOUT_MS_def)+
  have q: "1 \<le> image_compression_jpeg_quality c \<and> image_compression_jpeg_quality c \<le> 100"
    unfolding c read_config_def Let_def config.select_convs
    by (rule jpeg_quality_bounds) (simp add: DEFAULT_IMAGE_COMPRESSION_JPEG_QUALITY_def)
  have d: "allowed_proxy_domains c \<noteq> [] \<and> [] \<notin> set (allowed_proxy_domains c)"
    unfolding c read_config_def Let_def config.select_convs
    by (cases "env ''ALLOWED_PROXY_DOMAINS''") (auto simp: default_allowed_proxy_domains_def dest: parse_csv_parts)
  have s: "blob_spill_dir c \<noteq> []"
    unfolding c read_config_def Let_def config.select_convs
    by (rule nonempty_default) (simp add: DEFAULT_BLOB_SPILL_DIR_def)
  have p: "r2_object_prefix c \<noteq> [] \<and> hd (r2_object_prefix c) \<noteq> CHR ''/'' \<and> last (r2_object_prefix c) \<noteq> CHR ''/''"
    unfolding c read_config_def Let_def config.select_convs
    using trim_matches_ends [OF refl] by (cases "env ''R2_OBJECT_PREFIX''") auto
  from t q d s p show ?thesis by blast
qed

definition demo_urls :: url_ops where
  "demo_urls = \<lparr>url_parse = (\<lambda>_. Err ''relative URL without a base''), url_text = (\<lambda>_. [])\<rparr>"

theorem config_bounds_witness:
  "\<exists>c. from_env_map demo_urls Map.empty = Ok c \<and> 0 < upstream_timeout c \<and> blob_spill_dir c \<noteq> []"
proof -
  have "image_host_mode (read_config demo_urls Map.empty) = ''legacy''"
    by (simp add: read_config_def Let_def to_ascii_lowercase_def ascii_lower_def)
  then have ok: "from_env_map demo_urls Map.empty = Ok (read_config demo_urls Map.empty)"
    by (simp add: from_env_map_def validate_def Let_def)
  from config_bounds [OF ok] ok show ?thesis by blast
qed

text \<open>
  The default blob budgets are ordered for every memory size: a blob that may be inline
  fits the request budget, and the request budget fits the global one, which is below the
  memory size once the memory is at least 2 GiB.
\<close>

theorem blob_budget_ordered:
  "let b = blob_budget_defaults_for_memory m
   in default_inline_max_bytes b \<le> default_request_hot_budget_bytes b
    \<and> default_request_hot_budget_bytes b \<le> default_global_hot_budget_bytes b
    \<and> (2147483648 \<le> m \<longrightarrow> default_global_hot_budget_bytes b < m)"
  by (auto simp: blob_budget_defaults_for_memory_def Let_def DEFAULT_BLOB_INLINE_MAX_BYTES_def
    DEFAULT_BLOB_REQUEST_HOT_BUDGET_BYTES_def DEFAULT_BLOB_GLOBAL_HOT_BUDGET_BYTES_def
    word_le_nat_alt word_less_nat_alt)

theorem blob_budget_ordered_witness:
  "default_global_hot_budget_bytes (blob_budget_defaults_for_memory 4294967296) < 4294967296"
  using blob_budget_ordered [of 4294967296] by (simp add: Let_def word_le_nat_alt)

end
