(* ===== verification/Upstream.thy ===== *)
theory Upstream
  imports Json_Value Env_Config
begin

text \<open>
  Choice of the upstream for a request (rust-sync-proxy/src/upstream.rs): the default base URL
  and key, overridden by a token in the request headers, which may name two upstreams of which
  the second serves 4K requests; and the path rewriting for the aiapidev upstream.

  Shown here: the order of precedence on every branch, that a resolved upstream always has a
  key, that the two kinds of errors are exactly the two status codes, that a dual token is
  resolved by the requested image size alone, and that path rewriting is idempotent.
\<close>

section \<open>Definitions\<close>

record resolved_upstream =
  base_url :: string
  api_key :: string

datatype resolve_upstream_error_kind = MissingApiKey | InvalidOverride

record resolve_upstream_error =
  error_kind :: resolve_upstream_error_kind
  error_message :: string

definition missing_api_key :: resolve_upstream_error where
  "missing_api_key = \<lparr>error_kind = MissingApiKey, error_message = ''Missing upstream apiKey''\<rparr>"

definition invalid_override :: "string \<Rightarrow> resolve_upstream_error" where
  "invalid_override m = \<lparr>error_kind = InvalidOverride, error_message = m\<rparr>"

definition status_code :: "resolve_upstream_error \<Rightarrow> nat" where
  "status_code e = (case error_kind e of MissingApiKey \<Rightarrow> 401 | InvalidOverride \<Rightarrow> 400)"

record upstream_override =
  override_base :: "string option"
  override_key :: "string option"

definition validate_http_base_url :: "url_ops \<Rightarrow> string \<Rightarrow> resolve_upstream_error + unit" where
  "validate_http_base_url U raw =
     (case url_parse U raw of
        Inl err \<Rightarrow> Err (invalid_override err)
      | Inr parsed \<Rightarrow>
          if \<not> (scheme parsed = ''http'' \<or> scheme parsed = ''https'')
          then Err (invalid_override ''custom baseUrl must use http or https'')
          else if unwrap_or [] (host_str parsed) = [] then Err (invalid_override ''custom baseUrl host is empty'')
          else Ok ())"

definition parse_single_upstream_token :: "url_ops \<Rightarrow> string \<Rightarrow> resolve_upstream_error + upstream_override" where
  "parse_single_upstream_token U token =
     (case split_once (CHR ''|'') token of
        Some (b, k) \<Rightarrow>
          (let custom_base = str_trim b; custom_key = str_trim k;
               key = (if custom_key \<noteq> [] then Some custom_key else None)
           in if custom_base \<noteq> [] then
                and_then (validate_http_base_url U custom_base) (\<lambda>_.
                Ok \<lparr>override_base = Some custom_base, override_key = key\<rparr>)
              else Ok \<lparr>override_base = None, override_key = key\<rparr>)
      | None \<Rightarrow> Ok \<lparr>override_base = None, override_key = Some (str_trim token)\<rparr>)"

definition parse_strict_upstream_pair :: "url_ops \<Rightarrow> string \<Rightarrow> resolve_upstream_error + upstream_override" where
  "parse_strict_upstream_pair U token =
     (case split_once (CHR ''|'') token of
        None \<Rightarrow> Err (invalid_override ''invalid dual upstream token: each group must be <baseUrl>|<apiKey>'')
      | Some (b, k) \<Rightarrow>
          (let custom_base = str_trim b; custom_key = str_trim k
           in if custom_base = [] \<or> custom_key = []
              then Err (invalid_override ''invalid dual upstream token: baseUrl and apiKey must both be non-empty'')
              else and_then (validate_http_base_url U custom_base) (\<lambda>_.
                   Ok \<lparr>override_base = Some custom_base, override_key = Some custom_key\<rparr>)))"

definition request_targets_4k :: "json \<Rightarrow> bool" where
  "request_targets_4k body =
     (case and_then_opt (or_else (pointer ''/generationConfig/imageConfig/imageSize'' body)
              (pointer ''/generation_config/image_config/image_size'' body)) as_str of
        None \<Rightarrow> False
      | Some v \<Rightarrow> eq_ignore_ascii_case (str_trim v) ''4k'')"

definition token_parts :: "string \<Rightarrow> string list" where
  "token_parts token = filter (\<lambda>part. part \<noteq> []) (map str_trim (split_on (CHR '','') token))"

definition parse_dual_upstream_token :: "url_ops \<Rightarrow> string \<Rightarrow> json \<Rightarrow> resolve_upstream_error + upstream_override" where
  "parse_dual_upstream_token U token body =
     (case token_parts token of
        [p, q] \<Rightarrow>
          and_then (parse_strict_upstream_pair U p) (\<lambda>first.
          and_then (parse_strict_upstream_pair U q) (\<lambda>second.
          Ok (if request_targets_4k body then second else first)))
      | _ \<Rightarrow> Err (invalid_override
          ''invalid dual upstream token: expected exactly two <baseUrl>|<apiKey> groups''))"

text \<open>The loop over the headers: the last non-blank value of each kind.\<close>

fun scan_headers :: "(string \<times> string) list \<Rightarrow> string option \<Rightarrow> string option \<Rightarrow> string option \<times> string option" where
  "scan_headers [] x a = (x, a)"
| "scan_headers ((key, raw) # hs) x a =
     (let v = str_trim raw
      in if eq_ignore_ascii_case key ''x-goog-api-key'' \<and> v \<noteq> [] then scan_headers hs (Some v) a
         else if eq_ignore_ascii_case key ''authorization'' \<and> v \<noteq> [] then scan_headers hs x (Some v)
         else scan_headers hs x a)"

definition request_token :: "(string \<times> string) list \<Rightarrow> string option" where
  "request_token headers =
     (let (x, a) = scan_headers headers None None in or_else x (and_then_opt a (strip_prefix ''Bearer '')))"

definition resolve_upstream_for_request :: "url_ops \<Rightarrow> (string \<times> string) list \<Rightarrow> json \<Rightarrow> string \<Rightarrow> string
    \<Rightarrow> resolve_upstream_error + resolved_upstream" where
  "resolve_upstream_for_request U headers body default_base_url default_api_key =
     and_then
       (case request_token headers of
          None \<Rightarrow> Ok \<lparr>override_base = None, override_key = None\<rparr>
        | Some token \<Rightarrow>
            if CHR '','' \<in> set token then parse_dual_upstream_token U token body
            else parse_single_upstream_token U token) (\<lambda>ov.
     let base = unwrap_or (str_trim default_base_url) (override_base ov);
         key = unwrap_or (str_trim default_api_key) (override_key ov)
     in if key = [] then Err missing_api_key else Ok \<lparr>base_url = base, api_key = key\<rparr>)"

definition resolve_upstream :: "url_ops \<Rightarrow> (string \<times> string) list \<Rightarrow> string \<Rightarrow> string
    \<Rightarrow> resolve_upstream_error + resolved_upstream" where
  "resolve_upstream U headers default_base_url default_api_key =
     resolve_upstream_for_request U headers JNull default_base_url default_api_key"

text \<open>A header map: a value that is not visible ASCII has no text.\<close>

definition text_headers :: "(string \<times> string option) list \<Rightarrow> (string \<times> string) list" where
  "text_headers hs = List.map_filter (\<lambda>(n, v). map_option (Pair n) v) hs"

definition resolve_upstream_from_header_map :: "url_ops \<Rightarrow> (string \<times> string option) list \<Rightarrow> string \<Rightarrow> string
    \<Rightarrow> resolve_upstream_error + resolved_upstream" where
  "resolve_upstream_from_header_map U headers b k = resolve_upstream U (text_headers headers) b k"

definition resolve_upstream_for_request_from_header_map :: "url_ops \<Rightarrow> (string \<times> string option) list \<Rightarrow> json
    \<Rightarrow> string \<Rightarrow> string \<Rightarrow> resolve_upstream_error + resolved_upstream" where
  "resolve_upstream_for_request_from_header_map U headers body b k =
     resolve_upstream_for_request U (text_headers headers) body b k"

definition is_aiapidev_base_url :: "url_ops \<Rightarrow> string \<Rightarrow> bool" where
  "is_aiapidev_base_url U raw =
     (case url_parse U raw of
        Inl _ \<Rightarrow> False
      | Inr parsed \<Rightarrow> host_str parsed = Some ''www.aiapidev.com'' \<or> host_str parsed = Some ''aiapidev.com'')"

definition map_model :: "string \<Rightarrow> string" where
  "map_model model =
     (if model = ''gemini-3-pro-image-preview'' then ''nanobananapro''
      else if model = ''gemini-3.1-flash-image-preview'' then ''nanobanana2''
      else model)"

definition rewrite_aiapidev_model_path :: "string \<Rightarrow> string" where
  "rewrite_aiapidev_model_path path =
     (case strip_prefix ''/v1beta/models/'' path of
        None \<Rightarrow> path
      | Some model_part \<Rightarrow>
          (case split_once_str '':generateContent'' model_part of
             None \<Rightarrow> path
           | Some (model, suffix) \<Rightarrow> ''/v1beta/models/'' @ map_model model @ '':generateContent'' @ suffix))"

section \<open>Lemmas\<close>

lemma validate_Err: "validate_http_base_url U raw = Err e \<Longrightarrow> error_kind e = InvalidOverride"
  by (auto simp: validate_http_base_url_def invalid_override_def split: sum.splits if_splits)

lemma strict_pair_Ok:
  assumes "parse_strict_upstream_pair U t = Ok ov"
  obtains b k where "split_once (CHR ''|'') t = Some (b, k)" "str_trim b \<noteq> []" "str_trim k \<noteq> []"
    "validate_http_base_url U (str_trim b) = Ok ()"
    "ov = \<lparr>override_base = Some (str_trim b), override_key = Some (str_trim k)\<rparr>"
  using assms by (auto simp: parse_strict_upstream_pair_def Let_def and_then_eq_Ok split: option.splits if_splits)

lemma parse_single_Err: "parse_single_upstream_token U t = Err e \<Longrightarrow> error_kind e = InvalidOverride"
  by (auto simp: parse_single_upstream_token_def Let_def and_then_def validate_Err
    split: option.splits if_splits sum.splits)

lemma strict_pair_Err: "parse_strict_upstream_pair U t = Err e \<Longrightarrow> error_kind e = InvalidOverride"
  by (cases "validate_http_base_url U (str_trim (fst (the (split_once (CHR ''|'') t))))")
    (auto simp: parse_strict_upstream_pair_def Let_def invalid_override_def split: option.splits if_splits dest: validate_Err)

lemma parse_dual_Err: "parse_dual_upstream_token U t body = Err e \<Longrightarrow> error_kind e = InvalidOverride"
proof -
  have i: "error_kind (invalid_override m) = InvalidOverride" for m by (simp add: invalid_override_def)
  assume "parse_dual_upstream_token U t body = Err e"
  then show ?thesis
    by (auto simp: parse_dual_upstream_token_def i and_then_def strict_pair_Err split: list.splits sum.splits)
qed

lemma resolve_cases:
  "resolve_upstream_for_request U hs body b k =
     (let ov = (case request_token hs of
          None \<Rightarrow> Ok \<lparr>override_base = None, override_key = None\<rparr>
        | Some token \<Rightarrow>
            if CHR '','' \<in> set token then parse_dual_upstream_token U token body
            else parse_single_upstream_token U token)
      in case ov of
           Inl e \<Rightarrow> Err e
         | Inr ov \<Rightarrow>
             if unwrap_or (str_trim k) (override_key ov) = [] then Err missing_api_key
             else Ok \<lparr>base_url = unwrap_or (str_trim b) (override_base ov), api_key = unwrap_or (str_trim k) (override_key ov)\<rparr>)"
  by (simp add: resolve_upstream_for_request_def and_then_def Let_def split: sum.splits)

lemma split_once_str_hit:
  "CHR '':'' \<notin> set m \<Longrightarrow> split_once_str (CHR '':'' # p) (m @ (CHR '':'' # p) @ r) = Some (m, r)"
proof (induction m)
  case (Cons c m)
  then have "\<not> starts_with (c # (m @ (CHR '':'' # p) @ r)) (CHR '':'' # p)" by (auto simp: starts_with_def)
  with Cons show ?case by simp
qed (simp add: starts_with_def)

section \<open>Properties\<close>

text \<open>
  C28: Precedence: with no token in the headers the trimmed defaults are used; a single token
  overrides the key, and the base URL only when it carries one before a bar; a dual token
  overrides both.  A resolved upstream always has a non-empty key, and a base URL that came
  from a token has been validated as http(s) with a host.
\<close>

theorem resolve_precedence:
  assumes "resolve_upstream_for_request U hs body b k = Ok r"
  shows "api_key r \<noteq> []
    \<and> (request_token hs = None \<longrightarrow> r = \<lparr>base_url = str_trim b, api_key = str_trim k\<rparr>)
    \<and> (base_url r = str_trim b \<or> (request_token hs \<noteq> None \<and> validate_http_base_url U (base_url r) = Ok ()))"
proof (cases "request_token hs")
  case None
  with assms show ?thesis by (auto simp: resolve_cases Let_def split: if_splits)
next
  case (Some t)
  show ?thesis
  proof (cases "CHR '','' \<in> set t")
    case True
    with assms Some obtain ov where ov: "parse_dual_upstream_token U t body = Ok ov"
      and r: "r = \<lparr>base_url = unwrap_or (str_trim b) (override_base ov), api_key = unwrap_or (str_trim k) (override_key ov)\<rparr>"
      "api_key r \<noteq> []"
      by (auto simp: resolve_cases Let_def split: sum.splits if_splits)
    from ov obtain p where "parse_strict_upstream_pair U p = Ok ov"
      by (auto simp: parse_dual_upstream_token_def and_then_eq_Ok split: list.splits if_splits)
    then show ?thesis using r Some by (elim strict_pair_Ok) simp
  next
    case False
    with assms Some obtain ov where ov: "parse_single_upstream_token U t = Ok ov"
      and r: "r = \<lparr>base_url = unwrap_or (str_trim b) (override_base ov), api_key = unwrap_or (str_trim k) (override_key ov)\<rparr>"
      "api_key r \<noteq> []"
      by (auto simp: resolve_cases Let_def split: sum.splits if_splits)
    have "override_base ov = None \<or> (\<exists>c. override_base ov = Some c \<and> validate_http_base_url U c = Ok ())"
      using ov by (auto simp: parse_single_upstream_token_def Let_def and_then_eq_Ok split: option.splits if_splits)
    with r Some show ?thesis by auto
  qed
qed

definition demo_url_ops :: url_ops where
  "demo_url_ops = \<lparr>url_parse = (\<lambda>s. Ok \<lparr>scheme = ''https'', host_str = Some ''h'', port = None, url_path = ''/'', url_query = None, url_fragment = None\<rparr>),
     url_text = (\<lambda>_. [])\<rparr>"

theorem resolve_precedence_witness:
  "\<exists>r. resolve_upstream_for_request demo_url_ops [(''Authorization'', ''Bearer https://h|key '')] JNull ''https://d'' '' '' = Ok r
     \<and> api_key r \<noteq> []"
proof -
  have e: "resolve_upstream_for_request demo_url_ops [(''Authorization'', ''Bearer https://h|key '')] JNull ''https://d'' '' ''
      = Ok \<lparr>base_url = ''https://h'', api_key = ''key''\<rparr>" by code_simp
  from resolve_precedence [OF e] e show ?thesis by blast
qed

text \<open>
  A dual token resolves only when it has exactly two non-blank groups, each a validated
  base URL and a key; it then yields the second group for a 4K request and the first for any
  other, so nothing but the image size decides between the two.
\<close>

theorem dual_token_by_size:
  assumes "request_token hs = Some t" "CHR '','' \<in> set t" "resolve_upstream_for_request U hs body b k = Ok r"
  shows "\<exists>p q. token_parts t = [p, q]
    \<and> (\<exists>b1 k1 b2 k2. split_once (CHR ''|'') p = Some (b1, k1) \<and> split_once (CHR ''|'') q = Some (b2, k2)
       \<and> validate_http_base_url U (str_trim b1) = Ok () \<and> validate_http_base_url U (str_trim b2) = Ok ()
       \<and> r = (if request_targets_4k body then \<lparr>base_url = str_trim b2, api_key = str_trim k2\<rparr>
              else \<lparr>base_url = str_trim b1, api_key = str_trim k1\<rparr>))"
proof -
  from assms obtain ov where ov: "parse_dual_upstream_token U t body = Ok ov"
    and r: "r = \<lparr>base_url = unwrap_or (str_trim b) (override_base ov), api_key = unwrap_or (str_trim k) (override_key ov)\<rparr>"
    by (auto simp: resolve_cases Let_def split: sum.splits if_splits)
  from ov obtain p q v1 v2 where parts: "token_parts t = [p, q]"
    and v: "parse_strict_upstream_pair U p = Ok v1" "parse_strict_upstream_pair U q = Ok v2"
    "ov = (if request_targets_4k body then v2 else v1)"
    by (auto simp: parse_dual_upstream_token_def and_then_eq_Ok split: list.splits)
  from strict_pair_Ok [OF v(1)] obtain b1 k1 where 1: "split_once (CHR ''|'') p = Some (b1, k1)"
    "validate_http_base_url U (str_trim b1) = Ok ()"
    "v1 = \<lparr>override_base = Some (str_trim b1), override_key = Some (str_trim k1)\<rparr>" by blast
  from strict_pair_Ok [OF v(2)] obtain b2 k2 where 2: "split_once (CHR ''|'') q = Some (b2, k2)"
    "validate_http_base_url U (str_trim b2) = Ok ()"
    "v2 = \<lparr>override_base = Some (str_trim b2), override_key = Some (str_trim k2)\<rparr>" by blast
  show ?thesis using parts 1 2 r v(3) by auto
qed

theorem dual_token_by_size_witness:
  "resolve_upstream_for_request demo_url_ops [(''x-goog-api-key'', ''https://a|k1, https://b|k2'')]
     (JObject [(''generationConfig'', JObject [(''imageConfig'', JObject [(''imageSize'', JString ''4K'')])])]) [] []
   = Ok \<lparr>base_url = ''https://b'', api_key = ''k2''\<rparr>
   \<and> token_parts ''https://a|k1, https://b|k2'' = [''https://a|k1'', ''https://b|k2'']"
proof -
  let ?body = "JObject [(''generationConfig'', JObject [(''imageConfig'', JObject [(''imageSize'', JString ''4K'')])])]"
  let ?hs = "[(''x-goog-api-key'', ''https://a|k1, https://b|k2'')]"
  have t: "request_token ?hs = Some ''https://a|k1, https://b|k2''" by code_simp
  have r: "resolve_upstream_for_request demo_url_ops ?hs ?body [] [] = Ok \<lparr>base_url = ''https://b'', api_key = ''k2''\<rparr>"
    by code_simp
  have parts: "token_parts ''https://a|k1, https://b|k2'' = [''https://a|k1'', ''https://b|k2'']" by code_simp
  from dual_token_by_size [OF t _ r] parts r show ?thesis by simp
qed

text \<open>
  A failed resolution is either a missing key, reported as 401 and only when no override
  error occurred, or an invalid override, reported as 400 and only when the headers carry a
  token.
\<close>

theorem resolve_error_status:
  assumes "resolve_upstream_for_request U hs body b k = Err e"
  shows "(status_code e = 401 \<and> e = missing_api_key) \<or> (status_code e = 400 \<and> request_token hs \<noteq> None)"
proof (cases "e = missing_api_key")
  case True
  then show ?thesis by (simp add: status_code_def missing_api_key_def)
next
  case False
  with assms obtain t where t: "request_token hs = Some t"
    by (auto simp: resolve_cases Let_def split: option.splits if_splits sum.splits)
  have "error_kind e = InvalidOverride"
  proof (cases "CHR '','' \<in> set t")
    case True
    then have "parse_dual_upstream_token U t body = Err e"
      using assms False t by (auto simp: resolve_cases Let_def split: if_splits sum.splits)
    then show ?thesis by (rule parse_dual_Err)
  next
    case F: False
    then have "parse_single_upstream_token U t = Err e"
      using assms False t by (auto simp: resolve_cases Let_def split: if_splits sum.splits)
    then show ?thesis by (rule parse_single_Err)
  qed
  with t show ?thesis by (simp add: status_code_def)
qed

theorem resolve_error_status_witness:
  "\<exists>e. resolve_upstream_for_request demo_url_ops [] JNull ''https://d'' '' '' = Err e \<and> status_code e = 401"
proof -
  have e: "resolve_upstream_for_request demo_url_ops [] JNull ''https://d'' '' '' = Err missing_api_key" by code_simp
  have "request_token [] = None" by code_simp
  with resolve_error_status [OF e] e show ?thesis by blast
qed

text \<open>
  Rewriting a model path for the aiapidev upstream is idempotent: a path that was
  already rewritten is left alone.
\<close>

theorem rewrite_path_idempotent:
  "rewrite_aiapidev_model_path (rewrite_aiapidev_model_path path) = rewrite_aiapidev_model_path path"
proof (cases "rewrite_aiapidev_model_path path = path")
  case False
  then obtain model suffix where r: "rewrite_aiapidev_model_path path
        = ''/v1beta/models/'' @ map_model model @ '':generateContent'' @ suffix"
    and m: "map_model model \<noteq> model"
    by (force simp: rewrite_aiapidev_model_path_def strip_prefix_eq_Some map_model_def split: option.splits if_splits
      dest: split_once_str_append)
  have "CHR '':'' \<notin> set (map_model model)" using m by (auto simp: map_model_def split: if_splits)
  then have sp: "split_once_str '':generateContent'' (map_model model @ '':generateContent'' @ suffix) = Some (map_model model, suffix)"
    by (rule split_once_str_hit)
  have "map_model (map_model model) = map_model model" by (simp add: map_model_def)
  with sp show ?thesis
    unfolding r by (simp add: rewrite_aiapidev_model_path_def strip_prefix_def starts_with_def)
qed simp

end
