(* ===== verification/Request_Rewrite.thy ===== *)
theory Request_Rewrite
  imports Request_Materialize Upstream
begin

text \<open>
  Rewriting of request documents (rust-sync-proxy/src/request_rewrite.rs): the in-memory
  variant of downloading and encoding, and the translation of a request into the dialect of
  an aiapidev upstream.

  The translation renames five keys, puts \<open>role\<close> and \<open>parts\<close> of a content first, and turns every
  object with an \<open>inlineData\<close> text into a canonical object that carries either the text or,
  for a URL, a \<open>file_data\<close> reference.

  Shown here: the result is canonical everywhere in the tree, translating again changes
  nothing, and the in-memory variant returns the document with the images inlined and leaves
  no live blob of its own.
\<close>

section \<open>The in-memory variant\<close>

record inline_data_scan =
  scan_unique_urls :: "string list"
  total_refs :: nat

record rewrite_services =
  rw_image_client :: http
  rw_max_image_bytes :: nat
  rw_allow_private_networks :: bool
  rw_fetch_service :: "(string \<Rightarrow> anyhow + fetch_result) option"
  rw_cache_observer :: bool

definition rewrite_services_default :: "http \<Rightarrow> rewrite_services" where
  "rewrite_services_default client =
     \<lparr>rw_image_client = client, rw_max_image_bytes = REQUEST_MAX_IMAGE_BYTES, rw_allow_private_networks = False,
      rw_fetch_service = None, rw_cache_observer = False\<rparr>"

text \<open>The order in which a \<open>HashSet\<close> gives its elements is the parameter \<open>order\<close>.\<close>

definition scan_inline_data_urls :: "(string list \<Rightarrow> string list) \<Rightarrow> json \<Rightarrow> anyhow + inline_data_scan" where
  "scan_inline_data_urls order body =
     and_then (scan_request_image_urls body) (\<lambda>refs.
       if length refs > MAX_INLINE_DATA_URLS then Err (Message ''too many inlineData URLs'')
       else Ok \<lparr>scan_unique_urls = order (unique_urls refs []), total_refs = length refs\<rparr>)"

definition compat_blob_runtime :: "string \<Rightarrow> (string \<Rightarrow> bytes option) \<Rightarrow> (string \<Rightarrow> string option) \<Rightarrow> runtime" where
  "compat_blob_runtime dir fs io =
     runtime_new \<lparr>inline_max_bytes = 8 * 1024 * 1024, request_hot_budget_bytes = 24 * 1024 * 1024,
       global_hot_budget_bytes = 384 * 1024 * 1024, spill_dir = dir\<rparr> fs io"

fun remove_all :: "blob_handle list \<Rightarrow> runtime \<Rightarrow> (anyhow + unit) \<times> runtime" where
  "remove_all [] s = (Ok (), s)"
| "remove_all (h # hs) s =
     (case remove h s of
        (Inl e, s') \<Rightarrow> (Err e, s')
      | (Inr _, s') \<Rightarrow> remove_all hs s')"

definition materialize_services_of :: "rewrite_services \<Rightarrow> request_materialize_services" where
  "materialize_services_of svc =
     \<lparr>image_client = rw_image_client svc, mat_max_image_bytes = rw_max_image_bytes svc,
      mat_allow_private_networks = rw_allow_private_networks svc, enable_webp_optimization = False,
      mat_fetch_service = rw_fetch_service svc, cache_observer = rw_cache_observer svc\<rparr>"

text \<open>
  \<open>parse\<close> is \<open>serde_json::from_slice\<close>, \<open>s\<close> the runtime that \<open>compat_blob_runtime\<close> returned; the
  state after the call is returned with the result.
\<close>

definition rewrite_request_inline_data :: "work_world \<Rightarrow> encode_env \<Rightarrow> (bytes \<Rightarrow> (string + bytes) list)
    \<Rightarrow> (runtime \<Rightarrow> runtime) \<Rightarrow> (bytes \<Rightarrow> string + json) \<Rightarrow> event list \<Rightarrow> rewrite_services \<Rightarrow> json \<Rightarrow> runtime
    \<Rightarrow> ((anyhow + json) \<times> runtime) option" where
  "rewrite_request_inline_data W env pipe_reads on_abort parse schedule svc body s =
     (case scan_inline_data_urls id body of
        Inl e \<Rightarrow> Some (Err e, s)
      | Inr sc \<Rightarrow>
          if total_refs sc = 0 then Some (Ok body, s)
          else
            (case materialize_request_images_with_services W (materialize_services_of svc) schedule body s of
               None \<Rightarrow> None
             | Some (Inl e, told, s1) \<Rightarrow> Some (Err e, s1)
             | Some (Inr m, told, s1) \<Rightarrow>
                 (case encode_request_body env pipe_reads on_abort (mat_request m) (mat_replacements m) s1 of
                    (Inl e, s2) \<Rightarrow> Some (Err e, s2)
                  | (Inr encoded, s2) \<Rightarrow>
                      (case read_bytes (body_blob encoded) s2 of
                         Inl e \<Rightarrow> Some (Err e, s2)
                       | Inr b \<Rightarrow>
                           (case remove_all (map repl_blob (mat_replacements m) @ [body_blob encoded]) s2 of
                              (Inl e, s3) \<Rightarrow> Some (Err e, s3)
                            | (Inr _, s3) \<Rightarrow>
                                (case parse b of
                                   Inl t \<Rightarrow> Some (Err (Message t), s3)
                                 | Inr v \<Rightarrow> Some (Ok v, s3)))))))"

section \<open>The aiapidev dialect\<close>

definition rewrite_aiapidev_key :: "string \<Rightarrow> string" where
  "rewrite_aiapidev_key key =
     (if key = ''generationConfig'' then ''generation_config''
      else if key = ''imageConfig'' then ''image_config''
      else if key = ''responseModalities'' then ''response_modalities''
      else if key = ''aspectRatio'' then ''aspect_ratio''
      else if key = ''imageSize'' then ''image_size''
      else key)"

definition strip_output_fields :: "json \<Rightarrow> json" where
  "strip_output_fields body =
     foldl (\<lambda>b p. pointer_modify p (\<lambda>v. case v of JObject m \<Rightarrow> JObject (map_remove ''output'' m) | _ \<Rightarrow> v) b)
       (case body of JObject m \<Rightarrow> JObject (map_remove ''output'' m) | _ \<Rightarrow> body)
       [''/generationConfig/imageConfig'', ''/generation_config/image_config'']"

definition is_already_wrapped_external_proxy_url :: "string \<Rightarrow> string \<Rightarrow> bool" where
  "is_already_wrapped_external_proxy_url raw external_proxy_prefix = starts_with raw external_proxy_prefix"

record wrap_env =
  wrap_urls :: url_ops
  wrap_form :: "string \<Rightarrow> string"
  wrap_prefix :: string
  wrap_domains :: "string list"

definition maybe_wrap_aiapidev_file_uri :: "wrap_env \<Rightarrow> string \<Rightarrow> string" where
  "maybe_wrap_aiapidev_file_uri E raw =
     (if wrap_prefix E = [] \<or> wrap_domains E = [] \<or> is_already_wrapped_external_proxy_url raw (wrap_prefix E) then raw
      else case url_parse (wrap_urls E) raw of
        Inl _ \<Rightarrow> raw
      | Inr parsed \<Rightarrow>
          if \<not> hostname_matches_domain_patterns (unwrap_or [] (host_str parsed)) (wrap_domains E) then raw
          else wrap_prefix E @ wrap_form E (url_text (wrap_urls E) (parsed\<lparr>url_query := None, url_fragment := None\<rparr>)))"

definition rewrite_inline_data_payload :: "wrap_env \<Rightarrow> fields \<Rightarrow> (string \<times> json) option" where
  "rewrite_inline_data_payload E m =
     (case or_else (map_get m ''inlineData'') (map_get m ''inline_data'') of
        Some (JObject inline) \<Rightarrow>
          (case map_get inline ''data'' of
             Some (JString data) \<Rightarrow>
               (let mime = (case or_else (map_get inline ''mimeType'') (map_get inline ''mime_type'') of
                              Some (JString t) \<Rightarrow> t
                            | _ \<Rightarrow> ''image/png'')
                in if is_http_url data
                   then Some (''file_data'', JObject [(''file_uri'', JString (maybe_wrap_aiapidev_file_uri E data)), (''mime_type'', JString mime)])
                   else Some (''inline_data'', JObject [(''data'', JString data), (''mime_type'', JString mime)]))
           | _ \<Rightarrow> None)
      | _ \<Rightarrow> None)"

definition in_contents :: "string \<Rightarrow> bool" where
  "in_contents path = starts_with path ''/contents/''"

lemma nodes_get: "map_get m k = Some v \<Longrightarrow> nodes v \<le> fields_nodes m"
  using map_get_in_set nodes_field by blast

function rewrite_aiapidev_value :: "wrap_env \<Rightarrow> json \<Rightarrow> string \<Rightarrow> json"
  and rewrite_aiapidev_object :: "wrap_env \<Rightarrow> fields \<Rightarrow> string \<Rightarrow> json"
  and insert_first :: "wrap_env \<Rightarrow> string list \<Rightarrow> fields \<Rightarrow> string \<Rightarrow> fields \<Rightarrow> fields"
  and insert_fields :: "wrap_env \<Rightarrow> fields \<Rightarrow> string \<Rightarrow> fields \<Rightarrow> fields"
  and rewrite_items :: "wrap_env \<Rightarrow> json list \<Rightarrow> nat \<Rightarrow> string \<Rightarrow> json list" where
  "rewrite_aiapidev_value E value path =
     (case value of
        JObject m \<Rightarrow> rewrite_aiapidev_object E m path
      | JArray xs \<Rightarrow> JArray (rewrite_items E xs 0 path)
      | primitive \<Rightarrow> primitive)"
| "rewrite_aiapidev_object E m path =
     (case rewrite_inline_data_payload E m of
        Some (key, payload) \<Rightarrow> JObject [(key, payload)]
      | None \<Rightarrow>
          (let acc = (if in_contents path then insert_first E [''role'', ''parts''] m path [] else [])
           in JObject (insert_fields E m path acc)))"
| "insert_first E [] m path acc = acc"
| "insert_first E (k # ks) m path acc =
     insert_first E ks m path
       (case map_get m k of
          Some v \<Rightarrow> map_insert k (rewrite_aiapidev_value E v (path @ ''/'' @ k)) acc
        | None \<Rightarrow> acc)"
| "insert_fields E [] path acc = acc"
| "insert_fields E ((key, child) # m) path acc =
     (if in_contents path \<and> key \<in> set [''role'', ''parts''] then insert_fields E m path acc
      else
        (let key' = rewrite_aiapidev_key key
         in insert_fields E m path
              (map_insert key' (rewrite_aiapidev_value E child (path @ ''/'' @ escape_json_pointer_token key')) acc)))"
| "rewrite_items E [] i path = []"
| "rewrite_items E (x # xs) i path =
     rewrite_aiapidev_value E x (path @ ''/'' @ show_nat i) # rewrite_items E xs (i + 1) path"
  by pat_completeness auto

termination
  by (relation "measures [
      \<lambda>x. case x of
          Inl (Inl (E, v, path)) \<Rightarrow> 4 * nodes v
        | Inl (Inr (E, m, path)) \<Rightarrow> 4 * fields_nodes m + 3
        | Inr (Inl (E, ks, m, path, acc)) \<Rightarrow> 4 * fields_nodes m + 2
        | Inr (Inr (Inl (E, m, path, acc))) \<Rightarrow> 4 * fields_nodes m + 1
        | Inr (Inr (Inr (E, xs, i, path))) \<Rightarrow> 4 * items_nodes xs + 1,
      \<lambda>x. case x of Inr (Inl (E, ks, m, path, acc)) \<Rightarrow> length ks | _ \<Rightarrow> 0]")
    (auto dest: nodes_get)

declare rewrite_aiapidev_value.simps [simp del] rewrite_aiapidev_object.simps [simp del]

definition rewrite_aiapidev_request_body :: "wrap_env \<Rightarrow> json \<Rightarrow> json" where
  "rewrite_aiapidev_request_body E body = rewrite_aiapidev_value E (strip_output_fields body) []"

section \<open>Canonical documents\<close>

text \<open>What translating a document is to achieve, as a predicate on its result.\<close>

abbreviation first_keys :: "string list" where
  "first_keys \<equiv> [''role'', ''parts'']"

fun picked :: "string list \<Rightarrow> fields \<Rightarrow> fields" where
  "picked [] m = []"
| "picked (k # ks) m = (case map_get m k of Some v \<Rightarrow> (k, v) # picked ks m | None \<Rightarrow> picked ks m)"

definition firsts_first :: "fields \<Rightarrow> bool" where
  "firsts_first m \<longleftrightarrow> m = picked first_keys m @ filter (\<lambda>(k, v). k \<notin> set first_keys) m"

fun canonical :: "wrap_env \<Rightarrow> string \<Rightarrow> json \<Rightarrow> bool"
  and canonical_fields :: "wrap_env \<Rightarrow> string \<Rightarrow> fields \<Rightarrow> bool"
  and canonical_items :: "wrap_env \<Rightarrow> string \<Rightarrow> nat \<Rightarrow> json list \<Rightarrow> bool" where
  "canonical E path (JObject m) \<longleftrightarrow>
     distinct (map fst m)
   \<and> (case rewrite_inline_data_payload E m of
        Some kp \<Rightarrow> m = [kp]
      | None \<Rightarrow> canonical_fields E path m \<and> (in_contents path \<longrightarrow> firsts_first m))"
| "canonical E path (JArray xs) \<longleftrightarrow> canonical_items E path 0 xs"
| "canonical E path JNull \<longleftrightarrow> True"
| "canonical E path (JBool b) \<longleftrightarrow> True"
| "canonical E path (JNumber n) \<longleftrightarrow> True"
| "canonical E path (JString s) \<longleftrightarrow> True"
| "canonical_fields E path [] \<longleftrightarrow> True"
| "canonical_fields E path ((k, v) # m) \<longleftrightarrow>
     rewrite_aiapidev_key k = k \<and> canonical E (path @ ''/'' @ escape_json_pointer_token k) v \<and> canonical_fields E path m"
| "canonical_items E path i [] \<longleftrightarrow> True"
| "canonical_items E path i (x # xs) \<longleftrightarrow> canonical E (path @ ''/'' @ show_nat i) x \<and> canonical_items E path (i + 1) xs"

lemma canonical_fields_iff:
  "canonical_fields E path m \<longleftrightarrow>
     (\<forall>(k, v) \<in> set m. rewrite_aiapidev_key k = k \<and> canonical E (path @ ''/'' @ escape_json_pointer_token k) v)"
  by (induction m) auto

lemma canonical_items_nth:
  "canonical_items E path i xs \<Longrightarrow> j < length xs \<Longrightarrow> canonical E (path @ ''/'' @ show_nat (i + j)) (xs ! j)"
proof (induction xs arbitrary: i j)
  case (Cons x xs)
  show ?case
  proof (cases j)
    case (Suc j')
    with Cons.IH [of "i + 1" j'] Cons.prems show ?thesis by simp
  qed (use Cons.prems in simp)
qed simp

abbreviation camel_keys :: "string list" where
  "camel_keys \<equiv> [''generationConfig'', ''imageConfig'', ''responseModalities'', ''aspectRatio'', ''imageSize'']"

lemma rewrite_key_other: "k \<notin> set camel_keys \<Longrightarrow> rewrite_aiapidev_key k = k"
  by (simp add: rewrite_aiapidev_key_def)

lemma rewrite_key_camel:
  "k \<in> set camel_keys \<Longrightarrow> rewrite_aiapidev_key k \<notin> set [''role'', ''parts'', ''inlineData'', ''inline_data'', ''data'']
     \<and> rewrite_aiapidev_key k \<notin> set camel_keys"
proof -
  have "list_all (\<lambda>k. rewrite_aiapidev_key k \<notin> set [''role'', ''parts'', ''inlineData'', ''inline_data'', ''data'']
     \<and> rewrite_aiapidev_key k \<notin> set camel_keys) camel_keys" by code_simp
  then show "k \<in> set camel_keys \<Longrightarrow> ?thesis" unfolding list_all_iff by blast
qed

lemma rewrite_key_idem [simp]: "rewrite_aiapidev_key (rewrite_aiapidev_key k) = rewrite_aiapidev_key k"
  using rewrite_key_camel [of k] rewrite_key_other by metis

lemma rewrite_key_own:
  assumes "k \<in> set [''role'', ''parts'', ''inlineData'', ''inline_data'', ''data'']"
  shows "rewrite_aiapidev_key k' = k \<longleftrightarrow> k' = k"
proof -
  have "list_all (\<lambda>k. rewrite_aiapidev_key k = k) [''role'', ''parts'', ''inlineData'', ''inline_data'', ''data'']" by code_simp
  with assms have "rewrite_aiapidev_key k = k" unfolding list_all_iff by blast
  with assms rewrite_key_camel [of k'] rewrite_key_other [of k'] show ?thesis by metis
qed

lemma escape_first [simp]: "escape_json_pointer_token ''role'' = ''role''" "escape_json_pointer_token ''parts'' = ''parts''"
  by code_simp+

subsection \<open>Inserting the translated fields\<close>

abbreviation child_path :: "string \<Rightarrow> string \<Rightarrow> string" where
  "child_path path k \<equiv> path @ ''/'' @ escape_json_pointer_token k"

lemma set_map_insert: "x \<in> set (map_insert k v m) \<Longrightarrow> x = (k, v) \<or> x \<in> set m"
  by (induction k v m rule: map_insert.induct) (auto split: if_splits)

lemma map_insert_append: "k \<notin> fst ` set pre \<Longrightarrow> map_insert k v (pre @ m) = pre @ map_insert k v m"
  by (induction pre) auto

lemma map_insert_new: "k \<notin> fst ` set m \<Longrightarrow> map_insert k v m = m @ [(k, v)]"
  using map_insert_append [of k m v "[]"] by simp

lemma insert_first_picked:
  "set ks \<subseteq> set first_keys \<Longrightarrow> distinct ks \<Longrightarrow> set ks \<inter> fst ` set acc = {} \<Longrightarrow>
     insert_first E ks m path acc = acc @ map (\<lambda>(k, v). (k, rewrite_aiapidev_value E v (child_path path k))) (picked ks m)"
proof (induction ks arbitrary: acc)
  case (Cons k ks)
  from Cons.prems(1) have "escape_json_pointer_token k = k" by auto
  with Cons show ?case by (auto simp: map_insert_new split: option.splits)
qed simp

lemma insert_fields_distinct:
  "distinct (map fst acc) \<Longrightarrow> distinct (map fst (insert_fields E m path acc))"
  by (induction m arbitrary: acc) (auto simp: Let_def distinct_map_insert)

lemma insert_fields_member:
  "(k, v) \<in> set (insert_fields E m path acc) \<Longrightarrow>
     (k, v) \<in> set acc \<or> (\<exists>k' v'. (k', v') \<in> set m \<and> k = rewrite_aiapidev_key k'
        \<and> \<not> (in_contents path \<and> k' \<in> set first_keys) \<and> v = rewrite_aiapidev_value E v' (child_path path k))"
proof (induction m arbitrary: acc)
  case (Cons kv m)
  obtain k0 v0 where kv: "kv = (k0, v0)" by (cases kv)
  show ?case
  proof (cases "in_contents path \<and> k0 \<in> set first_keys")
    case True
    with Cons kv show ?thesis by fastforce
  next
    case False
    let ?acc = "map_insert (rewrite_aiapidev_key k0) (rewrite_aiapidev_value E v0 (child_path path (rewrite_aiapidev_key k0))) acc"
    have "(k, v) \<in> set (insert_fields E m path ?acc)" using Cons.prems False kv by (auto simp: Let_def)
    from Cons.IH [OF this] False kv show ?thesis by (auto dest!: set_map_insert)
  qed
qed simp

lemma insert_fields_get:
  assumes "distinct (map fst m)" "k \<in> set [''inlineData'', ''inline_data'', ''data'']"
  shows "map_get (insert_fields E m path acc) k =
    (case map_get m k of Some v \<Rightarrow> Some (rewrite_aiapidev_value E v (child_path path k)) | None \<Rightarrow> map_get acc k)"
  using assms(1)
proof (induction m arbitrary: acc)
  case (Cons kv m)
  obtain k0 v0 where kv: "kv = (k0, v0)" by (cases kv)
  have own: "rewrite_aiapidev_key k0 = k \<longleftrightarrow> k0 = k" using assms(2) by (intro rewrite_key_own) auto
  have not_first: "k \<notin> set first_keys" using assms(2) by auto
  from Cons.prems kv have "k0 \<notin> fst ` set m" by simp
  then have "map_get m k0 = None" by (simp add: map_get_None_iff)
  with Cons kv own not_first show ?case by (auto simp: Let_def map_get_insert split: option.splits)
qed simp

lemma insert_fields_prefix:
  "in_contents path \<Longrightarrow> fst ` set pre \<subseteq> set first_keys \<Longrightarrow>
     insert_fields E m path (pre @ acc) = pre @ insert_fields E m path acc"
proof (induction m arbitrary: acc)
  case (Cons kv m)
  obtain k0 v0 where kv: "kv = (k0, v0)" by (cases kv)
  have "rewrite_aiapidev_key k0 \<notin> fst ` set pre" if "k0 \<notin> set first_keys"
    using Cons.prems(2) that rewrite_key_own [of "rewrite_aiapidev_key k0" k0] by auto
  with Cons kv show ?case by (auto simp: Let_def map_insert_append)
qed simp

definition skipped :: "string \<Rightarrow> string \<times> json \<Rightarrow> bool" where
  "skipped path kv \<longleftrightarrow> in_contents path \<and> fst kv \<in> set first_keys"

lemma insert_fields_Cons:
  "insert_fields E (kv # m) path acc =
     (if skipped path kv then insert_fields E m path acc
      else insert_fields E m path (map_insert (rewrite_aiapidev_key (fst kv))
        (rewrite_aiapidev_value E (snd kv) (child_path path (rewrite_aiapidev_key (fst kv)))) acc))"
  by (cases kv) (auto simp: skipped_def Let_def)

lemma insert_fields_same:
  assumes "\<forall>kv \<in> set m. rewrite_aiapidev_key (fst kv) = fst kv \<and> rewrite_aiapidev_value E (snd kv) (child_path path (fst kv)) = snd kv"
    and "distinct (map fst m)" "\<forall>kv \<in> set m. skipped path kv \<or> fst kv \<notin> fst ` set acc"
  shows "insert_fields E m path acc = acc @ filter (\<lambda>kv. \<not> skipped path kv) m"
  using assms
proof (induction m arbitrary: acc)
  case (Cons kv m)
  show ?case
  proof (cases "skipped path kv")
    case True
    with Cons show ?thesis by (simp add: insert_fields_Cons)
  next
    case False
    have "\<forall>x \<in> set m. skipped path x \<or> fst x \<notin> fst ` set (acc @ [kv])" using Cons.prems(2,3) by (auto simp: image_iff)
    with Cons.IH [of "acc @ [kv]"] Cons.prems(1,2)
    have "insert_fields E m path (acc @ [kv]) = (acc @ [kv]) @ filter (\<lambda>kv. \<not> skipped path kv) m" by simp
    moreover have "fst kv \<notin> fst ` set acc" using Cons.prems(3) False by simp
    ultimately show ?thesis using False Cons.prems(1) by (simp add: insert_fields_Cons map_insert_new)
  qed
qed simp

subsection \<open>Translating\<close>

lemma out_fields:
  "(if in_contents path then insert_first E first_keys m path [] else []) =
     (if in_contents path then map (\<lambda>(k, v). (k, rewrite_aiapidev_value E v (child_path path k))) (picked first_keys m) else [])"
  by (subst insert_first_picked) simp_all

lemma picked_member: "x \<in> set (picked ks m) \<Longrightarrow> x \<in> set m \<and> fst x \<in> set ks"
  by (induction ks) (auto split: option.splits dest: map_get_in_set)

lemma picked_distinct: "distinct ks \<Longrightarrow> distinct (map fst (picked ks m))"
  by (induction ks) (auto split: option.splits dest: picked_member)

lemma map_get_append: "map_get (a @ b) k = (case map_get a k of Some v \<Rightarrow> Some v | None \<Rightarrow> map_get b k)"
  by (induction a) auto

lemma picked_append: "fst ` set b \<inter> set ks = {} \<Longrightarrow> picked ks (a @ b) = picked ks a"
proof (induction ks)
  case (Cons k ks)
  then have "map_get b k = None" by (auto simp: map_get_None_iff)
  with Cons show ?case by (auto simp: map_get_append split: option.splits)
qed simp


lemma rewrite_kind:
  "rewrite_aiapidev_value E v path = JString s \<longleftrightarrow> v = JString s"
  "(\<exists>m. rewrite_aiapidev_value E v path = JObject m) \<longleftrightarrow> (\<exists>m. v = JObject m)"
  by (cases v; auto simp: rewrite_aiapidev_value.simps rewrite_aiapidev_object.simps Let_def split: option.splits)+

abbreviation out_first :: "wrap_env \<Rightarrow> fields \<Rightarrow> string \<Rightarrow> fields" where
  "out_first E m path \<equiv>
     (if in_contents path then map (\<lambda>(k, v). (k, rewrite_aiapidev_value E v (child_path path k))) (picked first_keys m) else [])"

lemma rewrite_object_generic:
  "rewrite_inline_data_payload E m = None \<Longrightarrow>
     rewrite_aiapidev_object E m path = JObject (insert_fields E m path (out_first E m path))"
  by (simp add: rewrite_aiapidev_object.simps [of E m] out_fields Let_def)

lemma out_first_keys: "x \<in> set (out_first E m path) \<Longrightarrow> fst x \<in> set first_keys"
  by (auto simp del: set_simps picked.simps dest!: picked_member split: if_splits)

lemma out_first_get: "k \<notin> set first_keys \<Longrightarrow> map_get (out_first E m path) k = None"
  using out_first_keys by (fastforce simp: map_get_None_iff)

lemma rewritten_get:
  "distinct (map fst m) \<Longrightarrow> k \<in> set [''inlineData'', ''inline_data'', ''data''] \<Longrightarrow>
     map_get (insert_fields E m path (out_first E m path)) k =
       map_option (\<lambda>v. rewrite_aiapidev_value E v (child_path path k)) (map_get m k)"
  by (subst insert_fields_get, assumption, assumption, subst out_first_get) (auto split: option.splits)

lemma payload_key: "rewrite_inline_data_payload E m = Some (k, p) \<Longrightarrow> k \<in> {''file_data'', ''inline_data''}"
  by (auto simp: rewrite_inline_data_payload_def Let_def split: option.splits json.splits if_splits)

definition carries_text :: "json option \<Rightarrow> bool" where
  "carries_text x \<longleftrightarrow> (\<exists>m t. x = Some (JObject m) \<and> map_get m ''data'' = Some (JString t))"

lemma payload_None_iff:
  "rewrite_inline_data_payload E m = None \<longleftrightarrow>
     \<not> carries_text (or_else (map_get m ''inlineData'') (map_get m ''inline_data''))"
  by (auto simp: rewrite_inline_data_payload_def carries_text_def Let_def split: option.splits json.splits)

lemma carries_text_rewrite:
  assumes "json_wf v" "carries_text (Some (rewrite_aiapidev_value E v path))"
  shows "carries_text (Some v)"
proof -
  from assms(2) obtain m' t where m': "rewrite_aiapidev_value E v path = JObject m'" "map_get m' ''data'' = Some (JString t)"
    by (auto simp: carries_text_def)
  then obtain m where v: "v = JObject m" using rewrite_kind(2) by blast
  have obj: "rewrite_aiapidev_object E m path = JObject m'" using m' v by (simp add: rewrite_aiapidev_value.simps)
  show ?thesis
  proof (cases "rewrite_inline_data_payload E m")
    case None
    have "distinct (map fst m)" using assms(1) v by simp
    from rewritten_get [OF this, of "''data''" E path] None obj m' obtain w where
      "map_get m ''data'' = Some w" "rewrite_aiapidev_value E w (child_path path ''data'') = JString t"
      by (cases "map_get m ''data''") (auto simp: rewrite_object_generic)
    with v show ?thesis by (simp add: carries_text_def rewrite_kind)
  next
    case (Some kp)
    obtain k p where "kp = (k, p)" by (cases kp)
    with Some obj have "m' = [(k, p)]" "k \<in> {''file_data'', ''inline_data''}"
      using payload_key by (auto simp: rewrite_aiapidev_object.simps [of E m])
    with m'(2) show ?thesis by auto
  qed
qed

lemma payload_rewritten:
  assumes "json_wf (JObject m)" "rewrite_inline_data_payload E m = None"
  shows "rewrite_inline_data_payload E (insert_fields E m path (out_first E m path)) = None"
proof -
  let ?R = "insert_fields E m path (out_first E m path)"
  have d: "distinct (map fst m)" using assms(1) by simp
  have get: "map_get ?R k = map_option (\<lambda>v. rewrite_aiapidev_value E v (child_path path k)) (map_get m k)"
    if "k \<in> set [''inlineData'', ''inline_data'']" for k
    using that by (intro rewritten_get [OF d]) auto
  have wf: "json_wf v" if "map_get m k = Some v" for k v using assms(1) that by (auto intro: fields_wf_get)
  have no: "\<not> carries_text (or_else (map_get m ''inlineData'') (map_get m ''inline_data''))"
    using assms(2) by (simp add: payload_None_iff)
  have "\<not> carries_text (or_else (map_get ?R ''inlineData'') (map_get ?R ''inline_data''))"
  proof
    assume c: "carries_text (or_else (map_get ?R ''inlineData'') (map_get ?R ''inline_data''))"
    show False
    proof (cases "map_get m ''inlineData''")
      case (Some v)
      with c get [of "''inlineData''"] have "carries_text (Some (rewrite_aiapidev_value E v (child_path path ''inlineData'')))" by simp
      from carries_text_rewrite [OF wf [OF Some] this] no Some show False by simp
    next
      case None
      with c get [of "''inlineData''"] get [of "''inline_data''"]
      have "carries_text (map_option (\<lambda>v. rewrite_aiapidev_value E v (child_path path ''inline_data'')) (map_get m ''inline_data''))"
        by simp
      moreover from this obtain v where v: "map_get m ''inline_data'' = Some v" by (auto simp: carries_text_def)
      ultimately have "carries_text (Some (rewrite_aiapidev_value E v (child_path path ''inline_data'')))" by simp
      from carries_text_rewrite [OF wf [OF v] this] no None v show False by simp
    qed
  qed
  then show ?thesis unfolding payload_None_iff .
qed

lemma filter_keys_none: "\<forall>x \<in> set m. fst x \<in> K \<Longrightarrow> filter (\<lambda>(k, v). k \<notin> K) m = []"
  by (induction m) auto

lemma filter_keys_all: "\<forall>x \<in> set m. fst x \<notin> K \<Longrightarrow> filter (\<lambda>(k, v). k \<notin> K) m = m"
  by (induction m) auto

lemma filter_not_first:
  "in_contents path \<Longrightarrow> (k, v) \<in> set (insert_fields E m path []) \<Longrightarrow> k \<notin> set first_keys"
proof
  assume *: "in_contents path" "(k, v) \<in> set (insert_fields E m path [])" "k \<in> set first_keys"
  from insert_fields_member [OF *(2)] obtain k' where "k = rewrite_aiapidev_key k'" "\<not> (in_contents path \<and> k' \<in> set first_keys)"
    by (metis empty_iff empty_set)
  moreover have "rewrite_aiapidev_key k' = k \<longleftrightarrow> k' = k" using *(3) by (intro rewrite_key_own) auto
  ultimately show False using * by metis
qed

lemma rewritten_firsts:
  assumes "in_contents path"
  shows "firsts_first (insert_fields E m path (out_first E m path))"
proof -
  let ?pre = "out_first E m path" and ?rest = "insert_fields E m path []"
  have keys: "fst ` set ?pre \<subseteq> set first_keys" using out_first_keys by blast
  have R: "insert_fields E m path ?pre = ?pre @ ?rest"
    using insert_fields_prefix [OF assms keys, of E m "[]"] by simp
  have rest: "\<forall>x \<in> set ?rest. fst x \<notin> set first_keys" using filter_not_first [OF assms] by (metis prod.collapse)
  then have "fst ` set ?rest \<inter> set first_keys = {}" by blast
  then have "picked first_keys (?pre @ ?rest) = picked first_keys ?pre" by (rule picked_append)
  moreover have "picked first_keys ?pre = ?pre" using assms by (simp split: option.splits)
  moreover have "filter (\<lambda>(k, v). k \<notin> set first_keys) ?pre = []"
    using out_first_keys by (intro filter_keys_none) blast
  moreover have "filter (\<lambda>(k, v). k \<notin> set first_keys) ?rest = ?rest"
    using rest by (rule filter_keys_all)
  ultimately show ?thesis unfolding R firsts_first_def filter_append by simp
qed

lemma rewritten_member:
  assumes "(k, v) \<in> set (insert_fields E m path (out_first E m path))"
  shows "rewrite_aiapidev_key k = k \<and> (\<exists>k' v'. (k', v') \<in> set m \<and> v = rewrite_aiapidev_value E v' (child_path path k))"
  using insert_fields_member [OF assms]
proof
  assume out: "(k, v) \<in> set (out_first E m path)"
  then obtain v' where "(k, v') \<in> set (picked first_keys m)" "v = rewrite_aiapidev_value E v' (child_path path k)"
    by (auto simp del: picked.simps split: if_splits)
  moreover have "rewrite_aiapidev_key k = k"
    using out_first_keys [OF out] rewrite_key_own [of k k] by auto
  ultimately show ?thesis using picked_member by blast
qed auto

lemma payload_forms:
  assumes "rewrite_inline_data_payload E m = Some kp"
  obtains (as_file) u t where "kp = (''file_data'', JObject [(''file_uri'', JString u), (''mime_type'', JString t)])"
  | (as_inline) d t where "kp = (''inline_data'', JObject [(''data'', JString d), (''mime_type'', JString t)])" "\<not> is_http_url d"
  using assms that
  by (simp add: rewrite_inline_data_payload_def Let_def split: option.splits json.splits if_splits) metis+

lemma payload_again:
  "rewrite_inline_data_payload E [(''file_data'', v)] = None"
  "rewrite_inline_data_payload E [(''file_uri'', v), (''mime_type'', w)] = None"
  "\<not> is_http_url d \<Longrightarrow> rewrite_inline_data_payload E [(''inline_data'', JObject [(''data'', JString d), (''mime_type'', JString t)])]
     = Some (''inline_data'', JObject [(''data'', JString d), (''mime_type'', JString t)])"
  by (simp_all add: rewrite_inline_data_payload_def)

lemma firsts_first_none: "\<forall>x \<in> set m. fst x \<notin> set first_keys \<Longrightarrow> firsts_first m"
proof -
  assume none: "\<forall>x \<in> set m. fst x \<notin> set first_keys"
  then have "fst ` set m \<inter> set first_keys = {}" by blast
  then have "picked first_keys ([] @ m) = picked first_keys []" by (rule picked_append)
  moreover have "filter (\<lambda>(k, v). k \<notin> set first_keys) m = m" using none by (rule filter_keys_all)
  ultimately show "firsts_first m" by (simp add: firsts_first_def)
qed

lemma payload_keys_own:
  "rewrite_aiapidev_key ''file_data'' = ''file_data''" "rewrite_aiapidev_key ''file_uri'' = ''file_uri''"
  "rewrite_aiapidev_key ''mime_type'' = ''mime_type''"
  by code_simp+

lemma payload_canonical:
  assumes "rewrite_inline_data_payload E m = Some kp"
  shows "canonical E path (JObject [kp])"
  using assms
proof (cases rule: payload_forms)
  case (as_file u t)
  have "firsts_first [kp]" by (rule firsts_first_none) (simp add: as_file)
  moreover have "canonical E p (JObject [(''file_uri'', JString u), (''mime_type'', JString t)])" for p
    by (simp add: payload_again payload_keys_own firsts_first_none)
  ultimately show ?thesis by (simp add: as_file payload_again payload_keys_own)
next
  case (as_inline d t)
  then show ?thesis by (simp add: payload_again)
qed

lemma rewrite_items_canonical:
  "(\<And>x path. x \<in> set xs \<Longrightarrow> canonical E path (rewrite_aiapidev_value E x path)) \<Longrightarrow> canonical_items E path i (rewrite_items E xs i path)"
  by (induction xs arbitrary: i) simp_all

lemma rewrite_canonical: "json_wf v \<Longrightarrow> canonical E path (rewrite_aiapidev_value E v path)"
proof (induction "nodes v" arbitrary: v path rule: less_induct)
  case less
  show ?case
  proof (cases v)
    case (JArray xs)
    have "canonical E p (rewrite_aiapidev_value E x p)" if "x \<in> set xs" for x p
      using nodes_item [OF that] less.prems JArray that by (intro less.hyps) (auto simp: items_wf_iff)
    with JArray show ?thesis by (simp add: rewrite_aiapidev_value.simps rewrite_items_canonical)
  next
    case (JObject m)
    show ?thesis
    proof (cases "rewrite_inline_data_payload E m")
      case None
      let ?R = "insert_fields E m path (out_first E m path)"
      have child: "canonical E p (rewrite_aiapidev_value E x p)" if "(k, x) \<in> set m" for k x p
        using nodes_field [OF that] less.prems JObject that by (intro less.hyps) (auto simp: fields_wf_iff)
      have "canonical_fields E path ?R"
        unfolding canonical_fields_iff using rewritten_member child by blast
      moreover have "distinct (map fst ?R)"
        by (intro insert_fields_distinct) (simp add: comp_def case_prod_beta del: picked.simps, intro impI picked_distinct, simp)
      moreover have "rewrite_inline_data_payload E ?R = None" using less.prems JObject None by (intro payload_rewritten) auto
      ultimately have "canonical E path (JObject ?R)" using rewritten_firsts by simp
      then show ?thesis using JObject None by (simp add: rewrite_aiapidev_value.simps rewrite_object_generic)
    next
      case (Some kp)
      then have "rewrite_aiapidev_value E v path = JObject [kp]"
        using JObject by (cases kp) (simp add: rewrite_aiapidev_value.simps rewrite_aiapidev_object.simps [of E m])
      with payload_canonical [OF Some] show ?thesis by simp
    qed
  qed (simp_all add: rewrite_aiapidev_value.simps)
qed

lemma rewrite_items_same:
  "(\<And>j. j < length xs \<Longrightarrow> rewrite_aiapidev_value E (xs ! j) (path @ ''/'' @ show_nat (i + j)) = xs ! j) \<Longrightarrow>
     rewrite_items E xs i path = xs"
proof (induction xs arbitrary: i)
  case (Cons x xs)
  have "rewrite_items E xs (i + 1) path = xs" using Cons.prems [of "Suc j" for j] by (intro Cons.IH) simp
  with Cons.prems [of 0] show ?case by simp
qed simp

lemma out_first_same:
  assumes "\<forall>kv \<in> set m. rewrite_aiapidev_value E (snd kv) (child_path path (fst kv)) = snd kv"
  shows "out_first E m path = (if in_contents path then picked first_keys m else [])"
proof -
  have "map (\<lambda>(k, v). (k, rewrite_aiapidev_value E v (child_path path k))) (picked first_keys m) = picked first_keys m"
    using assms picked_member by (intro map_idI) (fastforce simp del: picked.simps)
  then show ?thesis by (simp only: split: if_splits)
qed

lemma canonical_same: "canonical E path v \<Longrightarrow> rewrite_aiapidev_value E v path = v"
proof (induction "nodes v" arbitrary: v path rule: less_induct)
  case less
  show ?case
  proof (cases v)
    case (JArray xs)
    have "rewrite_aiapidev_value E (xs ! j) (path @ ''/'' @ show_nat (0 + j)) = xs ! j" if "j < length xs" for j
      using nodes_item [OF nth_mem [OF that]] canonical_items_nth [of E path 0 xs j] less.prems JArray that
      by (intro less.hyps) auto
    with JArray rewrite_items_same [of xs E path 0] show ?thesis by (simp add: rewrite_aiapidev_value.simps)
  next
    case (JObject m)
    show ?thesis
    proof (cases "rewrite_inline_data_payload E m")
      case (Some kp)
      with less.prems JObject show ?thesis
        by (cases kp) (auto simp: rewrite_aiapidev_value.simps rewrite_aiapidev_object.simps)
    next
      case None
      with less.prems JObject have can: "canonical_fields E path m" "distinct (map fst m)" "in_contents path \<longrightarrow> firsts_first m" by auto
      have same: "\<forall>kv \<in> set m. rewrite_aiapidev_key (fst kv) = fst kv \<and> rewrite_aiapidev_value E (snd kv) (child_path path (fst kv)) = snd kv"
      proof
        fix kv assume kv: "kv \<in> set m"
        have "nodes (snd kv) < nodes v" using nodes_field [of "fst kv" "snd kv" m] kv JObject by simp
        from less.hyps [OF this] kv can(1)
        show "rewrite_aiapidev_key (fst kv) = fst kv \<and> rewrite_aiapidev_value E (snd kv) (child_path path (fst kv)) = snd kv"
          unfolding canonical_fields_iff by (cases kv) auto
      qed
      then have out: "out_first E m path = (if in_contents path then picked first_keys m else [])" by (intro out_first_same) blast
      have "\<forall>kv \<in> set m. skipped path kv \<or> fst kv \<notin> fst ` set (out_first E m path)"
      proof (cases "in_contents path")
        case True
        have "fst ` set (out_first E m path) \<subseteq> set first_keys" using out_first_keys by blast
        with True show ?thesis unfolding skipped_def by blast
      qed simp
      from insert_fields_same [OF same can(2) this]
      have ins: "insert_fields E m path (out_first E m path) = out_first E m path @ filter (\<lambda>kv. \<not> skipped path kv) m" .
      have "out_first E m path @ filter (\<lambda>kv. \<not> skipped path kv) m = m"
      proof (cases "in_contents path")
        case True
        then have "(\<lambda>kv. \<not> skipped path kv) = (\<lambda>(k, v). k \<notin> set first_keys)" by (auto simp: skipped_def fun_eq_iff)
        with True can(3) show ?thesis unfolding out firsts_first_def by (simp only: if_True simp_thms)
      qed (simp add: skipped_def)
      with ins None JObject show ?thesis by (simp add: rewrite_aiapidev_value.simps rewrite_object_generic)
    qed
  qed (simp_all add: rewrite_aiapidev_value.simps)
qed

lemma canonical_resolve: "canonical E path v \<Longrightarrow> resolve ts v = Some w \<Longrightarrow> \<exists>p. canonical E p w"
proof (induction ts arbitrary: path v)
  case (Cons t ts)
  show ?case
  proof (cases v)
    case (JArray xs)
    with Cons.prems(2) obtain i where "i < length xs" "resolve ts (xs ! i) = Some w" by (auto split: option.splits if_splits)
    with Cons.IH canonical_items_nth [of E path 0 xs i] Cons.prems(1) JArray show ?thesis by auto
  next
    case (JObject m)
    with Cons.prems(2) obtain x where x: "map_get m t = Some x" "resolve ts x = Some w" by (auto split: option.splits)
    show ?thesis
    proof (cases "rewrite_inline_data_payload E m")
      case None
      with Cons.prems(1) JObject x(1) have "canonical E (child_path path t) x"
        by (auto simp: canonical_fields_iff dest: map_get_in_set)
      with Cons.IH x(2) show ?thesis by blast
    next
      case (Some kp)
      with Cons.prems(1) JObject x(1) have t: "kp = (t, x)" by (cases kp) (auto split: if_splits)
      from Some have "canonical E p x" for p
      proof (cases rule: payload_forms)
        case (as_file u s)
        with t have "x = JObject [(''file_uri'', JString u), (''mime_type'', JString s)]" by simp
        then show ?thesis by (simp add: payload_again payload_keys_own firsts_first_none)
      next
        case (as_inline d s)
        with t have "x = JObject [(''data'', JString d), (''mime_type'', JString s)]" by simp
        moreover have "rewrite_inline_data_payload E [(''data'', JString d), (''mime_type'', JString s)] = None"
          by (simp add: rewrite_inline_data_payload_def)
        moreover have "rewrite_aiapidev_key ''data'' = ''data''" by code_simp
        ultimately show ?thesis by (simp add: payload_keys_own firsts_first_none)
      qed
      with Cons.IH x(2) show ?thesis by blast
    qed
  qed (use Cons.prems in simp_all)
qed auto

text \<open>What the two readers of an object make of it.\<close>

lemma canonical_object:
  assumes "canonical E path (JObject m)"
  shows "k \<in> fst ` set m \<Longrightarrow> k \<notin> set camel_keys"
    and "rewrite_inline_data_payload E m = Some (k, p) \<Longrightarrow> k = ''inline_data'' \<and> m = [(k, p)]"
proof -
  show "rewrite_inline_data_payload E m = Some (k, p) \<Longrightarrow> k = ''inline_data'' \<and> m = [(k, p)]"
  proof -
    assume some: "rewrite_inline_data_payload E m = Some (k, p)"
    with assms have m: "m = [(k, p)]" by simp
    from some show ?thesis
    proof (cases rule: payload_forms)
      case (as_file u t)
      with some m show ?thesis by (simp add: payload_again)
    qed (use m in simp)
  qed
  show "k \<in> fst ` set m \<Longrightarrow> k \<notin> set camel_keys"
  proof (cases "rewrite_inline_data_payload E m")
    case None
    assume "k \<in> fst ` set m"
    with assms None have "rewrite_aiapidev_key k = k" by (auto simp: canonical_fields_iff)
    then show ?thesis using rewrite_key_camel [of k] by metis
  next
    case (Some kp)
    assume "k \<in> fst ` set m"
    with assms Some have "k = fst kp" by simp
    with Some show ?thesis by (cases rule: payload_forms) simp_all
  qed
qed

lemma strip_output_wf: "json_wf v \<Longrightarrow> json_wf (strip_output_fields v)"
proof -
  have o: "json_wf w \<Longrightarrow> json_wf (case w of JObject m \<Rightarrow> JObject (map_remove ''output'' m) | _ \<Rightarrow> w)" for w
    by (cases w) (auto simp: distinct_map_remove fields_wf_remove)
  show "json_wf v \<Longrightarrow> json_wf (strip_output_fields v)"
    unfolding strip_output_fields_def by (auto intro!: json_wf_pointer_modify o)
qed

section \<open>The in-memory variant keeps nothing\<close>

lemma remove_no_io:
  assumes "blob_inv s" "h < length (heap s)" "io_error s = Map.empty"
  shows "\<exists>s'. remove h s = (Ok (), s') \<and> blob_inv s' \<and> io_error s' = Map.empty \<and> length (heap s') = length (heap s)
    \<and> blob_contents s' = (blob_contents s)(h := None)"
proof (cases "removed (heap s ! h)")
  case True
  then have "blob_contents s h = None" by (simp add: blob_contents_def)
  then show ?thesis using True assms by (simp add: remove_twice fun_upd_idem)
next
  case False
  obtain r s' where r: "remove h s = (r, s')" by (cases "remove h s")
  have "r = Ok ()"
    using r False assms(3) by (auto simp: remove_def Let_def mark_removed_def split: blob_storage.splits option.splits)
  with r remove_live [OF assms(1,2) False r] remove_marks [OF assms(2) r] assms(3) show ?thesis
    by (auto simp: same_env_def)
qed

lemma remove_all_no_io:
  assumes "blob_inv s" "\<forall>h \<in> set hs. h < length (heap s)" "io_error s = Map.empty"
  shows "\<exists>s'. remove_all hs s = (Ok (), s') \<and> blob_inv s' \<and> blob_contents s' = blob_contents s |` (- set hs)
    \<and> io_error s' = Map.empty \<and> length (heap s') = length (heap s)"
  using assms
proof (induction hs arbitrary: s)
  case (Cons h hs)
  obtain s1 where s1: "remove h s = (Ok (), s1)" "blob_inv s1" "io_error s1 = Map.empty" "length (heap s1) = length (heap s)"
      "blob_contents s1 = (blob_contents s)(h := None)"
    using remove_no_io [of s h] Cons.prems by auto
  obtain s' where "remove_all hs s1 = (Ok (), s')" "blob_inv s'" "blob_contents s' = blob_contents s1 |` (- set hs)"
      "io_error s' = Map.empty" "length (heap s') = length (heap s1)"
    using Cons.IH [OF s1(2) _ s1(3)] Cons.prems(2) s1(4) by (metis list.set_intros(2))
  moreover from this s1 have "blob_contents s' = blob_contents s |` (- set (h # hs))"
    by (auto simp: fun_eq_iff restrict_map_def)
  ultimately show ?case using s1 by simp
qed (auto simp: restrict_map_def fun_eq_iff)

lemma restrict_upd_fresh:
  "f h = None \<Longrightarrow> (f(h \<mapsto> b)) |` (- (A \<union> {h})) = f |` (- A)"
  by (auto simp: fun_eq_iff restrict_map_def)

text \<open>
  Downloading and then encoding: the body is the document with the images inlined, the own
  blobs are those of the images and of the body, and they are all in the heap.
\<close>

lemma encode_materialized:
  assumes "json_wf request" "scan_request_image_urls request = Ok refs"
    and "materialize_request_images_with_services W svc schedule request s = Some (Ok m, told, s1)"
    and "json_writer env dec" "fair_reads (16 * 1024) pipe_reads"
    and "blob_inv s" "io_error s = Map.empty" "images_fit W svc" "unat (next_id_ctr s) + 8 < 2 ^ 64"
    and "body = ser env (inlined_document (b64 env) W svc refs request)" "fits body"
  shows "mat_request m = request \<and>
    (\<exists>h s2. encode_request_body env pipe_reads on_abort request (mat_replacements m) s1
        = (Ok \<lparr>body_blob = h, content_length = of_nat (length body)\<rparr>, s2)
      \<and> unat (of_nat (length body) :: u64) = length body \<and> read_bytes h s2 = Ok body \<and> blob_inv s2 \<and> io_error s2 = Map.empty
      \<and> (\<forall>h' \<in> insert h (repl_blob ` set (mat_replacements m)). h' < length (heap s2))
      \<and> h \<notin> repl_blob ` set (mat_replacements m) \<and> same_env s s2
      \<and> blob_contents s2 |` (- insert h (repl_blob ` set (mat_replacements m))) = blob_contents s
      \<and> blob_contents s2 h = Some body)"
proof -
  let ?rs = "mat_replacements m"
  have "unat (next_id_ctr s) + 7 < 2 ^ 64" using assms(9) by simp
  from materialize_Ok [OF assms(3,6,8) this] assms(2)
  have m: "mat_request m = request" "list_all2 (replaces W svc s1) refs ?rs" "keeps_blobs s s1" "blob_inv s1"
    "unat (next_id_ctr s1) \<le> unat (next_id_ctr s) + 7"
    "blob_contents s = blob_contents s1 |` (- (repl_blob ` set ?rs))" "\<forall>r \<in> set ?rs. repl_blob r < length (heap s1)" by auto
  have "unat (next_id_ctr s1) < 2 ^ 64 - 1" using m(5) assms(9) by simp
  then have "next_id_ctr s1 \<noteq> - 1" by (auto simp: unsigned_minus_1_eq_mask mask_eq_exp_minus_1)
  with assms(11) have ready: "ready body s1" by (simp add: ready_def)
  have io: "\<forall>p. io_error s1 p = None" using m(3) assms(7) by (simp add: keeps_blobs_def same_env_def)
  have live: "\<forall>r \<in> set ?rs. blob_contents s1 (repl_blob r) \<noteq> None" using replaces_live [OF m(2)] by blast
  have "body = ser env (sent_document (b64 env) ?rs s1 request)"
    by (simp add: assms(10) inlined_document_def sent_document_def image_at_inlined [OF m(2) scan_Ok_distinct [OF assms(1,2)]])
  from encode_request_body_Ok [OF assms(4) m(4) io live assms(5) this ready, of on_abort] obtain h s2 where
    enc: "encode_request_body env pipe_reads on_abort request ?rs s1 = (Ok \<lparr>body_blob = h, content_length = of_nat (length body)\<rparr>, s2)"
      "unat (of_nat (length body) :: u64) = length body" "read_bytes h s2 = Ok body" "blob_contents s2 = (blob_contents s1)(h \<mapsto> body)"
      "blob_inv s2" "h = length (heap s1)" "same_env s1 s2" by blast
  have "\<forall>h' \<in> insert h (repl_blob ` set ?rs). blob_contents s2 h' \<noteq> None" using live enc(4) by auto
  then have "\<forall>h' \<in> insert h (repl_blob ` set ?rs). h' < length (heap s2)" using blob_contents_live by blast
  moreover have "io_error s2 = Map.empty" using io enc(7) by (simp add: same_env_def fun_eq_iff)
  moreover have "h \<notin> repl_blob ` set ?rs" using enc(6) m(7) by auto
  moreover have "blob_contents s2 |` (- insert h (repl_blob ` set ?rs)) = blob_contents s"
    using restrict_upd_fresh [of "blob_contents s1" h body "repl_blob ` set ?rs"] blob_contents_fresh enc(6)
    by (simp add: enc(4) m(6) insert_commute)
  moreover have "same_env s s2" using m(3) enc(7) by (simp add: keeps_blobs_def same_env_def)
  ultimately show ?thesis using m(1) enc(1-5) by (intro conjI exI [where x = h] exI [where x = s2]) simp_all
qed

section \<open>Properties\<close>


definition demo_wrap :: wrap_env where
  "demo_wrap = \<lparr>wrap_urls = \<lparr>url_parse = (\<lambda>_. Inl ''no URL''), url_text = (\<lambda>_. [])\<rparr>, wrap_form = id, wrap_prefix = [], wrap_domains = []\<rparr>"


text \<open>
  The in-memory variant returns the client's document with the output settings removed and
  every image inlined, and afterwards exactly the blobs from before are live: those of the
  images and of the body have been removed, also when several references share one.
\<close>

theorem rewrite_request_inline_data_correct:
  assumes "json_wf body" "scan_request_image_urls body = Ok refs" "refs \<noteq> []"
    and "materialize_request_images_with_services W (materialize_services_of svc) schedule body s = Some (Ok m, told, s1)"
    and "json_writer env dec" "fair_reads (16 * 1024) pipe_reads" "parse (ser env doc) = Ok doc"
    and "blob_inv s" "io_error s = Map.empty" "images_fit W (materialize_services_of svc)" "unat (next_id_ctr s) + 8 < 2 ^ 64"
    and "doc = inlined_document (b64 env) W (materialize_services_of svc) refs body" "fits (ser env doc)"
  shows "\<exists>s'. rewrite_request_inline_data W env pipe_reads on_abort parse schedule svc body s = Some (Ok doc, s')
    \<and> blob_contents s' = blob_contents s \<and> blob_inv s'"
proof -
  let ?rs = "mat_replacements m" and ?body = "ser env doc"
  have body: "?body = ser env (inlined_document (b64 env) W (materialize_services_of svc) refs body)" by (simp add: assms(12))
  from encode_materialized [OF assms(1,2,4-6,8-11) body assms(13), of on_abort] obtain h s2 where m: "mat_request m = body"
    and enc: "encode_request_body env pipe_reads on_abort body ?rs s1 = (Ok \<lparr>body_blob = h, content_length = of_nat (length ?body)\<rparr>, s2)"
      "read_bytes h s2 = Ok ?body" "blob_inv s2" "io_error s2 = Map.empty"
      "\<forall>h' \<in> insert h (repl_blob ` set ?rs). h' < length (heap s2)"
      "blob_contents s2 |` (- insert h (repl_blob ` set ?rs)) = blob_contents s" by blast
  have "set (map repl_blob ?rs @ [h]) = insert h (repl_blob ` set ?rs)" by simp
  then obtain s3 where "remove_all (map repl_blob ?rs @ [h]) s2 = (Ok (), s3)" "blob_inv s3" "blob_contents s3 = blob_contents s"
    using remove_all_no_io [OF enc(3) _ enc(4), of "map repl_blob ?rs @ [h]"] enc(5,6) by fastforce
  moreover have "length refs \<le> MAX_INLINE_DATA_URLS" using scan_Ok_length [OF assms(2)] by (simp add: MAX_INLINE_DATA_URLS_def)
  ultimately show ?thesis
    using assms(2-4,7) m enc(1,2)
    by (simp add: rewrite_request_inline_data_def scan_inline_data_urls_def)
qed

definition demo_rw :: rewrite_services where
  "demo_rw = \<lparr>rw_image_client = image_client demo_mat, rw_max_image_bytes = 8, rw_allow_private_networks = True,
     rw_fetch_service = mat_fetch_service demo_mat, rw_cache_observer = True\<rparr>"

lemma demo_rw_services: "materialize_services_of demo_rw = demo_mat"
  by (simp add: materialize_services_of_def demo_rw_def demo_mat_def)

definition demo_doc :: json where
  "demo_doc = inlined_document rfc_encode demo_work demo_mat
     [\<lparr>json_pointer = ''/contents/0/inlineData'', ref_url = ''http://h/a''\<rparr>] demo_request"

lemma demo_doc_length: "length (json_text (\<lambda>_. []) demo_doc) = 72"
proof -
  have "inlined_at rfc_encode demo_work demo_mat [\<lparr>json_pointer = ''/contents/0/inlineData'', ref_url = ''http://h/a''\<rparr>] =
      (\<lambda>p. if p = ''/contents/0/inlineData'' then Some (image_value rfc_encode ''image/png'' ''abcd'') else None)"
    by (auto simp: fun_eq_iff inlined_at_def obtained_def demo_mat_def)
  moreover have "length (json_text (\<lambda>_. []) (patch (\<lambda>p. if p = ''/contents/0/inlineData'' then Some (image_value rfc_encode ''image/png'' ''abcd'') else None)
      [] (strip_output_from_value demo_request))) = 72"
    by code_simp
  ultimately show ?thesis by (simp add: demo_doc_def inlined_document_def)
qed

theorem rewrite_request_inline_data_witness:
  "\<exists>s'. rewrite_request_inline_data demo_work (std_env (\<lambda>_. []) 1 Map.empty demo_runtime) (\<lambda>b. map Inr (cut 2 b)) id
       (\<lambda>_. Ok demo_doc) demo_schedule demo_rw demo_request demo_runtime = Some (Ok demo_doc, s')
     \<and> blob_contents s' = blob_contents demo_runtime"
proof -
  let ?env = "std_env (\<lambda>_. []) 1 Map.empty demo_runtime"
  let ?refs = "[\<lparr>json_pointer = ''/contents/0/inlineData'', ref_url = ''http://h/a''\<rparr>]"
  from demo_materialize obtain m s1 where run:
    "materialize_request_images_with_services demo_work (materialize_services_of demo_rw) demo_schedule demo_request demo_runtime
       = Some (Ok m, [(''http://h/a'', False)], s1)" unfolding demo_rw_services by blast
  have fair: "fair_reads (16 * 1024) (\<lambda>b. map Inr (cut 2 b))" by (rule fair_cut) simp
  have room: "unat (next_id_ctr demo_runtime) + 8 < 2 ^ 64" by (simp add: demo_runtime_def runtime_new_def)
  have fit: "images_fit demo_work (materialize_services_of demo_rw)" unfolding demo_rw_services by (rule demo_images_fit)
  have doc: "demo_doc = inlined_document (b64 ?env) demo_work (materialize_services_of demo_rw) ?refs demo_request"
    by (simp add: demo_doc_def demo_rw_services std_env_def)
  have fits: "fits (ser ?env demo_doc)" using demo_doc_length by (simp add: fits_def std_env_def)
  from rewrite_request_inline_data_correct [where parse = "\<lambda>_. Ok demo_doc" and on_abort = id,
      OF demo_request_scan _ run writer.json_writer_axioms fair refl demo_runtime_ready(1,3) fit room doc fits]
  show ?thesis by blast
qed

end
