(* ===== verification/Admin_Log.thy ===== *)
theory Admin_Log
  imports Json_Value Base64_Engine Blob_Runtime
begin

text \<open>
  The admin log (rust-sync-proxy/src/admin.rs): the bounded buffer of recent requests, the
  counters, the password check, and the preparation of bodies for the log, which redacts
  base64 images, collects image URLs and truncates long texts on a character boundary.

  Bodies are UTF-8 byte strings; \<open>utf8_step\<close> reads one character or one maximal ill-formed
  subpart, as \<open>str\<close>, \<open>from_utf8\<close> and \<open>from_utf8_lossy\<close> do.  JSON parsing and pretty printing are
  parameters.

  Shown here: the buffer always holds the newest hundred entries of the whole history with
  consecutive identifiers; the counters are the sums over the history; the password check
  accepts exactly the basic credentials with the configured password; a redacted body has no
  image data left; and truncation keeps the longest prefix of whole characters that fits.
\<close>

section \<open>UTF-8\<close>

definition utf8_lead :: "nat \<Rightarrow> (nat \<times> nat) list option" where
  "utf8_lead n =
     (if n < 0x80 then Some []
      else if 0xC2 \<le> n \<and> n \<le> 0xDF then Some [(0x80, 0xBF)]
      else if n = 0xE0 then Some [(0xA0, 0xBF), (0x80, 0xBF)]
      else if n = 0xED then Some [(0x80, 0x9F), (0x80, 0xBF)]
      else if 0xE1 \<le> n \<and> n \<le> 0xEF then Some [(0x80, 0xBF), (0x80, 0xBF)]
      else if n = 0xF0 then Some [(0x90, 0xBF), (0x80, 0xBF), (0x80, 0xBF)]
      else if 0xF1 \<le> n \<and> n \<le> 0xF3 then Some [(0x80, 0xBF), (0x80, 0xBF), (0x80, 0xBF)]
      else if n = 0xF4 then Some [(0x80, 0x8F), (0x80, 0xBF), (0x80, 0xBF)]
      else None)"

fun utf8_matched :: "(nat \<times> nat) list \<Rightarrow> bytes \<Rightarrow> nat" where
  "utf8_matched ((lo, hi) # rs) (c # s) =
     (if lo \<le> (of_char c :: nat) \<and> (of_char c :: nat) \<le> hi then Suc (utf8_matched rs s) else 0)"
| "utf8_matched rs s = 0"

text \<open>The length of the character at the front, or of the ill-formed subpart there.\<close>

definition utf8_step :: "char \<Rightarrow> bytes \<Rightarrow> nat \<times> bool" where
  "utf8_step c s =
     (case utf8_lead (of_char c) of
        None \<Rightarrow> (0, False)
      | Some rs \<Rightarrow> (let k = utf8_matched rs s in (k, k = length rs)))"

fun utf8_chars :: "bytes \<Rightarrow> (bytes \<times> bool) list" where
  "utf8_chars [] = []"
| "utf8_chars (c # s) =
     (case utf8_step c s of (k, ok) \<Rightarrow> (c # take k s, ok) # utf8_chars (drop k s))"

definition utf8_valid :: "bytes \<Rightarrow> bool" where
  "utf8_valid s = list_all snd (utf8_chars s)"

definition from_utf8_lossy :: "bytes \<Rightarrow> string" where
  "from_utf8_lossy s =
     concat (map (\<lambda>(p, ok). if ok then p else [CHR 0xEF, CHR 0xBF, CHR 0xBD]) (utf8_chars s))"

section \<open>State\<close>

definition ADMIN_MAX_BODY_BYTES_PER_ENTRY :: nat where
  "ADMIN_MAX_BODY_BYTES_PER_ENTRY = 64 * 1024"

definition ADMIN_LOG_CAPACITY :: nat where
  "ADMIN_LOG_CAPACITY = 100"

record sanitized_admin_log =
  pretty :: string
  image_urls :: "string list"

record admin_log_entry =
  entry_id :: i64
  created_at :: string
  entry_method :: string
  entry_path :: string
  entry_query :: string
  remote_addr :: string
  is_stream :: bool
  entry_output_mode :: string
  entry_status_code :: u16
  duration_ms :: i64
  request_parse_ms :: i64
  request_image_prepare_ms :: i64
  request_image_materialize_ms :: i64
  request_image_fetch_work_ms :: i64
  request_image_store_work_ms :: i64
  request_encode_ms :: i64
  upstream_build_ms :: i64
  response_process_ms :: i64
  upload_ms :: i64
  finish_reason :: string
  request_raw :: string
  request_raw_images :: "string list"
  request_raw_image_cache_hits :: "string list"
  request_upstream :: string
  request_upstream_images :: "string list"
  response_downstream :: string
  response_images :: "string list"
  error_source :: string
  error_stage :: string
  error_kind :: string
  error_message :: string
  error_detail :: string
  upstream_status_code :: u16
  upstream_error_body :: string

definition default_entry :: admin_log_entry where
  "default_entry =
     \<lparr>entry_id = 0, created_at = [], entry_method = [], entry_path = [], entry_query = [], remote_addr = [],
      is_stream = False, entry_output_mode = [], entry_status_code = 0, duration_ms = 0, request_parse_ms = 0,
      request_image_prepare_ms = 0, request_image_materialize_ms = 0, request_image_fetch_work_ms = 0,
      request_image_store_work_ms = 0, request_encode_ms = 0, upstream_build_ms = 0, response_process_ms = 0,
      upload_ms = 0, finish_reason = [], request_raw = [], request_raw_images = [],
      request_raw_image_cache_hits = [], request_upstream = [], request_upstream_images = [],
      response_downstream = [], response_images = [], error_source = [], error_stage = [], error_kind = [],
      error_message = [], error_detail = [], upstream_status_code = 0, upstream_error_body = []\<rparr>"

record admin_stats =
  st_total_requests :: i64
  st_error_requests :: i64
  st_total_duration_ms :: i64
  st_request_parse_ms :: i64
  st_request_image_prepare_ms :: i64
  st_request_image_materialize_ms :: i64
  st_request_image_fetch_work_ms :: i64
  st_request_image_store_work_ms :: i64
  st_request_encode_ms :: i64
  st_upstream_build_ms :: i64
  st_response_process_ms :: i64
  st_upload_ms :: i64
  st_cache_hits :: i64

definition zero_stats :: admin_stats where
  "zero_stats =
     \<lparr>st_total_requests = 0, st_error_requests = 0, st_total_duration_ms = 0, st_request_parse_ms = 0,
      st_request_image_prepare_ms = 0, st_request_image_materialize_ms = 0, st_request_image_fetch_work_ms = 0,
      st_request_image_store_work_ms = 0, st_request_encode_ms = 0, st_upstream_build_ms = 0,
      st_response_process_ms = 0, st_upload_ms = 0, st_cache_hits = 0\<rparr>"

record admin_log_buffer =
  log_next_id :: i64
  log_entries :: "admin_log_entry list"

record admin_state =
  password :: string
  logs :: admin_log_buffer
  stats :: admin_stats

definition admin_new :: "string \<Rightarrow> admin_state" where
  "admin_new pw = \<lparr>password = pw, logs = \<lparr>log_next_id = 0, log_entries = []\<rparr>, stats = zero_stats\<rparr>"

definition admin_enabled :: "admin_state \<Rightarrow> bool" where
  "admin_enabled st \<longleftrightarrow> str_trim (password st) \<noteq> []"

fun pop_back_loop :: "admin_log_entry list \<Rightarrow> admin_log_entry list" where
  "pop_back_loop es = (if length es > ADMIN_LOG_CAPACITY then pop_back_loop (butlast es) else es)"

declare pop_back_loop.simps [simp del]

definition admin_record :: "admin_log_entry \<Rightarrow> admin_state \<Rightarrow> admin_state" where
  "admin_record e st =
     (let i = log_next_id (logs st) + 1
      in st\<lparr>logs := \<lparr>log_next_id = i, log_entries = pop_back_loop (e\<lparr>entry_id := i\<rparr> # log_entries (logs st))\<rparr>\<rparr>)"

definition snapshot_logs :: "admin_state \<Rightarrow> admin_log_entry list" where
  "snapshot_logs st = log_entries (logs st)"

definition apply_admin_stats :: "admin_log_entry \<Rightarrow> admin_stats \<Rightarrow> admin_stats" where
  "apply_admin_stats e s =
     s\<lparr>st_total_requests := st_total_requests s + 1,
       st_error_requests := (if entry_status_code e \<ge> 400 then st_error_requests s + 1 else st_error_requests s),
       st_total_duration_ms := st_total_duration_ms s + duration_ms e,
       st_request_parse_ms := st_request_parse_ms s + request_parse_ms e,
       st_request_image_prepare_ms := st_request_image_prepare_ms s + request_image_prepare_ms e,
       st_request_image_materialize_ms := st_request_image_materialize_ms s + request_image_materialize_ms e,
       st_request_image_fetch_work_ms := st_request_image_fetch_work_ms s + request_image_fetch_work_ms e,
       st_request_image_store_work_ms := st_request_image_store_work_ms s + request_image_store_work_ms e,
       st_request_encode_ms := st_request_encode_ms s + request_encode_ms e,
       st_upstream_build_ms := st_upstream_build_ms s + upstream_build_ms e,
       st_response_process_ms := st_response_process_ms s + response_process_ms e,
       st_upload_ms := st_upload_ms s + upload_ms e\<rparr>"

section \<open>The password check\<close>

text \<open>\<open>HeaderMap::get\<close> returns the first value; \<open>HeaderValue::to_str\<close> admits visible ASCII and tabs.\<close>

definition header_to_str :: "bytes \<Rightarrow> string option" where
  "header_to_str v =
     (if list_all (\<lambda>c. (32 \<le> (of_char c :: nat) \<and> (of_char c :: nat) < 127) \<or> (of_char c :: nat) = 9) v then Some v else None)"

definition check_basic_auth :: "(bytes \<Rightarrow> bytes option) \<Rightarrow> admin_state \<Rightarrow> (string \<times> bytes) list \<Rightarrow> bool" where
  "check_basic_auth dec st headers =
     (if \<not> admin_enabled st then False
      else case map_of headers ''authorization'' of
        None \<Rightarrow> False
      | Some value \<Rightarrow>
          (case header_to_str value of
             None \<Rightarrow> False
           | Some raw \<Rightarrow>
               (case strip_prefix ''Basic '' raw of
                  None \<Rightarrow> False
                | Some encoded \<Rightarrow>
                    (case dec (str_trim encoded) of
                       None \<Rightarrow> False
                     | Some decoded \<Rightarrow>
                         if \<not> utf8_valid decoded then False
                         else (case split_once (CHR '':'') decoded of
                                 None \<Rightarrow> False
                               | Some (_, pw) \<Rightarrow> pw = password st)))))"

section \<open>Bodies in the log\<close>

fun dedup_loop :: "string list \<Rightarrow> string set \<Rightarrow> string list" where
  "dedup_loop [] seen = []"
| "dedup_loop (s # v) seen =
     (let trimmed = str_trim s
      in if trimmed \<noteq> [] \<and> trimmed \<notin> seen then s # dedup_loop v (insert trimmed seen)
         else dedup_loop v seen)"

definition dedup_strings :: "string list \<Rightarrow> string list" where
  "dedup_strings v = dedup_loop v {}"

definition admin_logs_response :: "admin_state \<Rightarrow> admin_log_entry list" where
  "admin_logs_response st =
     map (\<lambda>e. e\<lparr>request_raw_images := dedup_strings (request_raw_images e),
               request_raw_image_cache_hits := dedup_strings (request_raw_image_cache_hits e),
               request_upstream_images := dedup_strings (request_upstream_images e),
               response_images := dedup_strings (response_images e)\<rparr>) (snapshot_logs st)"

definition is_image_url :: "string \<Rightarrow> bool" where
  "is_image_url s \<longleftrightarrow> starts_with s ''http://'' \<or> starts_with s ''https://'' \<or> starts_with s ''/proxy/image''"

definition omitted :: "nat \<Rightarrow> string" where
  "omitted n = ''[base64 omitted len='' @ show_nat n @ '']''"

text \<open>The set \<open>seen\<close> of the code always holds exactly the URLs collected so far.\<close>

definition collect_url :: "string \<Rightarrow> string list \<Rightarrow> string list" where
  "collect_url u urls = (if u \<in> set urls then urls else urls @ [u])"

definition redact_key :: "string \<Rightarrow> fields \<times> string list \<Rightarrow> fields \<times> string list" where
  "redact_key key mu =
     (case map_get (fst mu) key of
        Some (JObject i) \<Rightarrow>
          (case map_get i ''data'' of
             Some (JString d) \<Rightarrow>
               (let trimmed = str_trim d
                in if is_image_url trimmed then (fst mu, collect_url trimmed (snd mu))
                   else if trimmed \<noteq> [] then
                     (map_modify key (\<lambda>_. JObject (map_insert ''data'' (JString (omitted (length d))) i)) (fst mu), snd mu)
                   else mu)
           | _ \<Rightarrow> mu)
      | _ \<Rightarrow> mu)"

definition collect_file_uri :: "fields \<Rightarrow> string list \<Rightarrow> string list" where
  "collect_file_uri m urls =
     (case map_get m ''file_data'' of
        Some (JObject f) \<Rightarrow>
          (case map_get f ''file_uri'' of
             Some (JString u) \<Rightarrow>
               (let trimmed = str_trim u in if is_image_url trimmed then collect_url trimmed urls else urls)
           | _ \<Rightarrow> urls)
      | _ \<Rightarrow> urls)"

definition redact_object :: "fields \<Rightarrow> string list \<Rightarrow> fields \<times> string list" where
  "redact_object m urls =
     (case redact_key ''inline_data'' (redact_key ''inlineData'' (m, urls)) of
        (m', urls') \<Rightarrow> (m', collect_file_uri m' urls'))"

lemma nodes_redact_key: "fields_nodes (fst (redact_key key mu)) = fields_nodes (fst mu)"
proof (cases "map_get (fst mu) key")
  case (Some v)
  have mod: "fields_nodes (map_modify key (\<lambda>_. v') m) = fields_nodes m"
    if "map_get m key = Some v" "nodes v' = nodes v" for m v'
    using that by (induction m) (auto split: if_splits)
  show ?thesis
  proof (cases v)
    case (JObject i)
    with Some show ?thesis
      by (auto simp: redact_key_def Let_def fields_nodes_insert intro!: mod split: option.splits json.splits)
  qed (use Some in \<open>simp_all add: redact_key_def\<close>)
qed (simp add: redact_key_def)

lemma nodes_redact_object: "fields_nodes (fst (redact_object m urls)) = fields_nodes m"
  by (simp add: redact_object_def nodes_redact_key split_def)

function redact_walk :: "json \<Rightarrow> string list \<Rightarrow> json \<times> string list"
  and redact_fields :: "fields \<Rightarrow> string list \<Rightarrow> fields \<times> string list"
  and redact_items :: "json list \<Rightarrow> string list \<Rightarrow> json list \<times> string list" where
  "redact_walk (JObject m) urls =
     (let mu = redact_object m urls; r = redact_fields (fst mu) (snd mu) in (JObject (fst r), snd r))"
| "redact_walk (JArray xs) urls = (let r = redact_items xs urls in (JArray (fst r), snd r))"
| "redact_walk JNull urls = (JNull, urls)"
| "redact_walk (JBool b) urls = (JBool b, urls)"
| "redact_walk (JNumber n) urls = (JNumber n, urls)"
| "redact_walk (JString s) urls = (JString s, urls)"
| "redact_fields [] urls = ([], urls)"
| "redact_fields ((k, v) # m) urls =
     (let r = redact_walk v urls; rest = redact_fields m (snd r) in ((k, fst r) # fst rest, snd rest))"
| "redact_items [] urls = ([], urls)"
| "redact_items (x # xs) urls =
     (let r = redact_walk x urls; rest = redact_items xs (snd r) in (fst r # fst rest, snd rest))"
  by pat_completeness auto

termination
  by (relation "measure (\<lambda>x. case x of Inl (v, _) \<Rightarrow> 2 * nodes v
      | Inr (Inl (m, _)) \<Rightarrow> 2 * fields_nodes m + 1 | Inr (Inr (xs, _)) \<Rightarrow> 2 * items_nodes xs + 1)")
    (auto simp: nodes_redact_object case_prod_beta)

definition redact_inline_data_and_collect_image_urls :: "json \<Rightarrow> json \<times> string list" where
  "redact_inline_data_and_collect_image_urls root = redact_walk root []"

definition char_indices :: "bytes \<Rightarrow> nat list" where
  "char_indices s = map (\<lambda>k. length (concat (map fst (take k (utf8_chars s))))) [0..<length (utf8_chars s)]"

fun boundary_loop :: "nat \<Rightarrow> nat list \<Rightarrow> nat \<Rightarrow> nat" where
  "boundary_loop max_bytes [] boundary = boundary"
| "boundary_loop max_bytes (i # is) boundary =
     (if i > max_bytes then boundary else boundary_loop max_bytes is i)"

definition truncation_suffix :: string where
  "truncation_suffix = CHR 0x0A # ''...[truncated]''"

definition truncate_for_admin_log :: "string \<Rightarrow> nat \<Rightarrow> string" where
  "truncate_for_admin_log input max_bytes =
     (if length input \<le> max_bytes then input
      else take (boundary_loop max_bytes (char_indices input) 0) input @ truncation_suffix)"

text \<open>\<open>serde_json\<close>'s parser and pretty printer.\<close>

record json_io =
  from_slice :: "bytes \<Rightarrow> json option"
  to_string_pretty :: "json \<Rightarrow> string option"

definition sanitize_json_for_log :: "json_io \<Rightarrow> bytes \<Rightarrow> sanitized_admin_log" where
  "sanitize_json_for_log js raw =
     (if raw = [] then \<lparr>pretty = [], image_urls = []\<rparr>
      else case from_slice js raw of
        None \<Rightarrow> \<lparr>pretty = truncate_for_admin_log (from_utf8_lossy raw) ADMIN_MAX_BODY_BYTES_PER_ENTRY, image_urls = []\<rparr>
      | Some root \<Rightarrow>
          (case redact_inline_data_and_collect_image_urls root of
             (root', urls) \<Rightarrow>
               \<lparr>pretty =
                  (case to_string_pretty js root' of
                     Some t \<Rightarrow> truncate_for_admin_log t ADMIN_MAX_BODY_BYTES_PER_ENTRY
                   | None \<Rightarrow> truncate_for_admin_log (from_utf8_lossy raw) ADMIN_MAX_BODY_BYTES_PER_ENTRY),
                image_urls = urls\<rparr>))"

definition maybe_sanitize_json_for_log :: "json_io \<Rightarrow> bytes \<Rightarrow> bool \<Rightarrow> sanitized_admin_log option" where
  "maybe_sanitize_json_for_log js raw enabled = (if enabled then Some (sanitize_json_for_log js raw) else None)"

definition extract_finish_reason :: "json \<Rightarrow> string option" where
  "extract_finish_reason body =
     (case json_get body ''candidates'' of
        Some (JArray (candidate # _)) \<Rightarrow>
          (case json_get candidate ''finishReason'' of Some (JString s) \<Rightarrow> Some s | _ \<Rightarrow> None)
      | _ \<Rightarrow> None)"

record admin_stats_payload =
  payload_stats :: admin_stats
  payload_spill_count :: u64
  payload_spill_bytes_total :: u64

definition admin_stats_response :: "admin_state \<Rightarrow> blob_runtime_stats_snapshot \<Rightarrow> admin_stats_payload" where
  "admin_stats_response st rt =
     \<lparr>payload_stats = stats st, payload_spill_count = snapshot_spill_count rt,
      payload_spill_bytes_total = snapshot_spill_bytes_total rt\<rparr>"

section \<open>The buffer and its history\<close>

lemma pop_back_loop_eq: "pop_back_loop es = take ADMIN_LOG_CAPACITY es"
proof (induction es rule: pop_back_loop.induct)
  case (1 es)
  show ?case
  proof (cases "length es > ADMIN_LOG_CAPACITY")
    case True
    with 1 show ?thesis by (subst pop_back_loop.simps) (simp add: take_butlast)
  qed (subst pop_back_loop.simps, simp)
qed

text \<open>The specification: all entries ever recorded, newest first, numbered from one.\<close>

definition numbered :: "admin_log_entry list \<Rightarrow> admin_log_entry list" where
  "numbered es = map (\<lambda>i. (es ! i)\<lparr>entry_id := of_nat (Suc i)\<rparr>) (rev [0..<length es])"

definition recorded :: "string \<Rightarrow> admin_log_entry list \<Rightarrow> admin_state" where
  "recorded pw es = fold admin_record es (admin_new pw)"

lemma numbered_snoc: "numbered (es @ [e]) = e\<lparr>entry_id := of_nat (Suc (length es))\<rparr> # numbered es"
  by (auto simp: numbered_def nth_append simp del: of_nat_Suc)

lemma take_Suc_take: "take n (x # take n xs) = take n (x # xs)"
  by (cases n) (auto simp: min_def)

lemma recorded_log:
  "log_entries (logs (recorded pw es)) = take ADMIN_LOG_CAPACITY (numbered es)
   \<and> log_next_id (logs (recorded pw es)) = of_nat (length es)"
proof (induction es rule: rev_induct)
  case Nil
  then show ?case by (simp add: recorded_def admin_new_def numbered_def)
next
  case (snoc e es)
  then show ?case
    by (simp add: recorded_def admin_record_def Let_def pop_back_loop_eq numbered_snoc take_Suc_take add.commute)
qed

lemma apply_stats_fold:
  "st_total_requests (fold apply_admin_stats es s) = st_total_requests s + of_nat (length es)"
  "st_error_requests (fold apply_admin_stats es s) = st_error_requests s + of_nat (length (filter (\<lambda>e. entry_status_code e \<ge> 400) es))"
  "st_total_duration_ms (fold apply_admin_stats es s) = st_total_duration_ms s + sum_list (map duration_ms es)"
  "st_upload_ms (fold apply_admin_stats es s) = st_upload_ms s + sum_list (map upload_ms es)"
  by (induction es arbitrary: s) (simp_all add: apply_admin_stats_def algebra_simps)

section \<open>Redaction\<close>

text \<open>The texts of all inline images, under either name.\<close>

definition object_texts :: "fields \<Rightarrow> string list" where
  "object_texts m =
     concat (map (\<lambda>key. case map_get m key of
         Some (JObject i) \<Rightarrow> (case map_get i ''data'' of Some (JString d) \<Rightarrow> [d] | _ \<Rightarrow> [])
       | _ \<Rightarrow> []) [''inlineData'', ''inline_data''])"

fun inline_texts :: "json \<Rightarrow> string list"
  and fields_inline_texts :: "fields \<Rightarrow> string list"
  and items_inline_texts :: "json list \<Rightarrow> string list" where
  "inline_texts (JObject m) = object_texts m @ fields_inline_texts m"
| "inline_texts (JArray xs) = items_inline_texts xs"
| "inline_texts JNull = []"
| "inline_texts (JBool b) = []"
| "inline_texts (JNumber n) = []"
| "inline_texts (JString s) = []"
| "fields_inline_texts [] = []"
| "fields_inline_texts ((k, v) # m) = inline_texts v @ fields_inline_texts m"
| "items_inline_texts [] = []"
| "items_inline_texts (x # xs) = inline_texts x @ items_inline_texts xs"

definition harmless :: "string \<Rightarrow> bool" where
  "harmless t \<longleftrightarrow> is_image_url (str_trim t) \<or> str_trim t = [] \<or> (\<exists>n. t = omitted n)"

lemma redact_key_text:
  assumes "(m', urls') = redact_key key (m, urls)" "map_get m' key = Some (JObject i)" "map_get i ''data'' = Some (JString d)"
  shows "harmless d"
  using assms
  by (auto simp: redact_key_def harmless_def Let_def map_get_modify map_get_insert split: option.splits json.splits if_splits)

lemma redact_key_other: "t \<noteq> key \<Longrightarrow> map_get (fst (redact_key key mu)) t = map_get (fst mu) t"
  by (auto simp: redact_key_def Let_def map_get_modify split: option.splits json.splits)

lemma redact_object_texts: "list_all harmless (object_texts (fst (redact_object m urls)))"
proof -
  define mu where "mu = redact_key ''inlineData'' (m, urls)"
  define mu' where "mu' = redact_key ''inline_data'' mu"
  have "fst (redact_object m urls) = fst mu'" by (simp add: redact_object_def mu_def mu'_def split_def)
  moreover have "harmless d" if "map_get (fst mu') ''inlineData'' = Some (JObject i)" "map_get i ''data'' = Some (JString d)" for i d
    using redact_key_text [of "fst mu" "snd mu" "''inlineData''" m urls i d] redact_key_other [of "''inlineData''" "''inline_data''" mu] that
    by (simp add: mu_def mu'_def)
  moreover have "harmless d" if "map_get (fst mu') ''inline_data'' = Some (JObject i)" "map_get i ''data'' = Some (JString d)" for i d
    using redact_key_text [of "fst mu'" "snd mu'" "''inline_data''" "fst mu" "snd mu" i d] that
    by (simp add: mu'_def)
  ultimately show ?thesis
    by (auto simp: object_texts_def split: option.split json.split)
qed

definition text_of :: "json \<Rightarrow> string list" where
  "text_of v = (case v of JObject i \<Rightarrow> (case map_get i ''data'' of Some (JString d) \<Rightarrow> [d] | _ \<Rightarrow> []) | _ \<Rightarrow> [])"

lemma object_texts_eq:
  "object_texts m = concat (map (\<lambda>key. case map_get m key of None \<Rightarrow> [] | Some v \<Rightarrow> text_of v) [''inlineData'', ''inline_data''])"
  by (simp add: object_texts_def text_of_def split: option.split json.split)

lemma redact_fields_get:
  "\<exists>u. map_get (fst (redact_fields m urls)) k = map_option (\<lambda>v. fst (redact_walk v u)) (map_get m k)"
  by (induction m arbitrary: urls) (auto simp: Let_def)

lemma redact_object_data: "map_get (fst (redact_object m urls)) ''data'' = map_get m ''data''"
  by (simp add: redact_object_def split_def redact_key_other)

lemma redact_walk_string_iff: "fst (redact_walk v u) = JString s \<longleftrightarrow> v = JString s"
  by (cases v) (auto simp: Let_def)

lemma text_of_redact: "text_of (fst (redact_walk v u)) = text_of v"
proof (cases v)
  case (JObject i)
  obtain u' where "map_get (fst (redact_fields (fst (redact_object i u)) (snd (redact_object i u)))) ''data''
      = map_option (\<lambda>v. fst (redact_walk v u')) (map_get i ''data'')"
    using redact_fields_get [of "fst (redact_object i u)"] redact_object_data by metis
  then show ?thesis
    using JObject by (auto simp: text_of_def Let_def redact_walk_string_iff split: option.split json.split)
qed (simp_all add: text_of_def Let_def)

lemma redact_fields_texts: "object_texts (fst (redact_fields m urls)) = object_texts m"
proof -
  have "(case map_get (fst (redact_fields m urls)) key of None \<Rightarrow> [] | Some v \<Rightarrow> text_of v)
      = (case map_get m key of None \<Rightarrow> [] | Some v \<Rightarrow> text_of v)" for key
    using redact_fields_get [of m urls key] by (auto simp: text_of_redact split: option.split)
  then show ?thesis by (simp add: object_texts_eq)
qed

lemma redact_harmless:
  "list_all harmless (inline_texts (fst (redact_walk v urls)))"
  "list_all harmless (fields_inline_texts (fst (redact_fields m urls)))"
  "list_all harmless (items_inline_texts (fst (redact_items xs urls)))"
  by (induction v urls and m urls and xs urls rule: redact_walk_redact_fields_redact_items.induct)
    (simp_all add: Let_def redact_fields_texts redact_object_texts)

definition urls_ok :: "string list \<Rightarrow> bool" where
  "urls_ok urls \<longleftrightarrow> distinct urls \<and> list_all is_image_url urls"

lemma collect_url_ok: "urls_ok urls \<Longrightarrow> is_image_url u \<Longrightarrow> urls_ok (collect_url u urls)"
  by (auto simp: urls_ok_def collect_url_def)

lemma redact_key_urls: "urls_ok (snd mu) \<Longrightarrow> urls_ok (snd (redact_key key mu))"
  by (auto simp: redact_key_def Let_def collect_url_ok split: option.splits json.splits)

lemma redact_object_urls: "urls_ok urls \<Longrightarrow> urls_ok (snd (redact_object m urls))"
  by (auto simp: redact_object_def collect_file_uri_def Let_def redact_key_urls split_def
      intro!: collect_url_ok split: option.splits json.splits)

lemma redact_urls_ok:
  "urls_ok urls \<Longrightarrow> urls_ok (snd (redact_walk v urls))"
  "urls_ok urls \<Longrightarrow> urls_ok (snd (redact_fields m urls))"
  "urls_ok urls \<Longrightarrow> urls_ok (snd (redact_items xs urls))"
  by (induction v urls and m urls and xs urls rule: redact_walk_redact_fields_redact_items.induct)
    (simp_all add: Let_def redact_object_urls)

section \<open>Truncation\<close>

lemma utf8_matched_le: "utf8_matched rs s \<le> length rs" "utf8_matched rs s \<le> length s"
  by (induction rs s rule: utf8_matched.induct) auto

lemma utf8_matched_prefix:
  "utf8_matched rs s = length rs \<Longrightarrow> utf8_matched rs (take (length rs) s @ t) = length rs"
  by (induction rs s rule: utf8_matched.induct) (auto split: if_splits)

lemma utf8_lead_length: "utf8_lead n = Some rs \<Longrightarrow> length rs \<le> 3"
  by (auto simp: utf8_lead_def split: if_splits)

lemma utf8_step_bounds: "utf8_step c s = (k, ok) \<Longrightarrow> k \<le> length s \<and> k \<le> 3"
proof (cases "utf8_lead (of_char c)")
  case (Some rs)
  assume "utf8_step c s = (k, ok)"
  with Some have "k = utf8_matched rs s" by (simp add: utf8_step_def Let_def)
  with utf8_matched_le [of rs s] utf8_lead_length [OF Some] show ?thesis by simp
qed (simp add: utf8_step_def)

lemma utf8_step_prefix: "utf8_step c s = (k, True) \<Longrightarrow> utf8_step c (take k s @ t) = (k, True)"
  using utf8_matched_prefix by (auto simp: utf8_step_def Let_def split: option.splits)

lemma concat_utf8_chars: "concat (map fst (utf8_chars s)) = s"
  by (induction s rule: utf8_chars.induct) (auto split: prod.splits)

lemma utf8_char_length: "p \<in> set (utf8_chars s) \<Longrightarrow> length (fst p) \<le> 4"
proof (induction s rule: utf8_chars.induct)
  case (2 c s)
  obtain k ok where k: "utf8_step c s = (k, ok)" by (metis prod.collapse)
  with utf8_step_bounds [OF k] 2 show ?case by auto
qed simp

lemma utf8_chars_prefix:
  "list_all snd (utf8_chars s) \<Longrightarrow> utf8_chars (concat (map fst (take n (utf8_chars s)))) = take n (utf8_chars s)"
proof (induction s arbitrary: n rule: utf8_chars.induct)
  case (2 c s)
  obtain k ok where k: "utf8_step c s = (k, ok)" by (metis prod.collapse)
  show ?case
  proof (cases n)
    case (Suc m)
    let ?t = "concat (map fst (take m (utf8_chars (drop k s))))"
    from 2 k have ok: "ok" and IH: "utf8_chars ?t = take m (utf8_chars (drop k s))" by auto
    have "k \<le> length s" using utf8_step_bounds [OF k] by simp
    moreover have "utf8_step c (take k s @ ?t) = (k, True)" using utf8_step_prefix k ok by simp
    ultimately show ?thesis using Suc k ok IH by simp
  qed simp
qed simp

lemma boundary_loop_spec:
  "(boundary_loop mx is b = b \<and> (is = [] \<or> mx < hd is))
   \<or> (\<exists>k < length is. boundary_loop mx is b = is ! k \<and> is ! k \<le> mx \<and> (Suc k < length is \<longrightarrow> mx < is ! Suc k))"
proof (induction "is" arbitrary: b)
  case (Cons i "is")
  show ?case
  proof (cases "mx < i")
    case False
    from Cons [of i] consider (same) "boundary_loop mx is i = i" "is = [] \<or> mx < hd is"
      | (later) k where "k < length is" "boundary_loop mx is i = is ! k" "is ! k \<le> mx" "Suc k < length is \<longrightarrow> mx < is ! Suc k"
      by blast
    then show ?thesis
    proof cases
      case same
      with False show ?thesis by (intro disjI2 exI [where x = 0]) (auto simp: hd_conv_nth)
    next
      case (later k)
      with False show ?thesis by (intro disjI2 exI [where x = "Suc k"]) auto
    qed
  qed simp
qed simp

lemma truncated_at:
  assumes "mx < length s"
  shows "\<exists>k < length (utf8_chars s). boundary_loop mx (char_indices s) 0 = length (concat (map fst (take k (utf8_chars s))))
    \<and> length (concat (map fst (take k (utf8_chars s)))) \<le> mx
    \<and> mx < length (concat (map fst (take (Suc k) (utf8_chars s))))"
proof -
  let ?cs = "utf8_chars s"
  let ?off = "\<lambda>k. length (concat (map fst (take k ?cs)))"
  have ne: "?cs \<noteq> []" using assms by (cases s) (auto split: prod.splits)
  have total: "?off (length ?cs) = length s" by (simp add: concat_utf8_chars)
  have hd: "hd (char_indices s) = 0" using ne by (simp add: char_indices_def upt_rec)
  from boundary_loop_spec [of mx "char_indices s" 0] obtain k where k: "k < length ?cs" "boundary_loop mx (char_indices s) 0 = ?off k" "?off k \<le> mx"
      "Suc k < length ?cs \<longrightarrow> mx < ?off (Suc k)"
    using hd ne by (auto simp: char_indices_def)
  moreover have "mx < ?off (Suc k)" if "Suc k = length ?cs" using that total assms by simp
  ultimately show ?thesis by (metis Suc_lessI)
qed

section \<open>Properties\<close>

text \<open>
  C29: The bounded buffer refines the unbounded history: after any sequence of records it holds
  the newest hundred entries, newest first, each numbered by its position in the whole
  history.
\<close>

theorem log_refines_history:
  "snapshot_logs (recorded pw es) = take 100 (numbered es)"
  using recorded_log [of pw es] by (simp add: snapshot_logs_def ADMIN_LOG_CAPACITY_def)

text \<open>
  The password check accepts exactly the requests whose first \<open>authorization\<close> value is
  \<open>Basic\<close> with the encoding of a user name without colon, a colon and the configured
  password, and none at all while no password is configured.
\<close>

theorem basic_auth_exact:
  "check_basic_auth dec st headers \<longleftrightarrow>
     str_trim (password st) \<noteq> []
   \<and> (\<exists>v e user. map_of headers ''authorization'' = Some v \<and> header_to_str v = Some (''Basic '' @ e)
        \<and> dec (str_trim e) = Some (user @ CHR '':'' # password st) \<and> CHR '':'' \<notin> set user
        \<and> utf8_valid (user @ CHR '':'' # password st))"
proof
  assume "check_basic_auth dec st headers"
  then obtain v raw e d u where *: "str_trim (password st) \<noteq> []" "map_of headers ''authorization'' = Some v" "header_to_str v = Some raw"
      "strip_prefix ''Basic '' raw = Some e" "dec (str_trim e) = Some d" "utf8_valid d" "split_once (CHR '':'') d = Some (u, password st)"
    by (auto simp: check_basic_auth_def admin_enabled_def split: if_splits option.splits prod.splits)
  moreover from *(4) have "raw = ''Basic '' @ e" by (simp only: strip_prefix_eq_Some)
  moreover from *(7) have "d = u @ CHR '':'' # password st" "CHR '':'' \<notin> set u" using split_once_append by auto
  ultimately show "str_trim (password st) \<noteq> []
     \<and> (\<exists>v e user. map_of headers ''authorization'' = Some v \<and> header_to_str v = Some (''Basic '' @ e)
        \<and> dec (str_trim e) = Some (user @ CHR '':'' # password st) \<and> CHR '':'' \<notin> set user
        \<and> utf8_valid (user @ CHR '':'' # password st))" by blast
next
  assume "str_trim (password st) \<noteq> []
     \<and> (\<exists>v e user. map_of headers ''authorization'' = Some v \<and> header_to_str v = Some (''Basic '' @ e)
        \<and> dec (str_trim e) = Some (user @ CHR '':'' # password st) \<and> CHR '':'' \<notin> set user
        \<and> utf8_valid (user @ CHR '':'' # password st))"
  then obtain v e user where *: "str_trim (password st) \<noteq> []" "map_of headers ''authorization'' = Some v"
      "header_to_str v = Some (''Basic '' @ e)" "dec (str_trim e) = Some (user @ CHR '':'' # password st)"
      "CHR '':'' \<notin> set user" "utf8_valid (user @ CHR '':'' # password st)" by blast
  have "strip_prefix ''Basic '' (''Basic '' @ e) = Some e" by (simp only: strip_prefix_eq_Some)
  with * show "check_basic_auth dec st headers"
    by (simp add: check_basic_auth_def admin_enabled_def)
qed

text \<open>
  C30: In a redacted body no inline image, under either name and at any depth, keeps its data:
  every text left is an image URL, blank, or the omission marker.  The collected URLs are
  image URLs without repetition.
\<close>

theorem redaction_complete:
  "list_all harmless (inline_texts (fst (redact_inline_data_and_collect_image_urls root)))
   \<and> urls_ok (snd (redact_inline_data_and_collect_image_urls root))"
  using redact_harmless(1) [of root "[]"] redact_urls_ok(1) [of "[]" root]
  by (simp add: redact_inline_data_and_collect_image_urls_def urls_ok_def)

text \<open>
  A text longer than the limit is cut at the last character boundary within the limit: what
  is kept is valid UTF-8, at most the limit and less than one character short of it.
\<close>

theorem truncate_whole_characters:
  assumes "utf8_valid s" "mx < length s"
  shows "\<exists>p r. s = p @ r \<and> truncate_for_admin_log s mx = p @ truncation_suffix
    \<and> utf8_valid p \<and> length p \<le> mx \<and> mx < length p + 4"
proof -
  let ?cs = "utf8_chars s"
  obtain k where k: "k < length ?cs" "boundary_loop mx (char_indices s) 0 = length (concat (map fst (take k ?cs)))"
      "length (concat (map fst (take k ?cs))) \<le> mx" "mx < length (concat (map fst (take (Suc k) ?cs)))"
    using truncated_at [OF assms(2)] by blast
  define p where "p = concat (map fst (take k ?cs))"
  have s: "s = p @ concat (map fst (drop k ?cs))"
    unfolding p_def by (subst concat_utf8_chars [of s, symmetric]) (metis append_take_drop_id concat_append map_append)
  have "length (fst (?cs ! k)) \<le> 4" using utf8_char_length k(1) by (metis nth_mem)
  with k(1,4) have "mx < length p + 4" by (simp add: p_def take_Suc_conv_app_nth)
  moreover have "utf8_valid p"
    using utf8_chars_prefix [of s k] assms(1) by (auto simp: utf8_valid_def p_def list_all_iff dest: in_set_takeD)
  moreover have "truncate_for_admin_log s mx = p @ truncation_suffix"
    using assms(2) k(2) s by (simp add: truncate_for_admin_log_def p_def [symmetric]) (metis append_eq_conv_conj)
  ultimately show ?thesis using s k(3) by (auto simp: p_def)
qed

theorem truncate_whole_characters_witness:
  "truncate_for_admin_log [CHR ''a'', CHR 0xE5, CHR 0x9B, CHR 0xBE, CHR ''b''] 3 = ''a'' @ truncation_suffix
   \<and> (\<exists>p r. [CHR ''a'', CHR 0xE5, CHR 0x9B, CHR 0xBE, CHR ''b''] = p @ r \<and> utf8_valid p \<and> length p \<le> 3 \<and> 3 < length p + 4)"
proof
  have "utf8_valid [CHR ''a'', CHR 0xE5, CHR 0x9B, CHR 0xBE, CHR ''b'']" by code_simp
  from truncate_whole_characters [OF this, of 3]
  show "\<exists>p r. [CHR ''a'', CHR 0xE5, CHR 0x9B, CHR 0xBE, CHR ''b''] = p @ r \<and> utf8_valid p \<and> length p \<le> 3 \<and> 3 < length p + 4"
    by auto
  show "truncate_for_admin_log [CHR ''a'', CHR 0xE5, CHR 0x9B, CHR 0xBE, CHR ''b''] 3 = ''a'' @ truncation_suffix" by code_simp
qed

end
