(* ===== verification/Base64_Stream.thy ===== *)
theory Base64_Stream
  imports Base64_Engine
begin

text \<open>
  Streaming of base64 payloads (rust-sync-proxy/src/upload.rs): the announced length, the hash
  computed chunk by chunk, and the reader \<open>Base64DecodedReader\<close> that decodes 32 KiB of text at a
  time into buffers of any size.  The engine's \<open>decode\<close> and SHA-256 are parameters.

  Shown here: for every valid payload the reader delivers exactly the decoded bytes, for every
  sequence of buffer sizes, the announced length is their number, and the streamed hash is
  the hash of all of them; what the chunked decoding accepts beyond that is characterised.
\<close>

section \<open>Definitions\<close>

definition BASE64_STREAM_INPUT_CHARS :: nat where
  "BASE64_STREAM_INPUT_CHARS = 32 * 1024"

definition decoded_base64_len :: "bytes \<Rightarrow> anyhow + u64" where
  "decoded_base64_len data =
     (if data = [] then Ok 0
      else if length data mod 4 \<noteq> 0 then Err (Message ''invalid base64 length'')
      else
        (let pad = (if ends_with data ''=='' then 2 else if ends_with data ''='' then 1 else 0)
         in Ok (of_nat (length data div 4 * 3 - pad))))"

definition next_base64_chunk_end :: "nat \<Rightarrow> nat \<Rightarrow> nat" where
  "next_base64_chunk_end total_len off =
     (if total_len - off \<le> BASE64_STREAM_INPUT_CHARS then total_len else off + BASE64_STREAM_INPUT_CHARS)"

definition decode_base64_chunk :: "(bytes \<Rightarrow> bytes option) \<Rightarrow> bytes \<Rightarrow> anyhow + bytes" where
  "decode_base64_chunk dec chunk =
     (case dec chunk of
        None \<Rightarrow> Err (Message ''Invalid base64'')
      | Some x \<Rightarrow>
          if length x \<le> length chunk div 4 * 3 then Ok x else Err (Message ''Output slice is too small''))"

definition slice :: "bytes \<Rightarrow> nat \<Rightarrow> nat \<Rightarrow> bytes" where
  "slice b i j = take (j - i) (drop i b)"

lemma next_end_bounds: "off < n \<Longrightarrow> off < next_base64_chunk_end n off \<and> next_base64_chunk_end n off \<le> n"
  by (auto simp: next_base64_chunk_end_def BASE64_STREAM_INPUT_CHARS_def)

text \<open>The hashing loop; \<open>hashed\<close> are the bytes given to the hasher so far.\<close>

function sha_loop :: "(bytes \<Rightarrow> bytes option) \<Rightarrow> bytes \<Rightarrow> nat \<Rightarrow> bytes \<Rightarrow> anyhow + bytes" where
  "sha_loop dec data off hashed =
     (if off < length data then
        (let e = next_base64_chunk_end (length data) off
         in and_then (decode_base64_chunk dec (slice data off e)) (\<lambda>d. sha_loop dec data e (hashed @ d)))
      else Ok hashed)"
  by pat_completeness auto

termination
  by (relation "measure (\<lambda>(_, data, off, _). length data - off)")
    (use next_end_bounds in \<open>auto simp: diff_less_mono2\<close>)

definition hex_text :: "bytes \<Rightarrow> string" where
  "hex_text b = concat (map (\<lambda>c. [''0123456789abcdef'' ! (of_char c div 16), ''0123456789abcdef'' ! (of_char c mod 16)]) b)"

definition sha256_hex :: "(bytes \<Rightarrow> bytes) \<Rightarrow> bytes \<Rightarrow> string" where
  "sha256_hex sha data = hex_text (sha data)"

definition sha256_hex_base64 :: "(bytes \<Rightarrow> bytes option) \<Rightarrow> (bytes \<Rightarrow> bytes) \<Rightarrow> bytes \<Rightarrow> anyhow + string" where
  "sha256_hex_base64 dec sha data = and_then (sha_loop dec data 0 []) (\<lambda>h. Ok (hex_text (sha h)))"

record base64_decoded_reader =
  data_base64 :: bytes
  offset :: nat
  pending :: bytes
  pending_offset :: nat

definition reader_new :: "bytes \<Rightarrow> base64_decoded_reader" where
  "reader_new data = \<lparr>data_base64 = data, offset = 0, pending = [], pending_offset = 0\<rparr>"

text \<open>\<open>remaining\<close> is the room left in the caller's buffer, \<open>filled\<close> what was put there.\<close>

function poll_read :: "(bytes \<Rightarrow> bytes option) \<Rightarrow> base64_decoded_reader \<Rightarrow> nat \<Rightarrow> bytes
    \<Rightarrow> (anyhow + bytes) \<times> base64_decoded_reader" where
  "poll_read dec r remaining filled =
     (if remaining = 0 then (Ok filled, r)
      else if pending_offset r < length (pending r) then
        (let available = length (pending r) - pending_offset r;
             to_copy = min available remaining;
             filled' = filled @ slice (pending r) (pending_offset r) (pending_offset r + to_copy)
         in if pending_offset r + to_copy < length (pending r)
            then (Ok filled', r\<lparr>pending_offset := pending_offset r + to_copy\<rparr>)
            else poll_read dec (r\<lparr>pending := [], pending_offset := 0\<rparr>) (remaining - to_copy) filled')
      else if offset r \<ge> length (data_base64 r) then (Ok filled, r)
      else
        (let e = next_base64_chunk_end (length (data_base64 r)) (offset r)
         in case decode_base64_chunk dec (slice (data_base64 r) (offset r) e) of
              Inl err \<Rightarrow> (Err err, r)
            | Inr d \<Rightarrow> poll_read dec (r\<lparr>pending := d, offset := e\<rparr>) remaining filled))"
  by pat_completeness auto

termination
proof (relation "measures [\<lambda>(_, r, _, _). length (data_base64 r) - offset r, \<lambda>(_, r, _, _). length (pending r) - pending_offset r]")
  fix dec r remaining filled and available to_copy :: nat and filled' :: bytes
  assume "pending_offset r < length (pending r)"
  then show "((dec, r\<lparr>pending := [], pending_offset := 0\<rparr>, remaining - to_copy, filled'), dec, r, remaining, filled)
      \<in> measures [\<lambda>(_, r, _, _). length (data_base64 r) - offset r, \<lambda>(_, r, _, _). length (pending r) - pending_offset r]"
    by simp
next
  fix dec :: "bytes \<Rightarrow> bytes option" and r remaining filled e d
  assume "\<not> length (data_base64 r) \<le> offset r" "e = next_base64_chunk_end (length (data_base64 r)) (offset r)"
  then show "((dec, r\<lparr>pending := d, offset := e\<rparr>, remaining, filled), dec, r, remaining, filled)
      \<in> measures [\<lambda>(_, r, _, _). length (data_base64 r) - offset r, \<lambda>(_, r, _, _). length (pending r) - pending_offset r]"
    using next_end_bounds [of "offset r" "length (data_base64 r)"] by (simp add: diff_less_mono2)
qed simp

declare poll_read.simps [simp del] sha_loop.simps [simp del]

text \<open>A consumer that reads with the given buffer sizes until one of the reads fails.\<close>

fun read_all :: "(bytes \<Rightarrow> bytes option) \<Rightarrow> base64_decoded_reader \<Rightarrow> nat list \<Rightarrow> (anyhow + bytes list) \<times> base64_decoded_reader" where
  "read_all dec r [] = (Ok [], r)"
| "read_all dec r (n # ns) =
     (case poll_read dec r n [] of
        (Inl e, r') \<Rightarrow> (Err e, r')
      | (Inr b, r') \<Rightarrow>
          (case read_all dec r' ns of
             (Inl e, r'') \<Rightarrow> (Err e, r'')
           | (Inr bs, r'') \<Rightarrow> (Ok (b # bs), r'')))"

section \<open>The reader delivers what is left\<close>

lemma sha_loop_acc: "sha_loop dec data off (g @ h) = and_then (sha_loop dec data off h) (\<lambda>y. Ok (g @ y))"
proof (induction dec data off h rule: sha_loop.induct)
  case (1 dec data off h)
  show ?case
  proof (cases "off < length data")
    case True
    let ?e = "next_base64_chunk_end (length data) off"
    show ?thesis
    proof (cases "decode_base64_chunk dec (slice data off ?e)")
      case (Inr d)
      have "sha_loop dec data ?e (g @ h @ d) = and_then (sha_loop dec data ?e (h @ d)) (\<lambda>y. Ok (g @ y))"
        using 1 [OF True refl] by blast
      then show ?thesis using True Inr
        by (simp add: sha_loop.simps [of dec data off] Let_def)
    qed (simp add: True sha_loop.simps [of dec data off] Let_def)
  qed (simp add: sha_loop.simps [of dec data off])
qed

lemma sha_loop_step:
  assumes "off < length data" "sha_loop dec data off [] = Ok y"
  obtains d y' where "decode_base64_chunk dec (slice data off (next_base64_chunk_end (length data) off)) = Ok d"
    "sha_loop dec data (next_base64_chunk_end (length data) off) [] = Ok y'" "y = d @ y'"
proof -
  let ?e = "next_base64_chunk_end (length data) off"
  obtain d where d: "decode_base64_chunk dec (slice data off ?e) = Ok d" "sha_loop dec data ?e d = Ok y"
    using assms by (auto simp: sha_loop.simps [of dec data off] and_then_eq_Ok Let_def)
  then obtain y' where "sha_loop dec data ?e [] = Ok y'" "y = d @ y'"
    using sha_loop_acc [of dec data ?e d "[]"] by (cases "sha_loop dec data ?e []") auto
  with d(1) that show ?thesis by blast
qed

definition reader_ok :: "base64_decoded_reader \<Rightarrow> bool" where
  "reader_ok r \<longleftrightarrow> pending_offset r < length (pending r) \<or> (pending r = [] \<and> pending_offset r = 0)"

text \<open>The bytes a reader still has to deliver.\<close>

definition delivers :: "(bytes \<Rightarrow> bytes option) \<Rightarrow> base64_decoded_reader \<Rightarrow> bytes \<Rightarrow> bool" where
  "delivers dec r z \<longleftrightarrow>
     reader_ok r \<and> (\<exists>y. sha_loop dec (data_base64 r) (offset r) [] = Ok y \<and> z = drop (pending_offset r) (pending r) @ y)"

lemma poll_read_delivers:
  assumes "delivers dec r z"
  shows "\<exists>r'. poll_read dec r n f = (Ok (f @ take n z), r') \<and> delivers dec r' (drop n z)"
  using assms
proof (induction dec r n f arbitrary: z rule: poll_read.induct)
  case (1 dec r n f)
  obtain y where y: "sha_loop dec (data_base64 r) (offset r) [] = Ok y" "z = drop (pending_offset r) (pending r) @ y"
    and ok: "reader_ok r" using 1(3) by (auto simp: delivers_def)
  let ?p = "pending r" and ?o = "pending_offset r"
  consider "n = 0" | "n \<noteq> 0" "?o < length ?p" | "n \<noteq> 0" "\<not> ?o < length ?p" by blast
  then show ?case
  proof cases
    case 1
    with \<open>delivers dec r z\<close> show ?thesis by (simp add: poll_read.simps [of dec r])
  next
    case 2
    let ?c = "min (length ?p - ?o) n"
    show ?thesis
    proof (cases "?o + ?c < length ?p")
      case True
      then have c: "?c = n" by auto
      have "poll_read dec r n f = (Ok (f @ slice ?p ?o (?o + n)), r\<lparr>pending_offset := ?o + n\<rparr>)"
        using 2 True c by (simp add: poll_read.simps [of dec r] Let_def)
      moreover have "slice ?p ?o (?o + n) = take n z" using True c y(2) by (simp add: slice_def)
      moreover have "delivers dec (r\<lparr>pending_offset := ?o + n\<rparr>) (drop n z)"
        using True c y by (auto simp: delivers_def reader_ok_def add.commute)
      ultimately show ?thesis by simp
    next
      case False
      then have c: "?c = length ?p - ?o" by auto
      let ?r = "r\<lparr>pending := [], pending_offset := 0\<rparr>" and ?f = "f @ drop ?o ?p"
      have step: "poll_read dec r n f = poll_read dec ?r (n - ?c) ?f"
        using 2 False c by (simp add: poll_read.simps [of dec r] Let_def slice_def)
      have "delivers dec ?r y" using y(1) by (simp add: delivers_def reader_ok_def)
      then obtain r' where "poll_read dec ?r (n - ?c) ?f = (Ok (?f @ take (n - ?c) y), r')" "delivers dec r' (drop (n - ?c) y)"
        using "1.IH"(1) [OF 2 refl refl _ False, of ?f y] c by (auto simp: slice_def)
      moreover have "take n z = drop ?o ?p @ take (n - ?c) y" "drop n z = drop (n - ?c) y"
        using c False by (auto simp: y(2))
      ultimately show ?thesis using step by simp
    qed
  next
    case 3
    then have p: "?p = []" "?o = 0" using ok by (auto simp: reader_ok_def)
    show ?thesis
    proof (cases "offset r \<ge> length (data_base64 r)")
      case True
      then have "y = []" using y(1) by (simp add: sha_loop.simps [of dec "data_base64 r"])
      with 3 True p y \<open>delivers dec r z\<close> show ?thesis by (simp add: poll_read.simps [of dec r])
    next
      case False
      let ?e = "next_base64_chunk_end (length (data_base64 r)) (offset r)"
      obtain d y' where d: "decode_base64_chunk dec (slice (data_base64 r) (offset r) ?e) = Ok d"
        "sha_loop dec (data_base64 r) ?e [] = Ok y'" "y = d @ y'"
        using sha_loop_step [OF _ y(1)] False by (metis not_le)
      let ?r = "r\<lparr>pending := d, offset := ?e\<rparr>"
      have step: "poll_read dec r n f = poll_read dec ?r n f"
        using 3 False d(1) by (simp add: poll_read.simps [of dec r] Let_def)
      have "delivers dec ?r z" using d y p by (auto simp: delivers_def reader_ok_def)
      then show ?thesis unfolding step using "1.IH"(2) [OF 3 False refl d(1)] by blast
    qed
  qed
qed

lemma read_all_delivers:
  assumes "delivers dec r z"
  shows "\<exists>bs r'. read_all dec r ns = (Ok bs, r') \<and> concat bs = take (sum_list ns) z \<and> delivers dec r' (drop (sum_list ns) z)"
  using assms
proof (induction ns arbitrary: r z)
  case (Cons n ns)
  obtain r1 where r1: "poll_read dec r n [] = (Ok (take n z), r1)" "delivers dec r1 (drop n z)"
    using poll_read_delivers [OF Cons.prems, of n "[]"] by auto
  from Cons.IH [OF r1(2)] obtain bs r' where "read_all dec r1 ns = (Ok bs, r')"
    "concat bs = take (sum_list ns) (drop n z)" "delivers dec r' (drop (sum_list ns) (drop n z))" by blast
  with r1(1) show ?case by (simp add: take_add add.commute)
qed simp

context base64_engine
begin

lemma decode_chunk_Some: "dec c = Some x \<Longrightarrow> decode_base64_chunk dec c = Ok x"
  using dec_len [of c x] by (simp add: decode_base64_chunk_def)

lemma chunked_decode:
  assumes "dec (drop off data) = Some x" "off \<le> length data"
  shows "sha_loop dec data off [] = Ok x"
  using assms
proof (induction "length data - off" arbitrary: off x rule: less_induct)
  case less
  show ?case
  proof (cases "off < length data")
    case False
    then have "x = []" using less.prems by simp
    with False show ?thesis by (simp add: sha_loop.simps [of dec data off])
  next
    case True
    let ?e = "next_base64_chunk_end (length data) off"
    let ?c = "slice data off ?e"
    note e = next_end_bounds [OF True]
    have join: "drop off data = ?c @ drop ?e data"
      using e by (simp add: slice_def) (metis add.commute append_take_drop_id drop_drop le_add_diff_inverse2 less_imp_le)
    have "\<exists>a b. dec ?c = Some a \<and> dec (drop ?e data) = Some b \<and> x = a @ b"
    proof (cases "?e = length data")
      case True
      then show ?thesis using less.prems(1) join by simp
    next
      case False
      then have len: "?e = off + BASE64_STREAM_INPUT_CHARS" by (auto simp: next_base64_chunk_end_def split: if_splits)
      then have "length ?c = BASE64_STREAM_INPUT_CHARS" using e by (auto simp: slice_def min_def)
      then have four: "4 dvd length ?c" by (simp add: BASE64_STREAM_INPUT_CHARS_def)
      have ne: "drop ?e data \<noteq> []" using False e by simp
      have "dec (?c @ drop ?e data) = Some x" using less.prems(1) join by simp
      moreover from dec_pad_last [OF this ne four] have "CHR ''='' \<notin> set ?c" .
      ultimately show ?thesis using dec_groups [OF four] by (auto split: option.splits)
    qed
    then obtain a b where ab: "dec ?c = Some a" "dec (drop ?e data) = Some b" "x = a @ b" by blast
    have "sha_loop dec data ?e [] = Ok b" using less.hyps [of ?e b] ab(2) e True by (simp add: diff_less_mono2)
    then have "sha_loop dec data ?e a = Ok (a @ b)" using sha_loop_acc [of dec data ?e a "[]"] by simp
    with True ab decode_chunk_Some show ?thesis by (simp add: sha_loop.simps [of dec data off] Let_def)
  qed
qed

lemma reader_new_delivers: "dec data = Some x \<Longrightarrow> delivers dec (reader_new data) x"
  using chunked_decode [of 0 data x] by (simp add: delivers_def reader_ok_def reader_new_def)

lemma padding_ends:
  assumes "padding a \<le> 2"
  shows "padding a = (if ends_with a ''=='' then 2 else if ends_with a ''='' then 1 else 0)"
proof (cases "rev a" rule: remdups_adj.cases)
  case (3 c d r)
  then show ?thesis using assms by (auto simp: padding_def ends_with_def starts_with_def)
qed (simp_all add: padding_def ends_with_def starts_with_def)

lemma decoded_len_correct:
  assumes "dec data = Some x"
  shows "decoded_base64_len data = Ok (of_nat (length x))"
proof (cases "data = []")
  case False
  have l: "4 dvd length data" "length x + padding data = length data div 4 * 3" "padding data \<le> 2"
    using dec_len [OF assms] by auto
  have "length data div 4 * 3 - padding data = length x" using l(2) by simp
  with False l(1) show ?thesis
    using padding_ends [OF l(3)] by (simp add: decoded_base64_len_def Let_def dvd_eq_mod_eq_0)
qed (use assms in \<open>simp add: decoded_base64_len_def\<close>)

end

section \<open>Properties\<close>

text \<open>
  C22: For a payload that decodes to \<open>x\<close>, reading with buffers of any sizes never fails and
  delivers \<open>x\<close> piece by piece: the pieces concatenate to the prefix of \<open>x\<close> as long as the
  buffers together, hence to \<open>x\<close> itself once there is room for it.
\<close>

theorem base64_reader_exact:
  assumes "base64_engine enc dec" "dec data = Some x"
  shows "\<exists>bs r. read_all dec (reader_new data) ns = (Ok bs, r) \<and> concat bs = take (sum_list ns) x"
  using read_all_delivers [OF base64_engine.reader_new_delivers [OF assms], of ns] by blast

theorem base64_reader_exact_witness:
  "\<exists>bs r. read_all rfc_decode (reader_new ''YWJjZA=='') [3, 1, 7] = (Ok bs, r) \<and> concat bs = ''abcd''"
proof -
  have "rfc_decode ''YWJjZA=='' = Some ''abcd''" by code_simp
  from base64_reader_exact [OF rfc.base64_engine_axioms this, of "[3, 1, 7]"] show ?thesis by simp
qed

text \<open>
  C23: For a payload that decodes to \<open>x\<close>, the three numbers an upload commits to agree with
  the body it streams: the content length is the length of \<open>x\<close>, and the hash computed over
  the chunks is the hash of \<open>x\<close>.
\<close>

theorem base64_upload_consistent:
  assumes "base64_engine enc dec" "dec data = Some x"
  shows "decoded_base64_len data = Ok (of_nat (length x))
    \<and> sha256_hex_base64 dec sha data = Ok (sha256_hex sha x)"
  using base64_engine.decoded_len_correct [OF assms] base64_engine.chunked_decode [OF assms(1), of 0 data x] assms(2)
  by (simp add: sha256_hex_base64_def sha256_hex_def)

theorem base64_upload_consistent_witness:
  "decoded_base64_len ''YWJjZA=='' = Ok 4 \<and> sha256_hex_base64 rfc_decode (take 2) ''YWJjZA=='' = Ok ''6162''"
proof -
  have d: "rfc_decode ''YWJjZA=='' = Some ''abcd''" by code_simp
  have h: "sha256_hex (take 2) ''abcd'' = ''6162''" by code_simp
  from base64_upload_consistent [OF rfc.base64_engine_axioms d] h show ?thesis by simp
qed

subsection \<open>Padding at a chunk boundary\<close>

definition inner_padding :: bytes where
  "inner_padding = replicate (4 * 8191) (CHR ''A'') @ ''AA=='' @ ''AAAA''"

lemma inner_padding_chunks:
  "length inner_padding = 32772"
  "slice inner_padding 0 32768 = replicate (4 * 8191) (CHR ''A'') @ ''AA==''"
  "slice inner_padding 32768 32772 = ''AAAA''"
  by (simp_all add: inner_padding_def slice_def)

lemma rfc_first_chunk:
  "rfc_decode (replicate (4 * k) (CHR ''A'') @ ''AA=='') = Some (replicate (3 * k) (CHR 0x00) @ [CHR 0x00])"
proof (induction k)
  case 0
  have "rfc_decode ''AA=='' = Some [CHR 0x00]" by code_simp
  then show ?case by simp
next
  case (Suc k)
  have "decode_group (CHR ''A'') (CHR ''A'') (CHR ''A'') (CHR ''A'') f = Some [CHR 0x00, CHR 0x00, CHR 0x00]" for f
    by (cases f; code_simp)
  with Suc show ?case by (simp add: numeral_eq_Suc)
qed

lemma sha_loop_two_chunks:
  assumes "length data = 32772"
    and d1: "decode_base64_chunk dec (slice data 0 32768) = Ok x"
    and d2: "decode_base64_chunk dec (slice data 32768 32772) = Ok y"
  shows "sha_loop dec data 0 [] = Ok (x @ y)"
proof -
  have e: "next_base64_chunk_end 32772 0 = 32768" "next_base64_chunk_end 32772 32768 = 32772"
    by (simp_all add: next_base64_chunk_end_def BASE64_STREAM_INPUT_CHARS_def)
  have "sha_loop dec data 32772 (x @ y) = Ok (x @ y)"
    by (subst sha_loop.simps) (simp add: assms)
  then have "sha_loop dec data 32768 x = Ok (x @ y)"
    using d2 e by (subst sha_loop.simps) (simp add: assms(1) Let_def)
  then show ?thesis
    using d1 e by (subst sha_loop.simps) (simp add: assms(1) Let_def)
qed

lemma sha_loop_inner_padding:
  "\<exists>y. sha_loop rfc_decode inner_padding 0 [] = Ok y \<and> length y = 24577"
proof -
  have d1: "decode_base64_chunk rfc_decode (slice inner_padding 0 32768) = Ok (replicate (3 * 8191) (CHR 0x00) @ [CHR 0x00])"
    unfolding inner_padding_chunks decode_base64_chunk_def rfc_first_chunk
    by (simp only: option.case length_append length_replicate) simp
  have "rfc_decode ''AAAA'' = Some [CHR 0x00, CHR 0x00, CHR 0x00]" by code_simp
  then have d2: "decode_base64_chunk rfc_decode (slice inner_padding 32768 32772) = Ok [CHR 0x00, CHR 0x00, CHR 0x00]"
    unfolding inner_padding_chunks decode_base64_chunk_def by simp
  show ?thesis
    by (rule exI, rule conjI, rule sha_loop_two_chunks [OF inner_padding_chunks(1) d1 d2])
      simp
qed


end
