(* ===== verification/Uploads.thy ===== *)
theory Uploads
  imports Base64_Stream Request_Encode Env_Config "HOL-Library.Sublist"
begin

text \<open>
  The image host clients (\<open>Uploader\<close> in rust-sync-proxy/src/upload.rs): the three modes, the two
  legacy hosts, and the signed PUT to R2, each for bytes in memory, for a blob of the runtime
  and for a base64 text that is decoded while it is sent.

  A request is a value, \<open>send\<close> of the HTTP client a parameter over a world \<open>'w\<close> that also
  supplies the clock and the random bytes; the codecs, the URL type, HMAC, SHA-256, the date
  formatting and the JSON decoding of the hosts' answers are parameters too.

  Shown here: the streaming uploads send the same signed request as the upload of the decoded
  bytes, with the right length and a body that delivers those bytes; which hosts an upload
  may contact, in which order; the shape and the uniqueness of object keys; and when the
  signed path is the path that is requested.
\<close>

section \<open>Requests and their effects\<close>

datatype image_host_mode_kind = Legacy | R2 | R2ThenLegacy

record upload_result =
  upload_url :: string
  provider :: string

datatype body_source =
    FromBytes bytes
  | FromBlob bytes
  | FromBase64 base64_decoded_reader

datatype upload_body =
    RawBody body_source
  | MultipartBody string string string "u64 option" body_source

record upload_request =
  req_method :: string
  req_target :: string
  req_headers :: "(string \<times> string) list"
  req_body :: upload_body

record upload_response =
  up_status :: nat
  up_text :: "anyhow + string"

record datetime =
  dt_year :: int
  dt_month :: nat
  dt_day :: nat
  dt_unix_nanos :: int

record uguu_response =
  uguu_success :: bool
  uguu_files :: "string list"

record kefan_response =
  kefan_success :: bool
  kefan_data :: string

record upload_env =
  up_urls :: url_ops
  set_path :: "string \<Rightarrow> url \<Rightarrow> url"
  form_encode :: "string \<Rightarrow> string"
  sha256 :: "bytes \<Rightarrow> bytes"
  hmac :: "bytes \<Rightarrow> bytes \<Rightarrow> anyhow + bytes"
  b64_decode :: "bytes \<Rightarrow> bytes option"
  file_reads :: "bytes \<Rightarrow> (string + bytes) list"
  format_amz_date :: "datetime \<Rightarrow> anyhow + string"
  format_date_stamp :: "datetime \<Rightarrow> anyhow + string"
  mime_str :: "string \<Rightarrow> anyhow + unit"
  status_text :: "nat \<Rightarrow> string"
  uguu_from_str :: "string \<Rightarrow> string + uguu_response"
  kefan_from_str :: "string \<Rightarrow> string + kefan_response"

type_synonym ('a, 'w) io = "'w \<Rightarrow> (anyhow + 'a) \<times> 'w"

record 'w upload_io =
  send :: "upload_request \<Rightarrow> (upload_response, 'w) io"
  now_utc :: "'w \<Rightarrow> datetime \<times> 'w"
  fill_random :: "nat \<Rightarrow> 'w \<Rightarrow> bytes \<times> 'w"

text \<open>Sequencing with the \<open>?\<close> operator, and the alternatives of a \<open>match\<close> on a result.\<close>

definition bind_io :: "('a, 'w) io \<Rightarrow> ('a \<Rightarrow> ('b, 'w) io) \<Rightarrow> ('b, 'w) io" where
  "bind_io m f w = (case m w of (Inl e, w') \<Rightarrow> (Err e, w') | (Inr x, w') \<Rightarrow> f x w')"

definition lift_io :: "anyhow + 'a \<Rightarrow> ('a, 'w) io" where
  "lift_io r w = (r, w)"

definition total_io :: "('w \<Rightarrow> 'a \<times> 'w) \<Rightarrow> ('a, 'w) io" where
  "total_io m w = (case m w of (x, w') \<Rightarrow> (Ok x, w'))"

definition or_io :: "('a, 'w) io \<Rightarrow> ('a, 'w) io \<Rightarrow> ('a, 'w) io" where
  "or_io m n w = (case m w of (Inl e, w') \<Rightarrow> n w' | (Inr x, w') \<Rightarrow> (Ok x, w'))"

definition map_io :: "('a \<Rightarrow> 'b) \<Rightarrow> ('a, 'w) io \<Rightarrow> ('b, 'w) io" where
  "map_io f m = bind_io m (\<lambda>x. lift_io (Ok (f x)))"

lemma io_simps:
  "bind_io m f w = (case m w of (Inl e, w') \<Rightarrow> (Err e, w') | (Inr x, w') \<Rightarrow> f x w')"
  "lift_io r w = (r, w)"
  by (simp_all add: bind_io_def lift_io_def)

lemma bind_lift [simp]:
  "bind_io (lift_io (Ok x)) f = f x" "bind_io (lift_io (Err e)) f = lift_io (Err e)"
  by (simp_all add: fun_eq_iff io_simps)

section \<open>Names\<close>

definition UPLOAD_USER_AGENT :: string where
  "UPLOAD_USER_AGENT = ''ComfyUI-Banana/1.0''"

definition parse_image_host_mode :: "string \<Rightarrow> anyhow + image_host_mode_kind" where
  "parse_image_host_mode raw =
     (let m = to_ascii_lowercase (str_trim raw)
      in if m = [] \<or> m = ''legacy'' then Ok Legacy
         else if m = ''r2'' then Ok R2
         else if m = ''r2_then_legacy'' then Ok R2ThenLegacy
         else Err (Message (''unsupported IMAGE_HOST_MODE '' @ m)))"

definition wrap_external_proxy_url :: "(string \<Rightarrow> string) \<Rightarrow> string \<Rightarrow> string \<Rightarrow> string" where
  "wrap_external_proxy_url enc external_proxy_prefix target_url = str_trim external_proxy_prefix @ enc target_url"

definition extension_from_mime :: "string \<Rightarrow> string" where
  "extension_from_mime mime =
     (if mime = ''image/jpeg'' then ''.jpg''
      else if mime = ''image/webp'' then ''.webp''
      else if mime = ''image/gif'' then ''.gif''
      else ''.png'')"

text \<open>\<open>{:0w}\<close> of an integer, and the division of \<open>i128\<close>, which truncates.\<close>

definition zero_padded :: "nat \<Rightarrow> int \<Rightarrow> string" where
  "zero_padded w i =
     (let d = show_nat (nat \<bar>i\<bar>); sgn = (if i < 0 then ''-'' else [])
      in sgn @ replicate (w - length sgn - length d) (CHR ''0'') @ d)"

definition show_int :: "int \<Rightarrow> string" where
  "show_int i = zero_padded 0 i"

definition unix_ms :: "datetime \<Rightarrow> int" where
  "unix_ms t = sgn (dt_unix_nanos t) * (\<bar>dt_unix_nanos t\<bar> div 1000000)"

definition object_name :: "string \<Rightarrow> datetime \<Rightarrow> string \<Rightarrow> string" where
  "object_name mime t random =
     show_int (unix_ms t) @ ''-'' @ random @ ''.'' @ trim_start_matches (CHR ''.'') (extension_from_mime mime)"

definition build_r2_object_key :: "string \<Rightarrow> string \<Rightarrow> datetime \<Rightarrow> string \<Rightarrow> string" where
  "build_r2_object_key key_prefix mime t random =
     (let p = trim_matches (CHR ''/'') (str_trim key_prefix);
          p' = (if p = [] then ''images'' else p)
      in p' @ ''/'' @ zero_padded 4 (dt_year t) @ ''/'' @ zero_padded 2 (int (dt_month t)) @ ''/''
         @ zero_padded 2 (int (dt_day t)) @ ''/'' @ object_name mime t random)"

fun join_with :: "string \<Rightarrow> string list \<Rightarrow> string" where
  "join_with sep [] = []"
| "join_with sep [x] = x"
| "join_with sep (x # xs) = x @ sep @ join_with sep xs"

definition build_r2_object_url :: "upload_env \<Rightarrow> url \<Rightarrow> string \<Rightarrow> string \<Rightarrow> string \<times> string" where
  "build_r2_object_url env endpoint bucket key =
     (let b = str_trim bucket;
          k = trim_start_matches (CHR ''/'') (str_trim key);
          plain_path = ''/'' @ b @ ''/'' @ k;
          canonical_uri = ''/'' @ form_encode env b @ ''/''
            @ join_with ''/'' (map (form_encode env) (split_on (CHR ''/'') k));
          object_url = set_path env (trim_end_matches (CHR ''/'') (url_path endpoint) @ plain_path) endpoint
      in (url_text (up_urls env) object_url, canonical_uri))"

definition random_hex :: "'w upload_io \<Rightarrow> nat \<Rightarrow> (string, 'w) io" where
  "random_hex io n = map_io hex_text (total_io (fill_random io n))"

section \<open>Signing\<close>

definition unwrap_or_default :: "anyhow + bytes \<Rightarrow> bytes" where
  "unwrap_or_default r = (case r of Inl e \<Rightarrow> [] | Inr b \<Rightarrow> b)"

definition hmac_sha256 :: "upload_env \<Rightarrow> bytes \<Rightarrow> string \<Rightarrow> anyhow + bytes" where
  "hmac_sha256 env key msg = hmac env key msg"

definition derive_aws_v4_signing_key :: "upload_env \<Rightarrow> string \<Rightarrow> string \<Rightarrow> string \<Rightarrow> string \<Rightarrow> bytes" where
  "derive_aws_v4_signing_key env secret date_stamp region service =
     (let k_date = unwrap_or_default (hmac_sha256 env (''AWS4'' @ secret) date_stamp);
          k_region = unwrap_or_default (hmac_sha256 env k_date region);
          k_service = unwrap_or_default (hmac_sha256 env k_region service)
      in unwrap_or_default (hmac_sha256 env k_service ''aws4_request''))"

abbreviation newline :: string where
  "newline \<equiv> [CHR 0x0A]"

definition signed_headers_text :: string where
  "signed_headers_text = ''content-type;host;x-amz-content-sha256;x-amz-date''"

definition canonical_request_text :: "string \<Rightarrow> string \<Rightarrow> string \<Rightarrow> string \<Rightarrow> string \<Rightarrow> string" where
  "canonical_request_text canonical_uri mime host payload_hash amz_date =
     (let canonical_headers = ''content-type:'' @ mime @ newline @ ''host:'' @ host @ newline
            @ ''x-amz-content-sha256:'' @ payload_hash @ newline @ ''x-amz-date:'' @ amz_date @ newline
      in ''PUT'' @ newline @ canonical_uri @ newline @ newline @ canonical_headers @ newline
         @ signed_headers_text @ newline @ payload_hash)"

text \<open>What the three R2 uploads compute before they look at the payload.\<close>

record r2_ticket =
  tk_key :: string
  tk_object_url :: string
  tk_canonical_uri :: string
  tk_host :: string
  tk_amz_date :: string
  tk_date_stamp :: string

definition anyhow_of :: "string + 'a \<Rightarrow> anyhow + 'a" where
  "anyhow_of r = (case r of Inl e \<Rightarrow> Err (Message e) | Inr x \<Rightarrow> Ok x)"

definition r2_prepare :: "upload_env \<Rightarrow> 'w upload_io \<Rightarrow> config \<Rightarrow> string \<Rightarrow> (r2_ticket, 'w) io" where
  "r2_prepare env io c mime =
     bind_io (lift_io (anyhow_of (url_parse (up_urls env) (r2_endpoint c)))) (\<lambda>endpoint.
     bind_io (total_io (now_utc io)) (\<lambda>t.
     bind_io (random_hex io 4) (\<lambda>random.
       let key = build_r2_object_key (r2_object_prefix c) mime t random;
           (object_url, canonical_uri) = build_r2_object_url env endpoint (r2_bucket c) key
       in
     bind_io (total_io (now_utc io)) (\<lambda>now.
     bind_io (lift_io (format_amz_date env now)) (\<lambda>amz_date.
     bind_io (lift_io (format_date_stamp env now)) (\<lambda>date_stamp.
     lift_io (Ok \<lparr>tk_key = key, tk_object_url = object_url, tk_canonical_uri = canonical_uri,
       tk_host = unwrap_or [] (host_str endpoint), tk_amz_date = amz_date, tk_date_stamp = date_stamp\<rparr>)))))))"

definition r2_authorization :: "upload_env \<Rightarrow> config \<Rightarrow> string \<Rightarrow> r2_ticket \<Rightarrow> string \<Rightarrow> anyhow + string" where
  "r2_authorization env c mime tk payload_hash =
     (let canonical_request = canonical_request_text (tk_canonical_uri tk) mime (tk_host tk) payload_hash (tk_amz_date tk);
          credential_scope = tk_date_stamp tk @ ''/auto/s3/aws4_request'';
          string_to_sign = ''AWS4-HMAC-SHA256'' @ newline @ tk_amz_date tk @ newline @ credential_scope @ newline
            @ sha256_hex (sha256 env) canonical_request;
          signing_key = derive_aws_v4_signing_key env (r2_secret_access_key c) (tk_date_stamp tk) ''auto'' ''s3''
      in and_then (hmac_sha256 env signing_key string_to_sign) (\<lambda>mac.
         Ok (''AWS4-HMAC-SHA256 Credential='' @ r2_access_key_id c @ ''/'' @ credential_scope
             @ '', SignedHeaders='' @ signed_headers_text @ '', Signature='' @ hex_text mac)))"

definition r2_outcome :: "upload_env \<Rightarrow> config \<Rightarrow> string \<Rightarrow> upload_response \<Rightarrow> anyhow + upload_result" where
  "r2_outcome env c key response =
     (if \<not> is_success (up_status response) then
        Err (Message (''r2 put object failed: status '' @ status_text env (up_status response) @ '': ''
          @ str_trim (unwrap_or_default (up_text response))))
      else Ok \<lparr>upload_url = trim_end_matches (CHR ''/'') (r2_public_base_url c) @ ''/'' @ key, provider = ''r2''\<rparr>)"

section \<open>The R2 uploads\<close>

definition put_headers :: "string \<Rightarrow> string \<Rightarrow> string \<Rightarrow> string \<Rightarrow> (string \<times> string) list" where
  "put_headers mime payload_hash amz_date authorization =
     [(''content-type'', mime), (''X-Amz-Content-Sha256'', payload_hash), (''X-Amz-Date'', amz_date),
      (''authorization'', authorization)]"

definition upload_r2 :: "upload_env \<Rightarrow> 'w upload_io \<Rightarrow> config \<Rightarrow> bytes \<Rightarrow> string \<Rightarrow> (upload_result, 'w) io" where
  "upload_r2 env io c d mime =
     bind_io (r2_prepare env io c mime) (\<lambda>tk.
       let payload_hash = sha256_hex (sha256 env) d in
     bind_io (lift_io (r2_authorization env c mime tk payload_hash)) (\<lambda>authorization.
     bind_io (send io \<lparr>req_method = ''PUT'', req_target = tk_object_url tk,
         req_headers = put_headers mime payload_hash (tk_amz_date tk) authorization,
         req_body = RawBody (FromBytes d)\<rparr>) (\<lambda>response.
     lift_io (r2_outcome env c (tk_key tk) response))))"

definition put_object_stream :: "'w upload_io \<Rightarrow> string \<Rightarrow> string \<Rightarrow> string \<Rightarrow> string \<Rightarrow> string \<Rightarrow> u64 \<Rightarrow> body_source
    \<Rightarrow> (upload_response, 'w) io" where
  "put_object_stream io object_url authorization amz_date payload_hash mime len reader =
     send io \<lparr>req_method = ''PUT'', req_target = object_url,
       req_headers = [(''content-type'', mime), (''content-length'', show_nat (unat len)),
         (''X-Amz-Content-Sha256'', payload_hash), (''X-Amz-Date'', amz_date), (''authorization'', authorization)],
       req_body = RawBody reader\<rparr>"

fun hash_reads :: "(string + bytes) list \<Rightarrow> bytes \<Rightarrow> anyhow + bytes" where
  "hash_reads [] hashed = Ok hashed"
| "hash_reads (Inl e # rs) hashed = Err (Message e)"
| "hash_reads (Inr ch # rs) hashed = (if ch = [] then Ok hashed else hash_reads rs (hashed @ ch))"

definition sha256_hex_blob :: "upload_env \<Rightarrow> runtime \<Rightarrow> blob_handle \<Rightarrow> anyhow + string" where
  "sha256_hex_blob env s h =
     (case storage (heap s ! h) of
        Inline b \<Rightarrow> Ok (sha256_hex (sha256 env) b)
      | Shared b \<Rightarrow> Ok (sha256_hex (sha256 env) b)
      | Spilled p \<Rightarrow>
          and_then (open_reader h s) (\<lambda>b.
          and_then (hash_reads (file_reads env b) []) (\<lambda>d. Ok (hex_text (sha256 env d)))))"

definition upload_r2_blob :: "upload_env \<Rightarrow> 'w upload_io \<Rightarrow> config \<Rightarrow> runtime \<Rightarrow> blob_handle \<Rightarrow> string
    \<Rightarrow> (upload_result, 'w) io" where
  "upload_r2_blob env io c s h mime =
     bind_io (r2_prepare env io c mime) (\<lambda>tk.
     bind_io (lift_io (sha256_hex_blob env s h)) (\<lambda>payload_hash.
     bind_io (lift_io (r2_authorization env c mime tk payload_hash)) (\<lambda>authorization.
     bind_io (lift_io (open_reader h s)) (\<lambda>reader.
     bind_io (put_object_stream io (tk_object_url tk) authorization (tk_amz_date tk) payload_hash mime
         (size_bytes (meta (heap s ! h))) (FromBlob reader)) (\<lambda>response.
     lift_io (r2_outcome env c (tk_key tk) response))))))"

definition upload_r2_base64 :: "upload_env \<Rightarrow> 'w upload_io \<Rightarrow> config \<Rightarrow> bytes \<Rightarrow> string \<Rightarrow> (upload_result, 'w) io" where
  "upload_r2_base64 env io c data mime =
     bind_io (r2_prepare env io c mime) (\<lambda>tk.
     bind_io (lift_io (sha256_hex_base64 (b64_decode env) (sha256 env) data)) (\<lambda>payload_hash.
     bind_io (lift_io (decoded_base64_len data)) (\<lambda>len.
     bind_io (lift_io (r2_authorization env c mime tk payload_hash)) (\<lambda>authorization.
     bind_io (put_object_stream io (tk_object_url tk) authorization (tk_amz_date tk) payload_hash mime
         len (FromBase64 (reader_new data))) (\<lambda>response.
     lift_io (r2_outcome env c (tk_key tk) response))))))"

section \<open>The legacy hosts\<close>

definition image_file_name :: "string \<Rightarrow> string" where
  "image_file_name mime = ''image'' @ extension_from_mime mime"

definition uguu_outcome :: "upload_env \<Rightarrow> upload_response \<Rightarrow> anyhow + string" where
  "uguu_outcome env response =
     and_then (up_text response) (\<lambda>body.
       if \<not> is_success (up_status response) then
         Err (Message (''uguu status '' @ status_text env (up_status response) @ '': '' @ str_trim body))
       else
         (case uguu_from_str env body of
            Inl err \<Rightarrow> Err (Message (''uguu invalid json: '' @ err @ '': '' @ str_trim body))
          | Inr parsed \<Rightarrow>
              (case uguu_files parsed of
                 [] \<Rightarrow> Err (Message (''uguu upload failed: '' @ str_trim body))
               | u # _ \<Rightarrow>
                   if \<not> uguu_success parsed \<or> str_trim u = []
                   then Err (Message (''uguu upload failed: '' @ str_trim body))
                   else Ok u)))"

definition kefan_outcome :: "upload_env \<Rightarrow> upload_response \<Rightarrow> anyhow + string" where
  "kefan_outcome env response =
     and_then (up_text response) (\<lambda>body.
       case kefan_from_str env body of
         Inl err \<Rightarrow> Err (Message (''kefan invalid json: '' @ err @ '': '' @ str_trim body))
       | Inr parsed \<Rightarrow>
           if \<not> kefan_success parsed \<or> str_trim (kefan_data parsed) = []
           then Err (Message (''kefan upload failed: '' @ str_trim body))
           else Ok (kefan_data parsed))"

definition upload_to_uguu :: "upload_env \<Rightarrow> 'w upload_io \<Rightarrow> string \<Rightarrow> bytes \<Rightarrow> string \<Rightarrow> (string, 'w) io" where
  "upload_to_uguu env io target d mime =
     bind_io (lift_io (mime_str env mime)) (\<lambda>_.
     bind_io (send io \<lparr>req_method = ''POST'', req_target = target,
         req_headers = [(''user-agent'', UPLOAD_USER_AGENT), (''accept'', ''application/json'')],
         req_body = MultipartBody ''files[]'' (image_file_name mime) mime None (FromBytes d)\<rparr>) (\<lambda>response.
     lift_io (uguu_outcome env response)))"

definition upload_to_kefan :: "upload_env \<Rightarrow> 'w upload_io \<Rightarrow> string \<Rightarrow> bytes \<Rightarrow> string \<Rightarrow> (string, 'w) io" where
  "upload_to_kefan env io target d mime =
     bind_io (lift_io (mime_str env mime)) (\<lambda>_.
     bind_io (send io \<lparr>req_method = ''POST'', req_target = target,
         req_headers = [(''user-agent'', UPLOAD_USER_AGENT)],
         req_body = MultipartBody ''file'' (image_file_name mime) mime None (FromBytes d)\<rparr>) (\<lambda>response.
     lift_io (kefan_outcome env response)))"

definition send_streaming_multipart_reader :: "upload_env \<Rightarrow> 'w upload_io \<Rightarrow> body_source \<Rightarrow> u64 \<Rightarrow> string \<Rightarrow> string
    \<Rightarrow> string \<Rightarrow> bool \<Rightarrow> (upload_response, 'w) io" where
  "send_streaming_multipart_reader env io reader len target field_name mime accept_json =
     bind_io (lift_io (mime_str env mime)) (\<lambda>_.
     send io \<lparr>req_method = ''POST'', req_target = target,
       req_headers = [(''user-agent'', UPLOAD_USER_AGENT)]
         @ (if accept_json then [(''accept'', ''application/json'')] else []),
       req_body = MultipartBody field_name (image_file_name mime) mime (Some len) reader\<rparr>)"

definition send_streaming_multipart :: "upload_env \<Rightarrow> 'w upload_io \<Rightarrow> runtime \<Rightarrow> blob_handle \<Rightarrow> string \<Rightarrow> string
    \<Rightarrow> string \<Rightarrow> bool \<Rightarrow> (upload_response, 'w) io" where
  "send_streaming_multipart env io s h target field_name mime accept_json =
     bind_io (lift_io (open_reader h s)) (\<lambda>reader.
     send_streaming_multipart_reader env io (FromBlob reader) (size_bytes (meta (heap s ! h)))
       target field_name mime accept_json)"

definition upload_blob_to_uguu :: "upload_env \<Rightarrow> 'w upload_io \<Rightarrow> config \<Rightarrow> runtime \<Rightarrow> blob_handle \<Rightarrow> string \<Rightarrow> (string, 'w) io" where
  "upload_blob_to_uguu env io c s h mime =
     bind_io (send_streaming_multipart env io s h (legacy_uguu_upload_url c) ''files[]'' mime True) (\<lambda>response.
     lift_io (uguu_outcome env response))"

definition upload_blob_to_kefan :: "upload_env \<Rightarrow> 'w upload_io \<Rightarrow> config \<Rightarrow> runtime \<Rightarrow> blob_handle \<Rightarrow> string \<Rightarrow> (string, 'w) io" where
  "upload_blob_to_kefan env io c s h mime =
     bind_io (send_streaming_multipart env io s h (legacy_kefan_upload_url c) ''file'' mime False) (\<lambda>response.
     lift_io (kefan_outcome env response))"

definition upload_base64_to_uguu :: "upload_env \<Rightarrow> 'w upload_io \<Rightarrow> config \<Rightarrow> bytes \<Rightarrow> string \<Rightarrow> (string, 'w) io" where
  "upload_base64_to_uguu env io c data mime =
     bind_io (lift_io (decoded_base64_len data)) (\<lambda>len.
     bind_io (send_streaming_multipart_reader env io (FromBase64 (reader_new data)) len
         (legacy_uguu_upload_url c) ''files[]'' mime True) (\<lambda>response.
     lift_io (uguu_outcome env response)))"

definition upload_base64_to_kefan :: "upload_env \<Rightarrow> 'w upload_io \<Rightarrow> config \<Rightarrow> bytes \<Rightarrow> string \<Rightarrow> (string, 'w) io" where
  "upload_base64_to_kefan env io c data mime =
     bind_io (lift_io (decoded_base64_len data)) (\<lambda>len.
     bind_io (send_streaming_multipart_reader env io (FromBase64 (reader_new data)) len
         (legacy_kefan_upload_url c) ''file'' mime False) (\<lambda>response.
     lift_io (kefan_outcome env response)))"

definition legacy_result :: "string \<Rightarrow> upload_result" where
  "legacy_result u = \<lparr>upload_url = u, provider = ''legacy''\<rparr>"

definition upload_legacy :: "upload_env \<Rightarrow> 'w upload_io \<Rightarrow> config \<Rightarrow> bytes \<Rightarrow> string \<Rightarrow> (upload_result, 'w) io" where
  "upload_legacy env io c d mime =
     or_io (map_io legacy_result (upload_to_uguu env io (legacy_uguu_upload_url c) d mime))
       (map_io legacy_result (upload_to_kefan env io (legacy_kefan_upload_url c) d mime))"

definition upload_legacy_base64 :: "upload_env \<Rightarrow> 'w upload_io \<Rightarrow> config \<Rightarrow> bytes \<Rightarrow> string \<Rightarrow> (upload_result, 'w) io" where
  "upload_legacy_base64 env io c data mime =
     or_io (map_io legacy_result (upload_base64_to_uguu env io c data mime))
       (map_io legacy_result (upload_base64_to_kefan env io c data mime))"

definition upload_legacy_blob :: "upload_env \<Rightarrow> 'w upload_io \<Rightarrow> config \<Rightarrow> runtime \<Rightarrow> blob_handle \<Rightarrow> string
    \<Rightarrow> (upload_result, 'w) io" where
  "upload_legacy_blob env io c s h mime =
     or_io (map_io legacy_result (upload_blob_to_uguu env io c s h mime))
       (map_io legacy_result (upload_blob_to_kefan env io c s h mime))"

section \<open>The modes\<close>

definition upload_image_with_mode :: "image_host_mode_kind \<Rightarrow> bytes \<Rightarrow> string
    \<Rightarrow> (bytes \<Rightarrow> string \<Rightarrow> (upload_result, 'w) io) \<Rightarrow> (bytes \<Rightarrow> string \<Rightarrow> (upload_result, 'w) io)
    \<Rightarrow> (upload_result, 'w) io" where
  "upload_image_with_mode mode d mime r2_uploader legacy_uploader =
     (case mode of
        Legacy \<Rightarrow> legacy_uploader d mime
      | R2 \<Rightarrow> r2_uploader d mime
      | R2ThenLegacy \<Rightarrow> or_io (r2_uploader d mime) (legacy_uploader d mime))"

definition upload_image :: "upload_env \<Rightarrow> 'w upload_io \<Rightarrow> config \<Rightarrow> bytes \<Rightarrow> string \<Rightarrow> (upload_result, 'w) io" where
  "upload_image env io c d mime =
     bind_io (lift_io (parse_image_host_mode (image_host_mode c))) (\<lambda>mode.
       case mode of
         Legacy \<Rightarrow> upload_legacy env io c d mime
       | R2 \<Rightarrow> upload_r2 env io c d mime
       | R2ThenLegacy \<Rightarrow> or_io (upload_r2 env io c d mime) (upload_legacy env io c d mime))"

definition upload_blob :: "upload_env \<Rightarrow> 'w upload_io \<Rightarrow> config \<Rightarrow> runtime \<Rightarrow> blob_handle \<Rightarrow> string \<Rightarrow> (upload_result, 'w) io" where
  "upload_blob env io c s h mime =
     bind_io (lift_io (parse_image_host_mode (image_host_mode c))) (\<lambda>mode.
       case mode of
         Legacy \<Rightarrow> upload_legacy_blob env io c s h mime
       | R2 \<Rightarrow> upload_r2_blob env io c s h mime
       | R2ThenLegacy \<Rightarrow> or_io (upload_r2_blob env io c s h mime) (upload_legacy_blob env io c s h mime))"

definition upload_inline_data_base64 :: "upload_env \<Rightarrow> 'w upload_io \<Rightarrow> config \<Rightarrow> bytes \<Rightarrow> string \<Rightarrow> (upload_result, 'w) io" where
  "upload_inline_data_base64 env io c data mime =
     bind_io (lift_io (parse_image_host_mode (image_host_mode c))) (\<lambda>mode.
       case mode of
         Legacy \<Rightarrow> upload_legacy_base64 env io c data mime
       | R2 \<Rightarrow> upload_r2_base64 env io c data mime
       | R2ThenLegacy \<Rightarrow> or_io (upload_r2_base64 env io c data mime) (upload_legacy_base64 env io c data mime))"

section \<open>Streaming uploads are uploads of the bytes\<close>

text \<open>
  The request that a streaming upload sends in place of the buffered one: the body is the
  reader, and its length is announced.
\<close>

fun streamed_body :: "u64 \<Rightarrow> body_source \<Rightarrow> upload_body \<Rightarrow> upload_body" where
  "streamed_body len src (RawBody _) = RawBody src"
| "streamed_body len src (MultipartBody field name mime _ _) = MultipartBody field name mime (Some len) src"

definition streamed :: "u64 \<Rightarrow> body_source \<Rightarrow> upload_request \<Rightarrow> upload_request" where
  "streamed len src rq =
     rq\<lparr>req_headers :=
          (case req_body rq of
             RawBody _ \<Rightarrow> hd (req_headers rq) # (''content-length'', show_nat (unat len)) # tl (req_headers rq)
           | MultipartBody _ _ _ _ _ \<Rightarrow> req_headers rq),
        req_body := streamed_body len src (req_body rq)\<rparr>"

definition streaming_io :: "u64 \<Rightarrow> body_source \<Rightarrow> 'w upload_io \<Rightarrow> 'w upload_io" where
  "streaming_io len src io = io\<lparr>send := \<lambda>rq. send io (streamed len src rq)\<rparr>"

lemma streaming_io_simps [simp]:
  "send (streaming_io len src io) rq = send io (streamed len src rq)"
  "now_utc (streaming_io len src io) = now_utc io"
  "fill_random (streaming_io len src io) = fill_random io"
  by (simp_all add: streaming_io_def)

lemma r2_prepare_streaming [simp]: "r2_prepare env (streaming_io len src io) c mime = r2_prepare env io c mime"
  by (simp add: r2_prepare_def random_hex_def)

lemma streamed_put:
  "put_object_stream io object_url authorization amz_date payload_hash mime len src =
     send io (streamed len src \<lparr>req_method = ''PUT'', req_target = object_url,
       req_headers = put_headers mime payload_hash amz_date authorization, req_body = RawBody d\<rparr>)"
  by (simp add: put_object_stream_def streamed_def put_headers_def)

lemma streamed_post:
  "send_streaming_multipart_reader env io src len target field mime accept_json =
     bind_io (lift_io (mime_str env mime)) (\<lambda>_.
       send io (streamed len src \<lparr>req_method = ''POST'', req_target = target,
         req_headers = [(''user-agent'', UPLOAD_USER_AGENT)] @ (if accept_json then [(''accept'', ''application/json'')] else []),
         req_body = MultipartBody field (image_file_name mime) mime None d\<rparr>))"
  by (simp add: send_streaming_multipart_reader_def streamed_def)

lemma bind_io_assoc: "bind_io (bind_io m f) g = bind_io m (\<lambda>x. bind_io (f x) g)"
  by (auto simp: fun_eq_iff bind_io_def split: prod.splits sum.splits)

lemma upload_to_uguu_streaming:
  "bind_io (send_streaming_multipart_reader env io src len target ''files[]'' mime True) (\<lambda>r. lift_io (uguu_outcome env r)) =
     upload_to_uguu env (streaming_io len src io) target d mime"
  by (simp add: upload_to_uguu_def streamed_post [where d = "FromBytes d"] bind_io_assoc)

lemma upload_to_kefan_streaming:
  "bind_io (send_streaming_multipart_reader env io src len target ''file'' mime False) (\<lambda>r. lift_io (kefan_outcome env r)) =
     upload_to_kefan env (streaming_io len src io) target d mime"
  by (simp add: upload_to_kefan_def streamed_post [where d = "FromBytes d"] bind_io_assoc)

lemmas upload_streaming = upload_to_uguu_streaming upload_to_kefan_streaming

lemma inline_data_base64_as_bytes:
  assumes "decoded_base64_len data = Ok len" "sha256_hex_base64 (b64_decode env) (sha256 env) data = Ok (sha256_hex (sha256 env) x)"
  shows "upload_inline_data_base64 env io c data mime =
    upload_image env (streaming_io len (FromBase64 (reader_new data)) io) c x mime"
proof -
  let ?io = "streaming_io len (FromBase64 (reader_new data)) io"
  have "upload_legacy_base64 env io c data mime = upload_legacy env ?io c x mime"
    by (simp add: upload_legacy_base64_def upload_legacy_def upload_base64_to_uguu_def upload_base64_to_kefan_def
        assms(1) upload_streaming [where d = x])
  moreover have "upload_r2_base64 env io c data mime = upload_r2 env ?io c x mime"
    by (simp add: upload_r2_base64_def upload_r2_def assms streamed_put [where d = "FromBytes x"] Let_def)
  ultimately show ?thesis
    by (simp add: upload_inline_data_base64_def upload_image_def cong: image_host_mode_kind.case_cong)
qed

lemma hash_reads_map: "\<forall>ch \<in> set cs. ch \<noteq> [] \<Longrightarrow> hash_reads (map Inr cs) acc = Ok (acc @ concat cs)"
  by (induction cs arbitrary: acc) auto

lemma hash_reads_fair: "fair_reads n f \<Longrightarrow> hash_reads (f b) [] = Ok b"
proof -
  assume "fair_reads n f"
  then obtain cs where "f b = map Inr cs" "concat cs = b" "\<forall>ch \<in> set cs. ch \<noteq> []"
    unfolding fair_reads_def by metis
  then show ?thesis by (simp add: hash_reads_map)
qed

lemma sha256_hex_blob_reader:
  assumes "open_reader h s = Ok b" "fair_reads n (file_reads env)"
  shows "sha256_hex_blob env s h = Ok (sha256_hex (sha256 env) b)"
proof (cases "storage (heap s ! h)")
  case (Spilled p)
  with assms show ?thesis by (simp add: sha256_hex_blob_def hash_reads_fair sha256_hex_def)
qed (use assms(1) in \<open>simp_all add: sha256_hex_blob_def open_reader_def read_storage_def\<close>)

lemma blob_as_bytes:
  assumes "open_reader h s = Ok b" "fair_reads n (file_reads env)"
  shows "upload_blob env io c s h mime =
    upload_image env (streaming_io (size_bytes (meta (heap s ! h))) (FromBlob b) io) c b mime"
proof -
  let ?io = "streaming_io (size_bytes (meta (heap s ! h))) (FromBlob b) io"
  have "upload_legacy_blob env io c s h mime = upload_legacy env ?io c b mime"
    by (simp add: upload_legacy_blob_def upload_legacy_def upload_blob_to_uguu_def upload_blob_to_kefan_def
        send_streaming_multipart_def assms(1) upload_streaming [where d = b])
  moreover have "upload_r2_blob env io c s h mime = upload_r2 env ?io c b mime"
    by (simp add: upload_r2_blob_def upload_r2_def assms(1) sha256_hex_blob_reader [OF assms]
        streamed_put [where d = "FromBytes b"] Let_def)
  ultimately show ?thesis
    by (simp add: upload_blob_def upload_image_def cong: image_host_mode_kind.case_cong)
qed

section \<open>Which hosts an upload contacts\<close>

text \<open>A client that also records the requests it is given.\<close>

definition logging_io :: "'w upload_io \<Rightarrow> ('w \<times> upload_request list) upload_io" where
  "logging_io io =
     \<lparr>send = \<lambda>rq (w, log). case send io rq w of (r, w') \<Rightarrow> (r, (w', log @ [rq])),
      now_utc = \<lambda>(w, log). case now_utc io w of (t, w') \<Rightarrow> (t, (w', log)),
      fill_random = \<lambda>n (w, log). case fill_random io n w of (b, w') \<Rightarrow> (b, (w', log))\<rparr>"

definition does :: "(anyhow + 'a \<Rightarrow> upload_request list \<Rightarrow> bool) \<Rightarrow> ('a, 'w \<times> upload_request list) io \<Rightarrow> bool" where
  "does P m \<longleftrightarrow>
     (\<forall>w log r w' log'. m (w, log) = (r, (w', log')) \<longrightarrow> (\<exists>new. log' = log @ new \<and> P r new))"

lemma doesD:
  assumes "does P m" "m (w, log) = (r, (w', log'))"
  obtains new where "log' = log @ new" "P r new"
  using assms unfolding does_def by blast

lemma does_mono: "does P m \<Longrightarrow> (\<And>r new. P r new \<Longrightarrow> Q r new) \<Longrightarrow> does Q m"
  unfolding does_def by blast

lemma does_lift: "P r [] \<Longrightarrow> does P (lift_io r)"
  by (simp add: does_def lift_io_def)

lemma does_bind:
  assumes "does P m" "\<And>x. does (Q x) (f x)"
    and "\<And>e new. P (Err e) new \<Longrightarrow> R (Err e) new"
    and "\<And>x r new new'. P (Ok x) new \<Longrightarrow> Q x r new' \<Longrightarrow> R r (new @ new')"
  shows "does R (bind_io m f)"
  unfolding does_def
proof (intro allI impI)
  fix w log r w' log'
  assume run: "bind_io m f (w, log) = (r, (w', log'))"
  obtain r1 w1 log1 where m: "m (w, log) = (r1, (w1, log1))" by (metis prod.collapse)
  obtain new where new: "log1 = log @ new" "P r1 new" by (rule doesD [OF assms(1) m])
  show "\<exists>new. log' = log @ new \<and> R r new"
  proof (cases r1)
    case (Inl e)
    with run m new assms(3) show ?thesis by (auto simp: bind_io_def)
  next
    case (Inr x)
    with run m have "f x (w1, log1) = (r, (w', log'))" by (simp add: bind_io_def)
    then obtain new' where "log' = log1 @ new'" "Q x r new'" by (rule doesD [OF assms(2)])
    with new Inr assms(4) show ?thesis by auto
  qed
qed

lemma does_or:
  assumes "does P m" "does Q n"
    and "\<And>x new. P (Ok x) new \<Longrightarrow> R (Ok x) new"
    and "\<And>e r new new'. P (Err e) new \<Longrightarrow> Q r new' \<Longrightarrow> R r (new @ new')"
  shows "does R (or_io m n)"
  unfolding does_def
proof (intro allI impI)
  fix w log r w' log'
  assume run: "or_io m n (w, log) = (r, (w', log'))"
  obtain r1 w1 log1 where m: "m (w, log) = (r1, (w1, log1))" by (metis prod.collapse)
  obtain new where new: "log1 = log @ new" "P r1 new" by (rule doesD [OF assms(1) m])
  show "\<exists>new. log' = log @ new \<and> R r new"
  proof (cases r1)
    case (Inr x)
    with run m new assms(3) show ?thesis by (auto simp: or_io_def)
  next
    case (Inl e)
    with run m have "n (w1, log1) = (r, (w', log'))" by (simp add: or_io_def)
    then obtain new' where "log' = log1 @ new'" "Q r new'" by (rule doesD [OF assms(2)])
    with new Inl assms(4) show ?thesis by auto
  qed
qed

lemma does_send: "(\<And>r. P r [rq]) \<Longrightarrow> does P (send (logging_io io) rq)"
  by (auto simp: does_def logging_io_def split: prod.splits)

definition silent :: "anyhow + 'a \<Rightarrow> upload_request list \<Rightarrow> bool" where
  "silent r new \<longleftrightarrow> new = []"

lemma silent_lift: "does silent (lift_io r)"
  by (rule does_lift) (simp add: silent_def)

lemma silent_bind: "does silent m \<Longrightarrow> (\<And>x. does silent (f x)) \<Longrightarrow> does silent (bind_io m f)"
  by (rule does_bind [where P = silent and Q = "\<lambda>_. silent"]) (auto simp: silent_def)

lemma silent_total:
  "does silent (total_io (now_utc (logging_io io)))" "does silent (total_io (fill_random (logging_io io) n))"
  by (auto simp: does_def total_io_def logging_io_def silent_def split: prod.splits)

lemma silent_prepare: "does silent (r2_prepare env (logging_io io) c mime)"
  unfolding r2_prepare_def random_hex_def map_io_def Let_def split_def
  by (intro silent_bind silent_lift silent_total)

lemma does_silent_bind:
  assumes "does silent m" "\<And>x. does R (f x)" "\<And>e. R (Err e) []"
  shows "does R (bind_io m f)"
  by (rule does_bind [OF assms(1,2)]) (use assms(3) in \<open>auto simp: silent_def\<close>)

text \<open>The host a request goes to: the R2 object store, or the given legacy host.\<close>

definition route :: "upload_request \<Rightarrow> string \<times> string" where
  "route rq = (req_method rq, if req_method rq = ''PUT'' then [] else req_target rq)"

definition r2_host :: "string \<times> string" where
  "r2_host = (''PUT'', [])"

definition uses_hosts :: "(string \<times> string) list \<Rightarrow> ('a \<Rightarrow> bool) \<Rightarrow> anyhow + 'a \<Rightarrow> upload_request list \<Rightarrow> bool" where
  "uses_hosts hosts ok r new \<longleftrightarrow>
     subseq (map route new) hosts \<and> (\<forall>u. r = Ok u \<longrightarrow> new \<noteq> [] \<and> ok u)"

lemma does_send_lift:
  assumes "\<And>e. R (Err e) [rq]" "\<And>x. R (g x) [rq]"
  shows "does R (bind_io (send (logging_io io) rq) (\<lambda>x. lift_io (g x)))"
  by (rule does_bind [OF does_send [where P = "\<lambda>r new. new = [rq]"] does_lift [where P = "\<lambda>r new. new = [] \<and> r = g x" and r = "g x" for x]])
    (use assms in auto)

lemma r2_outcome_provider: "r2_outcome env c key response = Ok u \<Longrightarrow> provider u = ''r2''"
  by (auto simp: r2_outcome_def split: if_splits)

lemma uses_hosts_r2_base64:
  "does (uses_hosts [r2_host] (\<lambda>u. provider u = ''r2'')) (upload_r2_base64 env (logging_io io) c data mime)"
  unfolding upload_r2_base64_def put_object_stream_def
  by (intro does_silent_bind [OF silent_prepare] does_silent_bind [OF silent_lift] does_send_lift)
    (auto simp: uses_hosts_def route_def r2_host_def dest: r2_outcome_provider)

lemma uses_hosts_post:
  "does (uses_hosts [(''POST'', target)] (\<lambda>_. True)) (send_streaming_multipart_reader env (logging_io io) src len target field mime a)"
  unfolding send_streaming_multipart_reader_def
  by (intro does_silent_bind [OF silent_lift] does_send) (auto simp: uses_hosts_def route_def)

lemma uses_hosts_outcome:
  assumes "does (uses_hosts hosts (\<lambda>_. True)) m"
  shows "does (uses_hosts hosts (\<lambda>_. True)) (bind_io m (\<lambda>x. lift_io (g x)))"
  by (rule does_bind [OF assms does_lift [where P = "\<lambda>r new. new = []"]]) (auto simp: uses_hosts_def)

lemma uses_hosts_legacy_result:
  assumes "does (uses_hosts hosts (\<lambda>_. True)) m"
  shows "does (uses_hosts hosts (\<lambda>u. provider u = ''legacy'')) (map_io legacy_result m)"
  unfolding map_io_def
  by (rule does_bind [OF assms does_lift [where P = "\<lambda>r new. new = [] \<and> (\<forall>u. r = Ok u \<longrightarrow> provider u = ''legacy'')"]])
    (auto simp: uses_hosts_def legacy_result_def)

lemma uses_hosts_or:
  assumes "does (uses_hosts hs ok) m" "does (uses_hosts hs' ok) n"
  shows "does (uses_hosts (hs @ hs') ok) (or_io m n)"
  by (rule does_or [OF assms]) (auto simp: uses_hosts_def intro: list_emb_append_mono subseq_rev_drop_many)

lemma uses_hosts_legacy_base64:
  "does (uses_hosts [(''POST'', legacy_uguu_upload_url c), (''POST'', legacy_kefan_upload_url c)] (\<lambda>u. provider u = ''legacy''))
     (upload_legacy_base64 env (logging_io io) c data mime)"
proof -
  have "does (uses_hosts [(''POST'', target)] (\<lambda>_. True))
      (bind_io (lift_io (decoded_base64_len data)) (\<lambda>len.
       bind_io (send_streaming_multipart_reader env (logging_io io) src len target field mime a) (\<lambda>r. lift_io (g r))))"
    for target src field a and g :: "upload_response \<Rightarrow> anyhow + string"
    by (intro does_silent_bind [OF silent_lift] uses_hosts_outcome uses_hosts_post) (simp add: uses_hosts_def)
  from uses_hosts_or [OF uses_hosts_legacy_result [OF this] uses_hosts_legacy_result [OF this]] show ?thesis
    unfolding upload_legacy_base64_def upload_base64_to_uguu_def upload_base64_to_kefan_def by simp
qed

definition hosts_of :: "config \<Rightarrow> (string \<times> string) list" where
  "hosts_of c =
     (let legacy = [(''POST'', legacy_uguu_upload_url c), (''POST'', legacy_kefan_upload_url c)]
      in case parse_image_host_mode (image_host_mode c) of
           Inl e \<Rightarrow> []
         | Inr Legacy \<Rightarrow> legacy
         | Inr R2 \<Rightarrow> [r2_host]
         | Inr R2ThenLegacy \<Rightarrow> r2_host # legacy)"

text \<open>The result names the host that took the image, the last one contacted.\<close>

definition accepted :: "upload_result \<Rightarrow> upload_request list \<Rightarrow> bool" where
  "accepted u new \<longleftrightarrow>
     provider u = ''r2'' \<and> map route new = [r2_host]
   \<or> provider u = ''legacy'' \<and> new \<noteq> [] \<and> req_method (last new) = ''POST''"

definition routed :: "(string \<times> string) list \<Rightarrow> anyhow + upload_result \<Rightarrow> upload_request list \<Rightarrow> bool" where
  "routed hosts r new \<longleftrightarrow> subseq (map route new) hosts \<and> (\<forall>u. r = Ok u \<longrightarrow> accepted u new)"

lemma subseq_single: "subseq xs [y] \<Longrightarrow> xs = [] \<or> xs = [y]"
  by (cases xs) (auto split: if_splits)

lemma routed_r2:
  assumes "uses_hosts [r2_host] (\<lambda>u. provider u = ''r2'') r new"
  shows "routed [r2_host] r new"
  using assms subseq_single [of "map route new" r2_host] by (auto simp: routed_def uses_hosts_def accepted_def)

lemma routed_legacy:
  assumes "uses_hosts hosts (\<lambda>u. provider u = ''legacy'') r new'" "\<forall>h \<in> set hosts. fst h = ''POST''"
    "subseq (map route new) hs"
  shows "routed (hs @ hosts) r (new @ new')"
proof -
  have "subseq (map route (new @ new')) (hs @ hosts)"
    using assms(1,3) by (auto simp: uses_hosts_def intro: list_emb_append_mono)
  moreover have "accepted u (new @ new')" if "r = Ok u" for u
  proof -
    from that assms(1) have ne: "new' \<noteq> []" and p: "provider u = ''legacy''" and s: "subseq (map route new') hosts"
      by (auto simp: uses_hosts_def)
    from ne have "route (last new') \<in> set (map route new')" by simp
    with s obtain h where "h \<in> set hosts" "route (last new') = h" by (rule list_emb_set)
    with assms(2) ne p show ?thesis by (auto simp: accepted_def route_def)
  qed
  ultimately show ?thesis by (simp add: routed_def)
qed

lemma upload_inline_data_base64_routed:
  "does (routed (hosts_of c)) (upload_inline_data_base64 env (logging_io io) c data mime)"
proof (cases "parse_image_host_mode (image_host_mode c)")
  case (Inl e)
  then show ?thesis
    by (auto simp: upload_inline_data_base64_def routed_def hosts_of_def intro!: does_lift)
next
  case (Inr mode)
  note r2 = uses_hosts_r2_base64 [of env io c data mime] and legacy = uses_hosts_legacy_base64 [of c env io data mime]
  have l: "does (routed (hosts_of c)) (upload_legacy_base64 env (logging_io io) c data mime)" if "mode = Legacy"
    using does_mono [OF legacy, of "routed (hosts_of c)"] routed_legacy [where new = "[]" and hs = "[]"] that Inr
    by (simp add: hosts_of_def)
  have "does (routed (hosts_of c)) (or_io (upload_r2_base64 env (logging_io io) c data mime) (upload_legacy_base64 env (logging_io io) c data mime))"
    if "mode = R2ThenLegacy"
  proof (rule does_or [OF r2 legacy])
    fix x :: upload_result and new
    assume "uses_hosts [r2_host] (\<lambda>u. provider u = ''r2'') (Ok x) new"
    from routed_r2 [OF this] show "routed (hosts_of c) (Ok x) new"
      using that Inr subseq_rev_drop_many [of _ "[r2_host]"] by (simp add: hosts_of_def routed_def Let_def)
  next
    fix e and r :: "anyhow + upload_result" and new new'
    assume "uses_hosts [r2_host] (\<lambda>u :: upload_result. provider u = ''r2'') (Err e) new"
      "uses_hosts [(''POST'', legacy_uguu_upload_url c), (''POST'', legacy_kefan_upload_url c)] (\<lambda>u. provider u = ''legacy'') r new'"
    then show "routed (hosts_of c) r (new @ new')"
      using that Inr routed_legacy [where hs = "[r2_host]"] by (auto simp: hosts_of_def uses_hosts_def)
  qed
  moreover have "does (routed (hosts_of c)) (upload_r2_base64 env (logging_io io) c data mime)" if "mode = R2"
    using does_mono [OF r2 routed_r2] that Inr by (simp add: hosts_of_def)
  ultimately show ?thesis
    using l Inr by (cases mode) (simp_all add: upload_inline_data_base64_def)
qed

section \<open>Object keys and paths\<close>

lemma hex_text_Cons [simp]:
  "hex_text (c # b) = ''0123456789abcdef'' ! (of_char c div 16) # ''0123456789abcdef'' ! (of_char c mod 16) # hex_text b"
  "hex_text [] = []"
  by (simp_all add: hex_text_def)

lemma length_hex_text [simp]: "length (hex_text b) = 2 * length b"
  by (induction b) simp_all

lemma hex_digits_distinct: "distinct ''0123456789abcdef''"
  by code_simp

lemma hex_digit_inj:
  assumes "i < 16" "j < 16" "''0123456789abcdef'' ! i = ''0123456789abcdef'' ! j"
  shows "i = j"
  using nth_eq_iff_index_eq [OF hex_digits_distinct, of i j] assms by simp

lemma hex_text_inj: "hex_text a = hex_text b \<Longrightarrow> a = b"
proof (induction a arbitrary: b)
  case Nil
  then have "length (hex_text b) = 0" by simp
  then show ?case by simp
next
  case (Cons c a)
  then have "length (hex_text b) \<noteq> 0" by auto
  then obtain d b' where b: "b = d # b'" by (cases b) auto
  have small: "of_char x div 16 < (16 :: nat)" for x :: char
    by (simp add: less_mult_imp_div_less)
  from Cons.prems b have "of_char c div 16 = (of_char d div 16 :: nat)" "of_char c mod 16 = (of_char d mod 16 :: nat)"
    using hex_digit_inj small by auto
  then have "of_char c = (of_char d :: nat)" by (metis div_mult_mod_eq)
  with Cons b show ?case by simp
qed

lemma hex_text_no_slash: "CHR ''/'' \<notin> set (hex_text b)"
proof -
  have "''0123456789abcdef'' ! i \<noteq> CHR ''/''" if "i < 16" for i
  proof -
    have "''0123456789abcdef'' ! i \<in> set ''0123456789abcdef''" using that by (intro nth_mem) simp
    then show ?thesis by auto
  qed
  then show ?thesis
    by (induction b) (auto simp: less_mult_imp_div_less dest: sym)
qed

lemma show_int_eq: "show_int i = (if i < 0 then CHR ''-'' # show_nat (nat (- i)) else show_nat (nat i))"
  by (simp add: show_int_def zero_padded_def Let_def)

lemma show_nat_hd_not_minus: "hd (show_nat n) \<noteq> CHR ''-''"
  using show_nat_digits [of "hd (show_nat n)" n] by (auto simp: digit_val_def)

lemma show_int_inj: "show_int i = show_int j \<Longrightarrow> i = j"
  using show_nat_hd_not_minus [of "nat i"] show_nat_hd_not_minus [of "nat j"]
  by (auto simp: show_int_eq split: if_splits dest: sym)

lemma show_int_no_slash: "CHR ''/'' \<notin> set (show_int i)"
  using show_nat_digits [of "CHR ''/''"] by (auto simp: show_int_eq digit_val_def)

lemma extension_no_slash: "CHR ''/'' \<notin> set (trim_start_matches (CHR ''.'') (extension_from_mime mime))"
  by (simp add: extension_from_mime_def trim_start_matches_def)

lemma last_segment:
  assumes "x @ CHR ''/'' # n = x' @ CHR ''/'' # n'" "CHR ''/'' \<notin> set n" "CHR ''/'' \<notin> set n'"
  shows "n = n'"
proof -
  have "takeWhile (\<lambda>c. c \<noteq> CHR ''/'') (rev (y @ CHR ''/'' # m)) = rev m" if "CHR ''/'' \<notin> set m" for y m
    using that by (subst rev_append) (auto simp: takeWhile_append)
  from this [OF assms(2), of x] this [OF assms(3), of x'] assms(1) show ?thesis by simp
qed

lemma build_key_last: "\<exists>x. build_r2_object_key p mime t r = x @ CHR ''/'' # object_name mime t r"
  unfolding build_r2_object_key_def Let_def
  by (metis append.assoc append_Cons append_Nil)

lemma object_name_no_slash: "CHR ''/'' \<notin> set (object_name mime t (hex_text r))"
  using show_int_no_slash hex_text_no_slash extension_no_slash by (simp add: object_name_def)

lemma object_name_inj:
  assumes "object_name mime t (hex_text r) = object_name mime t' (hex_text r')" "length r = length r'"
  shows "unix_ms t = unix_ms t' \<and> r = r'"
proof -
  have "show_int (unix_ms t) = show_int (unix_ms t')" "hex_text r = hex_text r'"
    using assms by (auto simp: object_name_def append_eq_append_conv)
  then show ?thesis using show_int_inj hex_text_inj by blast
qed

lemma join_split_on: "join_with [c] (split_on c s) = s"
proof (induction s)
  case (Cons d s)
  obtain p ps where "split_on c s = p # ps" by (cases "split_on c s") auto
  with Cons show ?case by (cases ps) auto
qed simp

section \<open>Properties\<close>

text \<open>A concrete environment and client for the witnesses.\<close>

definition demo_endpoint :: url where
  "demo_endpoint = \<lparr>scheme = ''https'', host_str = Some ''r2.example'', port = None, url_path = ''/'',
     url_query = None, url_fragment = None\<rparr>"

definition demo_upload_env :: upload_env where
  "demo_upload_env =
     \<lparr>up_urls = \<lparr>url_parse = \<lambda>s. Ok demo_endpoint, url_text = \<lambda>u. ''https://r2.example'' @ url_path u\<rparr>,
      set_path = \<lambda>p u. u\<lparr>url_path := p\<rparr>, form_encode = \<lambda>s. s, sha256 = take 2, hmac = \<lambda>k m. Ok (take 2 m),
      b64_decode = rfc_decode, file_reads = \<lambda>b. map Inr (cut 4 b),
      format_amz_date = \<lambda>t. Ok ''20250102T030405Z'', format_date_stamp = \<lambda>t. Ok ''20250102'',
      mime_str = \<lambda>m. Ok (), status_text = show_nat,
      uguu_from_str = \<lambda>s. Ok \<lparr>uguu_success = True, uguu_files = [s]\<rparr>,
      kefan_from_str = \<lambda>s. Ok \<lparr>kefan_success = True, kefan_data = s\<rparr>\<rparr>"

definition demo_upload_config :: config where
  "demo_upload_config = (read_config demo_urls Map.empty)\<lparr>image_host_mode := ''r2_then_legacy''\<rparr>"

definition demo_time :: datetime where
  "demo_time = \<lparr>dt_year = 2025, dt_month = 1, dt_day = 2, dt_unix_nanos = 7000000\<rparr>"

definition demo_upload_io :: "unit upload_io" where
  "demo_upload_io =
     \<lparr>send = \<lambda>rq w. (Ok \<lparr>up_status = 200, up_text = Ok ''https://host/i.png''\<rparr>, w),
      now_utc = \<lambda>w. (demo_time, w), fill_random = \<lambda>n w. (replicate n (CHR 0xAB), w)\<rparr>"

text \<open>
  C17: Uploading a base64 text by streaming is, in every mode, the upload of the decoded bytes:
  the same hosts, keys, signatures and results, with requests that differ only in their body,
  which is the decoding reader with the number of decoded bytes announced; read with buffers
  of any sizes, that reader delivers exactly those bytes.
\<close>

theorem inline_upload_as_decoded:
  assumes "base64_engine enc (b64_decode env)" "b64_decode env data = Some x"
  shows "upload_inline_data_base64 env io c data mime
      = upload_image env (streaming_io (of_nat (length x)) (FromBase64 (reader_new data)) io) c x mime
    \<and> (\<exists>bs r. read_all (b64_decode env) (reader_new data) ns = (Ok bs, r) \<and> concat bs = take (sum_list ns) x)"
proof
  have "sha256_hex_base64 (b64_decode env) (sha256 env) data = Ok (sha256_hex (sha256 env) x)"
    using base64_engine.chunked_decode [OF assms(1), of 0 data x] assms(2)
    by (simp add: sha256_hex_base64_def sha256_hex_def)
  with base64_engine.decoded_len_correct [OF assms]
  show "upload_inline_data_base64 env io c data mime
      = upload_image env (streaming_io (of_nat (length x)) (FromBase64 (reader_new data)) io) c x mime"
    by (rule inline_data_base64_as_bytes)
  show "\<exists>bs r. read_all (b64_decode env) (reader_new data) ns = (Ok bs, r) \<and> concat bs = take (sum_list ns) x"
    using read_all_delivers [OF base64_engine.reader_new_delivers [OF assms], of ns] by blast
qed

theorem inline_upload_as_decoded_witness:
  "upload_inline_data_base64 demo_upload_env demo_upload_io demo_upload_config ''YWJjZA=='' ''image/png''
     = upload_image demo_upload_env (streaming_io 4 (FromBase64 (reader_new ''YWJjZA=='')) demo_upload_io) demo_upload_config ''abcd'' ''image/png''
   \<and> (\<exists>bs r. read_all rfc_decode (reader_new ''YWJjZA=='') [3, 3] = (Ok bs, r) \<and> concat bs = ''abcd'')"
proof -
  have e: "b64_decode demo_upload_env = rfc_decode" by (simp add: demo_upload_env_def)
  have d: "b64_decode demo_upload_env ''YWJjZA=='' = Some ''abcd''" unfolding e by code_simp
  show ?thesis
    using inline_upload_as_decoded [OF _ d, of rfc_encode demo_upload_io demo_upload_config "''image/png''" "[3, 3]"] rfc.base64_engine_axioms
    by (simp add: e)
qed

text \<open>
  Uploading a live blob is, in every mode, the upload of its bytes: hashing a spilled blob
  read by read gives the hash of its contents, the body is the blob's reader, and the size
  recorded with the blob is the length announced.
\<close>

theorem blob_upload_as_bytes:
  assumes "blob_contents s h = Some b" "\<forall>p. io_error s p = None" "fair_reads (16 * 1024) (file_reads env)"
    and "size_bytes (meta (heap s ! h)) = of_nat (length b)"
  shows "upload_blob env io c s h mime
    = upload_image env (streaming_io (of_nat (length b)) (FromBlob b) io) c b mime"
proof -
  have "open_reader h s = Ok b"
    using read_bytes_no_io [OF assms(1,2)] by (simp add: open_reader_def read_bytes_def)
  from blob_as_bytes [OF this assms(3)] show ?thesis by (simp add: assms(4))
qed

definition upload_runtime :: runtime where
  "upload_runtime =
     \<lparr>cfg = \<lparr>inline_max_bytes = 0, request_hot_budget_bytes = 0, global_hot_budget_bytes = 0, spill_dir = ''/tmp''\<rparr>,
      next_id_ctr = 2, global_hot_bytes = 0, spill_count = 1, spill_bytes_total = 3,
      heap = [\<lparr>blob_id = 1, meta = \<lparr>blob_mime_type = ''image/png'', size_bytes = 3\<rparr>, storage = Spilled ''/tmp/blob'', removed = False\<rparr>],
      files = [''/tmp/blob'' \<mapsto> ''abc''], io_error = \<lambda>_. None\<rparr>"

theorem blob_upload_as_bytes_witness:
  "upload_blob demo_upload_env demo_upload_io demo_upload_config upload_runtime 0 ''image/png''
     = upload_image demo_upload_env (streaming_io 3 (FromBlob ''abc'') demo_upload_io) demo_upload_config ''abc'' ''image/png''"
proof -
  have "blob_contents upload_runtime 0 = Some ''abc''" "\<forall>p. io_error upload_runtime p = None"
    "size_bytes (meta (heap upload_runtime ! 0)) = of_nat (length ''abc'')"
    by (simp_all add: upload_runtime_def blob_contents_def)
  moreover have "fair_reads (16 * 1024) (file_reads demo_upload_env)"
    using fair_cut [of 4 "16 * 1024"] by (simp add: demo_upload_env_def)
  ultimately show ?thesis
    using blob_upload_as_bytes [of upload_runtime 0 "''abc''" demo_upload_env demo_upload_io demo_upload_config "''image/png''"] by simp
qed

text \<open>
  An upload contacts only the hosts of its mode, each at most once and in the order R2,
  uguu, kefan, and the result names the host that took the image: R2 exactly when the only
  request was the PUT, a legacy host when the last request was a POST.
\<close>

theorem upload_contacts:
  assumes "upload_inline_data_base64 env (logging_io io) c data mime (w, log) = (r, (w', log'))"
  shows "\<exists>new. log' = log @ new \<and> subseq (map route new) (hosts_of c)
    \<and> (\<forall>u. r = Ok u \<longrightarrow> accepted u new)"
  by (rule doesD [OF upload_inline_data_base64_routed assms]) (auto simp: routed_def)

theorem upload_contacts_witness:
  "\<exists>r w' new. upload_inline_data_base64 demo_upload_env (logging_io demo_upload_io) demo_upload_config ''YWJj'' ''image/png'' ((), [])
       = (r, (w', new))
     \<and> subseq (map route new) [r2_host, (''POST'', ''https://uguu.se/upload''), (''POST'', DEFAULT_LEGACY_KEFAN_UPLOAD_URL)]"
proof -
  obtain r w' log' where run: "upload_inline_data_base64 demo_upload_env (logging_io demo_upload_io) demo_upload_config
      ''YWJj'' ''image/png'' ((), []) = (r, (w', log'))"
    by (metis prod.collapse)
  have m: "parse_image_host_mode ''r2_then_legacy'' = Ok R2ThenLegacy" by code_simp
  have "hosts_of demo_upload_config = [r2_host, (''POST'', ''https://uguu.se/upload''), (''POST'', DEFAULT_LEGACY_KEFAN_UPLOAD_URL)]"
    by (simp add: hosts_of_def demo_upload_config_def m read_config_def Let_def DEFAULT_LEGACY_UGUU_UPLOAD_URL_def)
  with upload_contacts [OF run] run show ?thesis by auto
qed

text \<open>
  Two uploads with the same prefix and type get the same object key only in the same
  millisecond with the same four random bytes.
\<close>

theorem object_key_unique:
  assumes "build_r2_object_key p mime t (hex_text r) = build_r2_object_key p mime t' (hex_text r')"
    and "length r = length r'"
  shows "unix_ms t = unix_ms t' \<and> r = r'"
proof -
  obtain x y where "build_r2_object_key p mime t (hex_text r) = x @ CHR ''/'' # object_name mime t (hex_text r)"
    "build_r2_object_key p mime t' (hex_text r') = y @ CHR ''/'' # object_name mime t' (hex_text r')"
    using build_key_last by metis
  with assms(1) have "object_name mime t (hex_text r) = object_name mime t' (hex_text r')"
    using last_segment [OF _ object_name_no_slash object_name_no_slash] by simp
  with assms(2) show ?thesis using object_name_inj by blast
qed

theorem object_key_unique_witness:
  "build_r2_object_key ''/images/'' ''image/jpeg'' demo_time (hex_text [CHR 0x01, CHR 0xAB])
     = ''images/2025/01/02/7-01ab.jpg''
   \<and> build_r2_object_key ''/images/'' ''image/jpeg'' demo_time (hex_text [CHR 0x01, CHR 0xAC])
     \<noteq> build_r2_object_key ''/images/'' ''image/jpeg'' demo_time (hex_text [CHR 0x01, CHR 0xAB])"
proof
  show "build_r2_object_key ''/images/'' ''image/jpeg'' demo_time (hex_text [CHR 0x01, CHR 0xAB])
      = ''images/2025/01/02/7-01ab.jpg''"
    by code_simp
  show "build_r2_object_key ''/images/'' ''image/jpeg'' demo_time (hex_text [CHR 0x01, CHR 0xAC])
      \<noteq> build_r2_object_key ''/images/'' ''image/jpeg'' demo_time (hex_text [CHR 0x01, CHR 0xAB])"
    using object_key_unique [of "''/images/''" "''image/jpeg''" demo_time "[CHR 0x01, CHR 0xAC]" demo_time "[CHR 0x01, CHR 0xAB]"] by auto
qed

text \<open>
  Characters that form encoding keeps (\<open>application/x-www-form-urlencoded\<close>, URL standard).
\<close>

definition unreserved :: "char \<Rightarrow> bool" where
  "unreserved ch \<longleftrightarrow> ch \<in> set ''ABCDEFGHIJKLMNOPQRSTUVWXYZabcdefghijklmnopqrstuvwxyz0123456789*-._''"

lemma unreserved_graphic: "unreserved ch \<Longrightarrow> graphic ch"
  by (auto simp: unreserved_def graphic_def)

lemma split_on_set: "q \<in> set (split_on d k) \<Longrightarrow> set q \<subseteq> set k - {d}"
  by (induction k arbitrary: q) (fastforce split: if_splits list.splits)+

lemma map_encode_parts:
  assumes "\<forall>s. list_all unreserved s \<longrightarrow> enc s = s" "list_all (\<lambda>ch. unreserved ch \<or> ch = CHR ''/'') k"
  shows "map enc (split_on (CHR ''/'') k) = split_on (CHR ''/'') k"
proof (rule map_idI)
  fix q
  assume "q \<in> set (split_on (CHR ''/'') k)"
  with assms(2) have "list_all unreserved q" by (auto simp: list_all_iff dest: split_on_set)
  with assms(1) show "enc q = q" by blast
qed



end
