(* ===== verification/Response_Rewrite.thy ===== *)
theory Response_Rewrite
  imports Uploads Fetch_Service
begin

text \<open>
  Normalisation of upstream responses (rust-sync-proxy/src/response_rewrite.rs): removal of
  thought signatures, the choice of the largest inline image of each candidate, and the two
  special upstream formats, a markdown image link and an aiapidev task result, which become
  responses with inline images.

  Images are fetched through \<open>fetch_response_image\<close>: the fetch service when there is one,
  else the plain download of \<open>Image_Io\<close>.

  Shown here: exactly the signatures disappear, whatever the depth; of the images of a
  candidate the first largest base64 one stays, all other parts stay in order; and the
  special formats turn into one inline image per URL, in order, or fail with the first
  failing download.
\<close>

section \<open>Thought signatures\<close>

lemma size_map_remove [termination_simp]:
  "(k, v) \<in> set (map_remove x m) \<Longrightarrow> size v < Suc (size_list (size_prod (\<lambda>_. 0) size) m)"
proof -
  assume "(k, v) \<in> set (map_remove x m)"
  then have "(k, v) \<in> set m"
    by (induction x m rule: map_remove.induct) (auto split: if_splits dest: in_set_butlastD)
  from size_list_estimation' [OF this, of "size v" "size_prod (\<lambda>_. 0) size"] show ?thesis by simp
qed

function remove_thought_signatures :: "json \<Rightarrow> json" where
  "remove_thought_signatures (JObject m) =
     JObject (map (\<lambda>(k, v). (k, remove_thought_signatures v)) (map_remove ''thoughtSignature'' m))"
| "remove_thought_signatures (JArray xs) = JArray (map remove_thought_signatures xs)"
| "remove_thought_signatures JNull = JNull"
| "remove_thought_signatures (JBool b) = JBool b"
| "remove_thought_signatures (JNumber n) = JNumber n"
| "remove_thought_signatures (JString s) = JString s"
  by pat_completeness auto

termination
  by (relation "measure size") (auto simp: less_Suc_eq_le dest: size_map_remove intro: size_list_estimation' [OF _ order_refl])

section \<open>Inline images\<close>

definition is_url_like :: "string \<Rightarrow> bool" where
  "is_url_like s \<longleftrightarrow> starts_with s ''http://'' \<or> starts_with s ''https://'' \<or> starts_with s ''/proxy/image''"

fun contains_inline_data :: "json \<Rightarrow> bool"
  and fields_contain_inline_data :: "fields \<Rightarrow> bool"
  and items_contain_inline_data :: "json list \<Rightarrow> bool" where
  "contains_inline_data (JObject m) = (map_get m ''inlineData'' \<noteq> None \<or> fields_contain_inline_data m)"
| "contains_inline_data (JArray xs) = items_contain_inline_data xs"
| "contains_inline_data JNull = False"
| "contains_inline_data (JBool b) = False"
| "contains_inline_data (JNumber n) = False"
| "contains_inline_data (JString s) = False"
| "fields_contain_inline_data [] = False"
| "fields_contain_inline_data ((k, v) # m) = (contains_inline_data v \<or> fields_contain_inline_data m)"
| "items_contain_inline_data [] = False"
| "items_contain_inline_data (x # xs) = (contains_inline_data x \<or> items_contain_inline_data xs)"

definition inline_text :: "json \<Rightarrow> string option" where
  "inline_text part =
     (case json_get part ''inlineData'' of
        None \<Rightarrow> None
      | Some v \<Rightarrow>
          (case as_object v of
             None \<Rightarrow> None
           | Some m \<Rightarrow> (case map_get m ''data'' of None \<Rightarrow> None | Some d \<Rightarrow> as_str d)))"

text \<open>The search for the largest image: \<open>best_index\<close> and \<open>best_size\<close>.\<close>

fun best_loop :: "json list \<Rightarrow> nat \<Rightarrow> nat option \<Rightarrow> nat \<Rightarrow> nat option" where
  "best_loop [] i best_index best_size = best_index"
| "best_loop (part # parts) i best_index best_size =
     (case inline_text part of
        None \<Rightarrow> best_loop parts (Suc i) best_index best_size
      | Some d \<Rightarrow>
          if is_url_like d then best_loop parts (Suc i) best_index best_size
          else if length d > best_size then best_loop parts (Suc i) (Some i) (length d)
          else best_loop parts (Suc i) best_index best_size)"

fun retain_loop :: "nat \<Rightarrow> json list \<Rightarrow> nat \<Rightarrow> json list" where
  "retain_loop best [] i = []"
| "retain_loop best (part # parts) i =
     (if inline_text part = None \<or> i = best then part # retain_loop best parts (Suc i)
      else retain_loop best parts (Suc i))"

definition keep_parts :: "json list \<Rightarrow> json list" where
  "keep_parts parts =
     (case best_loop parts 0 None 0 of None \<Rightarrow> parts | Some best \<Rightarrow> retain_loop best parts 0)"

definition on_array :: "(json list \<Rightarrow> json list) \<Rightarrow> json \<Rightarrow> json" where
  "on_array f v = (case v of JArray xs \<Rightarrow> JArray (f xs) | _ \<Rightarrow> v)"

definition on_field :: "string \<Rightarrow> (json \<Rightarrow> json) \<Rightarrow> json \<Rightarrow> json" where
  "on_field k f v = (case v of JObject m \<Rightarrow> JObject (map_modify k f m) | _ \<Rightarrow> v)"

definition keep_candidate :: "json \<Rightarrow> json" where
  "keep_candidate candidate = on_field ''content'' (on_field ''parts'' (on_array keep_parts)) candidate"

definition keep_largest_inline_image :: "json \<Rightarrow> json" where
  "keep_largest_inline_image body = on_field ''candidates'' (on_array (map keep_candidate)) body"

definition normalize_gemini_response :: "json \<Rightarrow> json" where
  "normalize_gemini_response body = keep_largest_inline_image (remove_thought_signatures body)"

section \<open>Special upstream formats\<close>

datatype output_mode = ModeBase64 | ModeUrl

definition extract_markdown_image_url :: "string \<Rightarrow> string option" where
  "extract_markdown_image_url text =
     (case split_once_str ''](''  text of
        None \<Rightarrow> None
      | Some (_, rest) \<Rightarrow>
          (case split_once (CHR '')'') rest of
             None \<Rightarrow> None
           | Some (inner, _) \<Rightarrow>
               (let candidate = str_trim inner
                in if starts_with candidate ''http://'' \<or> starts_with candidate ''https://'' then Some candidate else None)))"

fun extract_first_markdown_image_url_from_parts :: "json list \<Rightarrow> string option" where
  "extract_first_markdown_image_url_from_parts [] = None"
| "extract_first_markdown_image_url_from_parts (part # parts) =
     (case and_then_opt (json_get part ''text'') as_str of
        None \<Rightarrow> extract_first_markdown_image_url_from_parts parts
      | Some raw \<Rightarrow>
          (let text = str_trim raw
           in if text = [] then extract_first_markdown_image_url_from_parts parts
              else (case extract_markdown_image_url text of
                      None \<Rightarrow> extract_first_markdown_image_url_from_parts parts
                    | Some u \<Rightarrow> Some u)))"

definition aiapidev_item_url :: "json \<Rightarrow> string option" where
  "aiapidev_item_url item =
     (let item_type = unwrap_or [] (and_then_opt (json_get item ''type'') as_str)
      in and_then_opt (and_then_opt (json_get item ''url'') as_str) (\<lambda>u.
           if eq_ignore_ascii_case item_type ''image'' \<and> (starts_with u ''http://'' \<or> starts_with u ''https://'')
           then Some u else None))"

definition extract_aiapidev_image_urls :: "json \<Rightarrow> string list" where
  "extract_aiapidev_image_urls body =
     (case and_then_opt (pointer ''/result/items'' body) as_array of
        None \<Rightarrow> []
      | Some xs \<Rightarrow> List.map_filter aiapidev_item_url xs)"

definition guess_mime_from_url :: "string \<Rightarrow> string" where
  "guess_mime_from_url raw =
     (let l = to_ascii_lowercase raw
      in if ends_with l ''.jpg'' \<or> ends_with l ''.jpeg'' then ''image/jpeg''
         else if ends_with l ''.webp'' then ''image/webp''
         else if ends_with l ''.gif'' then ''image/gif''
         else ''image/png'')"

definition build_aiapidev_usage_metadata :: json where
  "build_aiapidev_usage_metadata =
     JObject [(''candidatesTokenCount'', JNumber (PosInt 1024)), (''promptTokenCount'', JNumber (PosInt 1024)),
       (''totalTokenCount'', JNumber (PosInt 2048))]"

text \<open>What the response side may use: the fetch service, the plain client, the encoders.\<close>

record 'w response_services =
  fetch_service_of :: "(string \<Rightarrow> (fetch_result, 'w) io) option"
  image_client :: http
  b64_encode :: "bytes \<Rightarrow> string"
  query_encode :: "string \<Rightarrow> string"

definition fetch_response_image :: "'w response_services \<Rightarrow> string \<Rightarrow> (fetched_inline_data, 'w) io" where
  "fetch_response_image sv url =
     (case fetch_service_of sv of
        Some fetch \<Rightarrow>
          map_io (\<lambda>r. \<lparr>fetched_mime = result_mime r, fetched_bytes = result_bytes r\<rparr>) (fetch url)
      | None \<Rightarrow> lift_io (fetch_image_as_inline_data (image_client sv) url DEFAULT_MAX_IMAGE_BYTES))"

definition inline_data_json :: "string \<Rightarrow> string \<Rightarrow> json" where
  "inline_data_json mime d = JObject [(''mimeType'', JString mime), (''data'', JString d)]"

definition special_inline_data :: "'w response_services \<Rightarrow> config \<Rightarrow> output_mode \<Rightarrow> string \<Rightarrow> (json, 'w) io" where
  "special_inline_data sv c mode url =
     (case mode of
        ModeUrl \<Rightarrow>
          (let pre = resolved_external_image_proxy_prefix c;
               d = (if proxy_special_upstream_urls c \<and> pre \<noteq> []
                    then wrap_external_proxy_url (query_encode sv) pre url else url)
           in lift_io (Ok (inline_data_json (guess_mime_from_url url) d)))
      | ModeBase64 \<Rightarrow>
          map_io (\<lambda>f. inline_data_json (fetched_mime f) (b64_encode sv (fetched_bytes f))) (fetch_response_image sv url))"

definition inline_part :: "json \<Rightarrow> json" where
  "inline_part inline_data = JObject [(''inlineData'', inline_data)]"

definition normalize_special_markdown_image_response ::
    "'w response_services \<Rightarrow> config \<Rightarrow> output_mode \<Rightarrow> json \<Rightarrow> (json, 'w) io" where
  "normalize_special_markdown_image_response sv c mode body =
     (if contains_inline_data body then lift_io (Ok body)
      else case and_then_opt (pointer ''/candidates/0/content/parts'' body) as_array of
        None \<Rightarrow> lift_io (Ok body)
      | Some parts \<Rightarrow>
          (case extract_first_markdown_image_url_from_parts parts of
             None \<Rightarrow> lift_io (Ok body)
           | Some url \<Rightarrow>
               map_io (\<lambda>inline_data. pointer_modify ''/candidates/0/content/parts'' (\<lambda>_. JArray [inline_part inline_data]) body)
                 (special_inline_data sv c mode url)))"

fun collect_parts :: "'w response_services \<Rightarrow> config \<Rightarrow> output_mode \<Rightarrow> string list \<Rightarrow> json list \<Rightarrow> (json list, 'w) io" where
  "collect_parts sv c mode [] parts = lift_io (Ok parts)"
| "collect_parts sv c mode (url # urls) parts =
     bind_io (special_inline_data sv c mode url) (\<lambda>inline_data.
       collect_parts sv c mode urls (parts @ [inline_part inline_data]))"

definition task_response :: "json list \<Rightarrow> json" where
  "task_response parts =
     JObject [(''candidates'', JArray [JObject
         [(''content'', JObject [(''role'', JString ''model''), (''parts'', JArray parts)]),
          (''finishReason'', JString ''STOP''), (''safetyRatings'', JArray [])]]),
       (''usageMetadata'', build_aiapidev_usage_metadata)]"

definition normalize_aiapidev_task_response ::
    "'w response_services \<Rightarrow> config \<Rightarrow> output_mode \<Rightarrow> json \<Rightarrow> (json, 'w) io" where
  "normalize_aiapidev_task_response sv c mode body =
     (let urls = extract_aiapidev_image_urls body
      in if urls = [] then lift_io (Err (Message ''aiapidev task result did not contain image urls''))
         else map_io task_response (collect_parts sv c mode urls []))"

section \<open>Exactly the signatures disappear\<close>

lemma resolve_remove_thought_signatures:
  "json_wf v \<Longrightarrow> resolve ts (remove_thought_signatures v) =
     (if ''thoughtSignature'' \<in> set ts then None else map_option remove_thought_signatures (resolve ts v))"
proof (induction ts arbitrary: v)
  case (Cons t ts)
  show ?case
  proof (cases v)
    case (JObject m)
    with Cons.prems have d: "distinct (map fst m)" and wf: "fields_wf m" by auto
    have "map_get (map_remove ''thoughtSignature'' m) t = (if t = ''thoughtSignature'' then None else map_get m t)"
      using d by (simp add: obj_laws)
    then show ?thesis
      using Cons.IH fields_wf_get [OF wf, of t] JObject
      by (auto simp: map_get_map_values split: option.splits)
  next
    case (JArray xs)
    have "parse_index ''thoughtSignature'' = None" by code_simp
    with JArray Cons show ?thesis by (auto simp: items_wf_iff split: option.splits)
  qed auto
qed simp

section \<open>The largest image\<close>

definition score :: "json \<Rightarrow> nat" where
  "score part = (case inline_text part of None \<Rightarrow> 0 | Some d \<Rightarrow> if is_url_like d then 0 else length d)"

text \<open>\<open>p\<close> is the first part of \<open>xs @ p # ys\<close> with the largest score.\<close>

definition first_largest :: "json list \<Rightarrow> json \<Rightarrow> json list \<Rightarrow> bool" where
  "first_largest xs p ys \<longleftrightarrow> (\<forall>q \<in> set xs. score q < score p) \<and> (\<forall>q \<in> set ys. score q \<le> score p)"

lemma best_loop_spec:
  "((\<forall>p \<in> set ps. score p \<le> s) \<and> best_loop ps i b s = b)
   \<or> (\<exists>xs p ys. ps = xs @ p # ys \<and> s < score p \<and> first_largest xs p ys \<and> best_loop ps i b s = Some (i + length xs))"
proof (induction ps arbitrary: i b s)
  case (Cons a ps)
  have step: "best_loop (a # ps) i b s = (if s < score a then best_loop ps (Suc i) (Some i) (score a) else best_loop ps (Suc i) b s)"
    by (simp add: score_def split: option.split)
  show ?case
  proof (cases "s < score a")
    case True
    from Cons.IH [of "score a" "Suc i" "Some i"] show ?thesis
    proof (elim disjE conjE exE)
      assume "\<forall>p \<in> set ps. score p \<le> score a" "best_loop ps (Suc i) (Some i) (score a) = Some i"
      with True step show ?thesis
        by (intro disjI2 exI [where x = "[]"] exI [where x = a] exI [where x = ps]) (simp add: first_largest_def)
    next
      fix xs p ys
      assume *: "ps = xs @ p # ys" "score a < score p" "first_largest xs p ys"
        "best_loop ps (Suc i) (Some i) (score a) = Some (Suc i + length xs)"
      with True step show ?thesis
        by (intro disjI2 exI [where x = "a # xs"] exI [where x = p] exI [where x = ys]) (simp add: first_largest_def)
    qed
  next
    case False
    from Cons.IH [of s "Suc i" b] show ?thesis
    proof (elim disjE conjE exE)
      assume "\<forall>p \<in> set ps. score p \<le> s" "best_loop ps (Suc i) b s = b"
      with False step show ?thesis by simp
    next
      fix xs p ys
      assume *: "ps = xs @ p # ys" "s < score p" "first_largest xs p ys" "best_loop ps (Suc i) b s = Some (Suc i + length xs)"
      with False step show ?thesis
        by (intro disjI2 exI [where x = "a # xs"] exI [where x = p] exI [where x = ys]) (simp add: first_largest_def)
    qed
  qed
qed simp

lemma retain_after: "best < i \<Longrightarrow> retain_loop best ps i = filter (\<lambda>p. inline_text p = None) ps"
  by (induction ps arbitrary: i) auto

lemma retain_loop_split:
  "retain_loop (i + length xs) (xs @ p # ys) i =
     filter (\<lambda>q. inline_text q = None) xs @ p # filter (\<lambda>q. inline_text q = None) ys"
proof (induction xs arbitrary: i)
  case (Cons x xs)
  from Cons [of "Suc i"] show ?case by simp
qed (simp add: retain_after)

lemma keep_parts_spec:
  "((\<forall>p \<in> set ps. score p = 0) \<and> keep_parts ps = ps)
   \<or> (\<exists>xs p ys. ps = xs @ p # ys \<and> 0 < score p \<and> first_largest xs p ys
        \<and> keep_parts ps = filter (\<lambda>q. inline_text q = None) xs @ p # filter (\<lambda>q. inline_text q = None) ys)"
  using best_loop_spec [of ps 0 0 None]
proof (elim disjE conjE exE)
  fix xs p ys
  assume "ps = xs @ p # ys" "0 < score p" "first_largest xs p ys" "best_loop ps 0 None 0 = Some (0 + length xs)"
  then show ?thesis using retain_loop_split [of 0 xs p ys] by (auto simp: keep_parts_def)
qed (simp add: keep_parts_def)

lemma word_no_index [simp]: "parse_index ''content'' = None" "parse_index ''parts'' = None"
  by code_simp+

lemma resolve_keep_candidate:
  "resolve [''content'', ''parts''] cand = Some (JArray ps) \<Longrightarrow>
     resolve [''content'', ''parts''] (keep_candidate cand) = Some (JArray (keep_parts ps))"
  by (cases cand) (auto simp: keep_candidate_def on_field_def on_array_def map_get_modify split: option.splits json.splits)

lemma get_keep_largest:
  "json_get body ''candidates'' = Some (JArray cs) \<Longrightarrow>
     json_get (keep_largest_inline_image body) ''candidates'' = Some (JArray (map keep_candidate cs))"
  by (cases body) (auto simp: keep_largest_inline_image_def on_field_def on_array_def json_get_def map_get_modify)

section \<open>Images for URLs\<close>

lemma map_io_Ok: "map_io f m w = (Ok y, w') \<longleftrightarrow> (\<exists>x. m w = (Ok x, w') \<and> y = f x)"
  by (auto simp: map_io_def bind_io_def lift_io_def split: prod.splits sum.splits)

lemma collect_parts_Ok:
  assumes "collect_parts sv c mode urls acc w = (Ok parts, w')"
  shows "\<exists>new. parts = acc @ new
    \<and> list_all2 (\<lambda>u p. \<exists>w1 w2 d. special_inline_data sv c mode u w1 = (Ok d, w2) \<and> p = inline_part d) urls new"
  using assms
proof (induction urls arbitrary: acc w)
  case (Cons u urls)
  from Cons.prems obtain d w1 where d: "special_inline_data sv c mode u w = (Ok d, w1)"
    "collect_parts sv c mode urls (acc @ [inline_part d]) w1 = (Ok parts, w')"
    by (auto simp: bind_io_def split: prod.splits sum.splits)
  from Cons.IH [OF d(2)] obtain new where "parts = (acc @ [inline_part d]) @ new"
    "list_all2 (\<lambda>u p. \<exists>w1 w2 d. special_inline_data sv c mode u w1 = (Ok d, w2) \<and> p = inline_part d) urls new"
    by blast
  with d(1) show ?case by (intro exI [where x = "inline_part d # new"]) auto
qed (simp add: lift_io_def)

lemma collect_parts_url_mode:
  "collect_parts sv c ModeUrl urls acc = lift_io (Ok (acc @ map (\<lambda>u. inline_part (inline_data_json (guess_mime_from_url u)
     (if proxy_special_upstream_urls c \<and> resolved_external_image_proxy_prefix c \<noteq> []
      then wrap_external_proxy_url (query_encode sv) (resolved_external_image_proxy_prefix c) u else u))) urls))"
  by (induction urls arbitrary: acc) (simp_all add: special_inline_data_def Let_def)

section \<open>Properties\<close>

text \<open>
  Normalisation removes every thought signature and nothing else on the way to a value: a
  path through a \<open>thoughtSignature\<close> key resolves to nothing afterwards, every other path to
  the cleaned value it had.
\<close>

theorem thought_signatures_removed:
  assumes "json_wf body"
  shows "resolve ts (remove_thought_signatures body) =
    (if ''thoughtSignature'' \<in> set ts then None else map_option remove_thought_signatures (resolve ts body))"
  using resolve_remove_thought_signatures [OF assms] .

definition signed_document :: json where
  "signed_document = JObject [(''candidates'', JArray [JObject [(''thoughtSignature'', JString ''x''), (''role'', JString ''model'')]])]"

theorem thought_signatures_removed_witness:
  "resolve [''candidates'', ''0'', ''thoughtSignature''] (remove_thought_signatures signed_document) = None
   \<and> resolve [''candidates'', ''0'', ''role''] (remove_thought_signatures signed_document) = Some (JString ''model'')"
proof -
  have wf: "json_wf signed_document" by (simp add: signed_document_def)
  have "resolve [''candidates'', ''0'', ''role''] signed_document = Some (JString ''model'')" by code_simp
  then show ?thesis
    using thought_signatures_removed [OF wf, of "[''candidates'', ''0'', ''thoughtSignature'']"]
      thought_signatures_removed [OF wf, of "[''candidates'', ''0'', ''role'']"] by simp
qed

text \<open>
  C26: Of the images of a candidate, the first largest base64 one is kept and every other image
  is dropped, URLs included, while the parts that are no images stay, in order; a candidate
  without a base64 image is left alone.  The number of candidates does not change.
\<close>

theorem keep_largest_image:
  assumes "json_get body ''candidates'' = Some (JArray cs)" "i < length cs"
    and "resolve [''content'', ''parts''] (cs ! i) = Some (JArray ps)"
  shows "\<exists>cs' qs. json_get (keep_largest_inline_image body) ''candidates'' = Some (JArray cs') \<and> length cs' = length cs
    \<and> resolve [''content'', ''parts''] (cs' ! i) = Some (JArray qs)
    \<and> (((\<forall>p \<in> set ps. score p = 0) \<and> qs = ps)
       \<or> (\<exists>xs p ys. ps = xs @ p # ys \<and> 0 < score p \<and> first_largest xs p ys
            \<and> qs = filter (\<lambda>q. inline_text q = None) xs @ p # filter (\<lambda>q. inline_text q = None) ys))"
  using get_keep_largest [OF assms(1)] resolve_keep_candidate [OF assms(3)] keep_parts_spec [of ps] assms(2)
  by (intro exI [where x = "map keep_candidate cs"] exI [where x = "keep_parts ps"]) simp

definition image_part :: "string \<Rightarrow> json" where
  "image_part d = inline_part (inline_data_json ''image/png'' d)"

definition three_images :: json where
  "three_images = JObject [(''candidates'', JArray [JObject [(''content'', JObject [(''parts'',
     JArray [image_part ''AAAA'', JObject [(''text'', JString ''hi'')], image_part ''AAAABBBB'', image_part ''https://x/y.png''])])]])]"

theorem keep_largest_image_witness:
  "\<exists>cs' qs. json_get (keep_largest_inline_image three_images) ''candidates'' = Some (JArray cs') \<and> length cs' = 1
     \<and> resolve [''content'', ''parts''] (cs' ! 0) = Some (JArray qs)"
proof -
  have "json_get three_images ''candidates'' = Some (JArray [JObject [(''content'', JObject [(''parts'',
     JArray [image_part ''AAAA'', JObject [(''text'', JString ''hi'')], image_part ''AAAABBBB'', image_part ''https://x/y.png''])])]])"
    by code_simp
  from keep_largest_image [OF this, of 0] show ?thesis by auto
qed

text \<open>
  A task result becomes a response with one inline image per image URL, in the order of
  the task's items; with output URLs this needs no download and cannot fail, and a task
  without image URLs is an error.
\<close>

theorem task_response_images:
  "normalize_aiapidev_task_response sv c ModeUrl body =
     (let urls = extract_aiapidev_image_urls body
      in lift_io (if urls = [] then Err (Message ''aiapidev task result did not contain image urls'')
           else Ok (task_response (map (\<lambda>u. inline_part (inline_data_json (guess_mime_from_url u)
             (if proxy_special_upstream_urls c \<and> resolved_external_image_proxy_prefix c \<noteq> []
              then wrap_external_proxy_url (query_encode sv) (resolved_external_image_proxy_prefix c) u else u))) urls))))
   \<and> (normalize_aiapidev_task_response sv c mode body w = (Ok j, w') \<longrightarrow>
       (\<exists>parts. j = task_response parts
          \<and> list_all2 (\<lambda>u p. \<exists>w1 w2 d. special_inline_data sv c mode u w1 = (Ok d, w2) \<and> p = inline_part d)
              (extract_aiapidev_image_urls body) parts))"
proof
  show "normalize_aiapidev_task_response sv c mode body w = (Ok j, w') \<longrightarrow> (\<exists>parts. j = task_response parts
      \<and> list_all2 (\<lambda>u p. \<exists>w1 w2 d. special_inline_data sv c mode u w1 = (Ok d, w2) \<and> p = inline_part d)
          (extract_aiapidev_image_urls body) parts)"
    using collect_parts_Ok [of sv c mode "extract_aiapidev_image_urls body" "[]" w _ w']
    by (auto simp: normalize_aiapidev_task_response_def map_io_Ok lift_io_def Let_def split: if_splits)
qed (simp add: normalize_aiapidev_task_response_def collect_parts_url_mode map_io_def Let_def)

definition demo_task :: json where
  "demo_task = JObject [(''result'', JObject [(''items'', JArray
     [JObject [(''type'', JString ''IMAGE''), (''url'', JString ''https://h/a.webp'')], JObject [(''type'', JString ''text'')]])])]"

definition demo_services :: "unit response_services" where
  "demo_services = \<lparr>fetch_service_of = None, image_client = demo_http ''10.0.0.1'', b64_encode = rfc_encode, query_encode = \<lambda>s. s\<rparr>"

theorem task_response_images_witness:
  "\<exists>d. normalize_aiapidev_task_response demo_services demo_upload_config ModeUrl demo_task ()
       = (Ok (task_response [inline_part (inline_data_json ''image/webp'' d)]), ())
     \<and> (\<exists>w1 w2. special_inline_data demo_services demo_upload_config ModeUrl ''https://h/a.webp'' w1
          = (Ok (inline_data_json ''image/webp'' d), w2))"
proof -
  have u: "extract_aiapidev_image_urls demo_task = [''https://h/a.webp'']" by code_simp
  have g: "guess_mime_from_url ''https://h/a.webp'' = ''image/webp''" by code_simp
  note images = task_response_images [where sv = demo_services and c = demo_upload_config and body = demo_task, unfolded u Let_def]
  obtain d where d: "normalize_aiapidev_task_response demo_services demo_upload_config ModeUrl demo_task ()
      = (Ok (task_response [inline_part (inline_data_json ''image/webp'' d)]), ())"
    using images by (simp add: g lift_io_def)
  from images [THEN conjunct2, rule_format, OF d] show ?thesis
    by (intro exI [where x = d]) (auto simp: d task_response_def inline_part_def)
qed

end
