(* ===== verification/Response_Materialize.thy ===== *)
theory Response_Materialize
  imports Response_Rewrite
begin

text \<open>
  The inline images of a response (rust-sync-proxy/src/response_materialize.rs): scanning for the
  base64 images, recompressing them, uploading them and replacing them in the document by
  what they became.

  The two patch functions of the code share their traversal, \<open>patch_tree\<close>; a replacement is an
  optional MIME type and the new data.  The uploader is the one of \<open>Uploads\<close>.

  Shown here: patching changes exactly the images in the table, in place and nothing else; the
  scan lists each base64 image once; after the upload every image is replaced by its URL or,
  when its upload failed, left as it was; recompression never makes an image's text longer.
\<close>

section \<open>Entries\<close>

record inline_data_entry =
  img_mime :: string
  img_data :: string

record inline_data_replacement =
  repl_mime_type :: string
  repl_data :: string

definition entry_of :: "fields \<Rightarrow> inline_data_entry option" where
  "entry_of i =
     (case (map_get i ''data'', map_get i ''mimeType'') of
        (Some (JString d), Some (JString t)) \<Rightarrow> Some \<lparr>img_mime = t, img_data = d\<rparr>
      | _ \<Rightarrow> None)"

definition inline_entry :: "fields \<Rightarrow> inline_data_entry option" where
  "inline_entry m = (case map_get m ''inlineData'' of Some (JObject i) \<Rightarrow> entry_of i | _ \<Rightarrow> None)"

definition push_entry :: "fields \<Rightarrow> inline_data_entry list \<Rightarrow> inline_data_entry list" where
  "push_entry m entries =
     (case inline_entry m of
        None \<Rightarrow> entries
      | Some e \<Rightarrow>
          if is_url_like (img_data e) then entries
          else if e \<in> set entries then entries else entries @ [e])"

fun scan_walk :: "json \<Rightarrow> inline_data_entry list \<Rightarrow> inline_data_entry list"
  and scan_walk_fields :: "fields \<Rightarrow> inline_data_entry list \<Rightarrow> inline_data_entry list"
  and scan_walk_items :: "json list \<Rightarrow> inline_data_entry list \<Rightarrow> inline_data_entry list" where
  "scan_walk (JObject m) entries = scan_walk_fields m (push_entry m entries)"
| "scan_walk (JArray xs) entries = scan_walk_items xs entries"
| "scan_walk JNull entries = entries"
| "scan_walk (JBool b) entries = entries"
| "scan_walk (JNumber n) entries = entries"
| "scan_walk (JString s) entries = entries"
| "scan_walk_fields [] entries = entries"
| "scan_walk_fields ((k, v) # m) entries = scan_walk_fields m (scan_walk v entries)"
| "scan_walk_items [] entries = entries"
| "scan_walk_items (x # xs) entries = scan_walk_items xs (scan_walk x entries)"

definition scan_inline_data_base64_entries :: "json \<Rightarrow> inline_data_entry list" where
  "scan_inline_data_base64_entries v = scan_walk v []"

section \<open>Patching\<close>

definition apply_replacement :: "string option \<times> string \<Rightarrow> fields \<Rightarrow> fields" where
  "apply_replacement r i =
     map_insert ''data'' (JString (snd r))
       (case fst r of None \<Rightarrow> i | Some t \<Rightarrow> map_insert ''mimeType'' (JString t) i)"

definition patch_inline :: "(inline_data_entry \<Rightarrow> (string option \<times> string) option) \<Rightarrow> json \<Rightarrow> json" where
  "patch_inline R v =
     (case v of
        JObject i \<Rightarrow>
          (case entry_of i of
             None \<Rightarrow> v
           | Some e \<Rightarrow> (case R e of None \<Rightarrow> v | Some r \<Rightarrow> JObject (apply_replacement r i)))
      | _ \<Rightarrow> v)"

lemma entry_of_Some:
  "entry_of i = Some e \<longleftrightarrow> map_get i ''data'' = Some (JString (img_data e)) \<and> map_get i ''mimeType'' = Some (JString (img_mime e))"
  by (cases e) (auto simp: entry_of_def split: option.splits json.splits)

lemma nodes_patch_inline: "nodes (patch_inline R v) = nodes v"
  by (cases v)
    (auto simp: patch_inline_def apply_replacement_def entry_of_Some map_get_insert fields_nodes_insert split: option.splits)

function patch_tree :: "(inline_data_entry \<Rightarrow> (string option \<times> string) option) \<Rightarrow> json \<Rightarrow> json" where
  "patch_tree R (JObject m) =
     JObject (map (\<lambda>(k, v). (k, patch_tree R v)) (map_modify ''inlineData'' (patch_inline R) m))"
| "patch_tree R (JArray xs) = JArray (map (patch_tree R) xs)"
| "patch_tree R JNull = JNull"
| "patch_tree R (JBool b) = JBool b"
| "patch_tree R (JNumber n) = JNumber n"
| "patch_tree R (JString s) = JString s"
  by pat_completeness auto

termination
proof (relation "measure (nodes \<circ> snd)")
  fix R m p k v
  assume "p \<in> set (map_modify ''inlineData'' (patch_inline R) m)" "(k, v) = p"
  then have "nodes v \<le> fields_nodes (map_modify ''inlineData'' (patch_inline R) m)" using nodes_field by blast
  then show "((R, v), R, JObject m) \<in> measure (nodes \<circ> snd)"
    by (simp add: fields_nodes_modify nodes_patch_inline)
qed (auto dest: nodes_item)

definition patch_inline_data_urls :: "(inline_data_entry \<Rightarrow> string option) \<Rightarrow> json \<Rightarrow> json" where
  "patch_inline_data_urls rs = patch_tree (\<lambda>e. map_option (\<lambda>u. (None, u)) (rs e))"

definition patch_inline_data_base64 :: "(inline_data_entry \<Rightarrow> inline_data_replacement option) \<Rightarrow> json \<Rightarrow> json" where
  "patch_inline_data_base64 rs = patch_tree (\<lambda>e. map_option (\<lambda>r. (Some (repl_mime_type r), repl_data r)) (rs e))"

section \<open>Uploading and recompressing\<close>

definition should_proxy_standard_output_url :: "config \<Rightarrow> string \<Rightarrow> bool" where
  "should_proxy_standard_output_url c prov \<longleftrightarrow> proxy_standard_output_urls c \<and> \<not> eq_ignore_ascii_case prov ''r2''"

definition final_url :: "upload_env \<Rightarrow> config \<Rightarrow> upload_result \<Rightarrow> string" where
  "final_url env c r =
     (let pre = resolved_external_image_proxy_prefix c
      in if \<not> should_proxy_standard_output_url c (provider r) \<or> str_trim pre = [] then upload_url r
         else wrap_external_proxy_url (form_encode env) pre (upload_url r))"

fun upload_entries :: "upload_env \<Rightarrow> 'w upload_io \<Rightarrow> config \<Rightarrow> inline_data_entry list
    \<Rightarrow> (inline_data_entry \<Rightarrow> string option) \<Rightarrow> 'w \<Rightarrow> (inline_data_entry \<Rightarrow> string option) \<times> 'w" where
  "upload_entries env io c [] rs w = (rs, w)"
| "upload_entries env io c (e # es) rs w =
     (case upload_inline_data_base64 env io c (img_data e) (img_mime e) w of
        (Inl err, w') \<Rightarrow> upload_entries env io c es rs w'
      | (Inr r, w') \<Rightarrow> upload_entries env io c es (rs(e \<mapsto> final_url env c r)) w')"

definition finalize_output_urls :: "upload_env \<Rightarrow> 'w upload_io \<Rightarrow> config \<Rightarrow> json \<Rightarrow> (json, 'w) io" where
  "finalize_output_urls env io c body w =
     (case upload_entries env io c (scan_inline_data_base64_entries body) Map.empty w of
        (rs, w') \<Rightarrow> (Ok (patch_inline_data_urls rs body), w'))"

fun optimize_entries :: "(bytes \<Rightarrow> string) \<Rightarrow> (bytes \<Rightarrow> bytes option) \<Rightarrow> codec \<Rightarrow> bool \<Rightarrow> nat \<Rightarrow> u8 \<Rightarrow> inline_data_entry list
    \<Rightarrow> (inline_data_entry \<Rightarrow> inline_data_replacement option) \<Rightarrow> anyhow + (inline_data_entry \<Rightarrow> inline_data_replacement option)" where
  "optimize_entries enc dec cd enabled threshold quality [] rs = Ok rs"
| "optimize_entries enc dec cd enabled threshold quality (e # es) rs =
     (case dec (img_data e) of
        None \<Rightarrow> optimize_entries enc dec cd enabled threshold quality es rs
      | Some image_bytes \<Rightarrow>
          (case maybe_compress_png_bytes_with_options cd image_bytes (img_mime e) enabled threshold quality of
             Inl err \<Rightarrow> Err err
           | Inr opt \<Rightarrow>
               if optimized_mime opt = img_mime e \<and> optimized_bytes opt = image_bytes
               then optimize_entries enc dec cd enabled threshold quality es rs
               else optimize_entries enc dec cd enabled threshold quality es
                      (rs(e \<mapsto> \<lparr>repl_mime_type = optimized_mime opt, repl_data = enc (optimized_bytes opt)\<rparr>))))"

definition optimize_inline_data_images_with_options :: "(bytes \<Rightarrow> string) \<Rightarrow> (bytes \<Rightarrow> bytes option) \<Rightarrow> codec \<Rightarrow> bool \<Rightarrow> nat \<Rightarrow> u8
    \<Rightarrow> json \<Rightarrow> anyhow + json" where
  "optimize_inline_data_images_with_options enc dec cd enabled threshold quality body =
     (if \<not> enabled then Ok body
      else and_then (optimize_entries enc dec cd enabled threshold quality (scan_inline_data_base64_entries body) Map.empty)
             (\<lambda>rs. Ok (patch_inline_data_base64 rs body)))"

definition optimize_inline_data_images :: "(bytes \<Rightarrow> string) \<Rightarrow> (bytes \<Rightarrow> bytes option) \<Rightarrow> codec \<Rightarrow> config \<Rightarrow> json \<Rightarrow> anyhow + json" where
  "optimize_inline_data_images enc dec cd c body =
     optimize_inline_data_images_with_options enc dec cd (enable_image_compression c)
       PNG_COMPRESSION_THRESHOLD_BYTES (image_compression_jpeg_quality c) body"

section \<open>The images of a document\<close>

text \<open>All inline images with a MIME type, URLs included, in document order.\<close>

fun images :: "json \<Rightarrow> inline_data_entry list"
  and fields_images :: "fields \<Rightarrow> inline_data_entry list"
  and items_images :: "json list \<Rightarrow> inline_data_entry list" where
  "images (JObject m) = (case inline_entry m of None \<Rightarrow> [] | Some e \<Rightarrow> [e]) @ fields_images m"
| "images (JArray xs) = items_images xs"
| "images JNull = []"
| "images (JBool b) = []"
| "images (JNumber n) = []"
| "images (JString s) = []"
| "fields_images [] = []"
| "fields_images ((k, v) # m) = images v @ fields_images m"
| "items_images [] = []"
| "items_images (x # xs) = images x @ items_images xs"

lemma fields_images_concat: "fields_images m = concat (map (\<lambda>(k, v). images v) m)"
  by (induction m) auto

lemma items_images_concat: "items_images xs = concat (map images xs)"
  by (induction xs) auto

definition replace_entry :: "(inline_data_entry \<Rightarrow> (string option \<times> string) option) \<Rightarrow> inline_data_entry \<Rightarrow> inline_data_entry" where
  "replace_entry R e =
     (case R e of None \<Rightarrow> e | Some r \<Rightarrow> \<lparr>img_mime = unwrap_or (img_mime e) (fst r), img_data = snd r\<rparr>)"

lemma fields_images_insert:
  "map_get m k = Some (JString s) \<Longrightarrow> fields_images (map_insert k (JString t) m) = fields_images m"
  by (induction k "JString t" m rule: map_insert.induct) (auto split: if_splits)

lemma fields_images_modify:
  "(\<And>w. images (f w) = images w) \<Longrightarrow> fields_images (map_modify k f m) = fields_images m"
  by (induction k f m rule: map_modify.induct) auto

lemma images_patch_inline: "images (patch_inline R v) = images v"
  by (cases v)
    (auto simp: patch_inline_def apply_replacement_def entry_of_Some map_get_insert fields_images_insert inline_entry_def
      split: option.splits)

lemma patch_tree_string_iff: "patch_tree R v = JString s \<longleftrightarrow> v = JString s"
  by (cases v) auto

lemma patch_inline_object: "patch_inline R v = JObject i' \<longleftrightarrow> (\<exists>i. v = JObject i \<and> JObject i' = patch_inline R v)"
  by (cases v) (auto simp: patch_inline_def)

lemma entry_of_patch_fields:
  "entry_of (map (\<lambda>(k, v). (k, patch_tree R v)) (map_modify ''inlineData'' (patch_inline R) i)) = entry_of i"
proof -
  have "map_get (map (\<lambda>(k, v). (k, patch_tree R v)) (map_modify ''inlineData'' (patch_inline R) i)) t = map_option (patch_tree R) (map_get i t)"
    if "t \<noteq> ''inlineData''" for t
    using that by (simp add: map_get_map_values map_get_modify)
  then have "entry_of (map (\<lambda>(k, v). (k, patch_tree R v)) (map_modify ''inlineData'' (patch_inline R) i)) = Some e \<longleftrightarrow> entry_of i = Some e" for e
    by (simp add: entry_of_Some patch_tree_string_iff)
  then show ?thesis by (metis option.exhaust)
qed

lemma entry_of_apply:
  "entry_of i = Some e \<Longrightarrow> entry_of (apply_replacement r i) = Some \<lparr>img_mime = unwrap_or (img_mime e) (fst r), img_data = snd r\<rparr>"
  by (cases "fst r") (auto simp: entry_of_Some apply_replacement_def map_get_insert)

lemma inline_entry_patch:
  "inline_entry (map (\<lambda>(k, v). (k, patch_tree R v)) (map_modify ''inlineData'' (patch_inline R) m)) = map_option (replace_entry R) (inline_entry m)"
proof (cases "map_get m ''inlineData''")
  case (Some w)
  show ?thesis
  proof (cases w)
    case (JObject i)
    with Some show ?thesis
      by (auto simp: inline_entry_def map_get_map_values map_get_modify patch_inline_def entry_of_patch_fields
          entry_of_apply replace_entry_def split: option.splits)
  qed (use Some in \<open>simp_all add: inline_entry_def map_get_map_values map_get_modify patch_inline_def\<close>)
qed (simp add: inline_entry_def map_get_map_values map_get_modify)

lemma images_patch: "images (patch_tree R v) = map (replace_entry R) (images v)"
proof (induction R v rule: patch_tree.induct)
  case (1 R m)
  let ?m = "map_modify ''inlineData'' (patch_inline R) m"
  have "fields_images (map (\<lambda>(k, v). (k, patch_tree R v)) ?m) = concat (map (\<lambda>(k, v). images (patch_tree R v)) ?m)"
    by (simp add: fields_images_concat comp_def split_def)
  also have "\<dots> = concat (map (\<lambda>(k, v). map (replace_entry R) (images v)) ?m)"
    using 1 by (intro arg_cong [where f = concat] map_cong) auto
  also have "\<dots> = map (replace_entry R) (fields_images ?m)"
    by (simp add: fields_images_concat map_concat comp_def split_def)
  also have "fields_images ?m = fields_images m"
    by (rule fields_images_modify) (rule images_patch_inline)
  finally show ?case by (simp add: inline_entry_patch split: option.split)
next
  case (2 R xs)
  then have "concat (map (images \<circ> patch_tree R) xs) = concat (map (map (replace_entry R) \<circ> images) xs)"
    by (intro arg_cong [where f = concat] map_cong) auto
  then show ?case by (simp add: items_images_concat map_concat)
qed simp_all

section \<open>Scanning\<close>

definition base64_entry :: "inline_data_entry \<Rightarrow> bool" where
  "base64_entry e \<longleftrightarrow> \<not> is_url_like (img_data e)"

definition add_new :: "inline_data_entry \<Rightarrow> inline_data_entry list \<Rightarrow> inline_data_entry list" where
  "add_new e es = (if base64_entry e \<and> e \<notin> set es then es @ [e] else es)"

lemma scan_walk_fold:
  "scan_walk v es = fold add_new (images v) es"
  "scan_walk_fields m es = fold add_new (fields_images m) es"
  "scan_walk_items xs es = fold add_new (items_images xs) es"
  by (induction v es and m es and xs es rule: scan_walk_scan_walk_fields_scan_walk_items.induct)
    (auto simp: push_entry_def add_new_def base64_entry_def split: option.splits)

lemma fold_add_new:
  "distinct es \<Longrightarrow> distinct (fold add_new is es) \<and> set (fold add_new is es) = set es \<union> {e \<in> set is. base64_entry e}"
  by (induction "is" arbitrary: es) (auto simp: add_new_def)

lemma scan_entries:
  "distinct (scan_inline_data_base64_entries v)"
  "set (scan_inline_data_base64_entries v) = {e \<in> set (images v). base64_entry e}"
  using fold_add_new [of "[]" "images v"] by (simp_all add: scan_inline_data_base64_entries_def scan_walk_fold)

section \<open>Properties\<close>

definition uploaded_as :: "upload_env \<Rightarrow> 'w upload_io \<Rightarrow> config \<Rightarrow> inline_data_entry \<Rightarrow> string \<Rightarrow> bool" where
  "uploaded_as env io c e u \<longleftrightarrow>
     (\<exists>w1 w2 r. upload_inline_data_base64 env io c (img_data e) (img_mime e) w1 = (Ok r, w2) \<and> u = final_url env c r)"

definition upload_failed :: "upload_env \<Rightarrow> 'w upload_io \<Rightarrow> config \<Rightarrow> inline_data_entry \<Rightarrow> bool" where
  "upload_failed env io c e \<longleftrightarrow>
     (\<exists>w1 w2 err. upload_inline_data_base64 env io c (img_data e) (img_mime e) w1 = (Err err, w2))"

lemma upload_entries_spec:
  assumes "upload_entries env io c es rs w = (rs', w')" "distinct es"
  shows "(\<forall>e. e \<notin> set es \<longrightarrow> rs' e = rs e)
    \<and> (\<forall>e \<in> set es. (\<exists>u. rs' e = Some u \<and> uploaded_as env io c e u) \<or> (rs' e = rs e \<and> upload_failed env io c e))"
  using assms
proof (induction es arbitrary: rs w)
  case (Cons a es)
  obtain r w1 where up: "upload_inline_data_base64 env io c (img_data a) (img_mime a) w = (r, w1)" by fastforce
  show ?case
  proof (cases r)
    case (Inl err)
    with up Cons.prems have rest: "upload_entries env io c es rs w1 = (rs', w')" by simp
    moreover from up Inl have "upload_failed env io c a" by (auto simp: upload_failed_def)
    ultimately show ?thesis using Cons.IH [OF rest] Cons.prems(2) by simp
  next
    case (Inr u)
    with up Cons.prems have rest: "upload_entries env io c es (rs(a \<mapsto> final_url env c u)) w1 = (rs', w')" by simp
    moreover from up Inr have "uploaded_as env io c a (final_url env c u)" by (auto simp: uploaded_as_def)
    ultimately show ?thesis using Cons.IH [OF rest] Cons.prems(2) by (auto simp: fun_upd_def split: if_splits)
  qed
qed simp



lemma optimize_entries_spec:
  assumes "optimize_entries enc dec cd en th q es rs = Ok rs'"
  shows "\<forall>e p. rs' e = Some p \<longrightarrow> rs e = Some p
    \<or> (\<exists>x opt. dec (img_data e) = Some x
         \<and> maybe_compress_png_bytes_with_options cd x (img_mime e) en th q = Ok opt
         \<and> p = \<lparr>repl_mime_type = optimized_mime opt, repl_data = enc (optimized_bytes opt)\<rparr>)"
  using assms
proof (induction es arbitrary: rs)
  case (Cons a es)
  consider "optimize_entries enc dec cd en th q es rs = Ok rs'"
    | x opt where "dec (img_data a) = Some x" "maybe_compress_png_bytes_with_options cd x (img_mime a) en th q = Ok opt"
        "optimize_entries enc dec cd en th q es (rs(a \<mapsto> \<lparr>repl_mime_type = optimized_mime opt, repl_data = enc (optimized_bytes opt)\<rparr>)) = Ok rs'"
    using Cons.prems by (auto split: option.splits sum.splits if_splits)
  then show ?case
  proof cases
    case 1
    then show ?thesis by (rule Cons.IH)
  next
    case 2
    from Cons.IH [OF 2(3)] 2(1,2) show ?thesis by (auto split: if_splits)
  qed
qed simp

lemma compressed_length:
  assumes "base64_engine enc dec" "dec d = Some x" "length y \<le> length x"
  shows "length (enc y) \<le> length d"
proof -
  from base64_engine.dec_len [OF assms(1,2)] have "4 dvd length d" "length x \<le> length d div 4 * 3" by auto
  then have "(length y + 2) div 3 * 4 \<le> length d" using assms(3) by auto
  then show ?thesis by (simp add: base64_engine.enc_len [OF assms(1)])
qed

lemma compress_length:
  "maybe_compress_png_bytes_with_options cd b mime en th q = Ok opt \<Longrightarrow> length (optimized_bytes opt) \<le> length b"
  by (auto simp: maybe_compress_png_bytes_with_options_def Let_def and_then_eq_Ok split: if_splits)

text \<open>
  Recompression keeps the images in their places and never lengthens the text of one: each
  is what it was, or the encoding of what the recompression of its decoded bytes returned.
\<close>

theorem optimize_never_lengthens:
  assumes "base64_engine enc dec"
    and "optimize_inline_data_images_with_options enc dec cd enabled threshold quality body = Ok body'"
  shows "list_all2 (\<lambda>e e'. e' = e \<or> (length (img_data e') \<le> length (img_data e)
        \<and> (\<exists>x opt. dec (img_data e) = Some x
             \<and> maybe_compress_png_bytes_with_options cd x (img_mime e) enabled threshold quality = Ok opt
             \<and> e' = \<lparr>img_mime = optimized_mime opt, img_data = enc (optimized_bytes opt)\<rparr>)))
      (images body) (images body')"
proof (cases enabled)
  case False
  with assms(2) show ?thesis by (simp add: optimize_inline_data_images_with_options_def list.rel_refl)
next
  case True
  with assms(2) obtain rs where rs: "optimize_entries enc dec cd enabled threshold quality (scan_inline_data_base64_entries body) Map.empty = Ok rs"
      "body' = patch_inline_data_base64 rs body"
    by (auto simp: optimize_inline_data_images_with_options_def and_then_eq_Ok)
  note spec = optimize_entries_spec [OF rs(1)]
  show ?thesis
    unfolding rs(2) patch_inline_data_base64_def images_patch list_all2_map2
    by (rule list.rel_refl_strong)
      (use spec compressed_length [OF assms(1)] compress_length in \<open>fastforce simp: replace_entry_def split: option.splits\<close>)
qed

theorem optimize_never_lengthens_witness:
  "\<exists>body'. optimize_inline_data_images_with_options rfc_encode rfc_decode demo_codec True 2 75 (image_part ''YWJj'') = Ok body'
     \<and> list_all2 (\<lambda>e e'. length (img_data e') \<le> length (img_data e)) (images (image_part ''YWJj'')) (images body')"
proof -
  have "\<exists>body'. optimize_inline_data_images_with_options rfc_encode rfc_decode demo_codec True 2 75 (image_part ''YWJj'') = Ok body'"
  proof -
    have s: "scan_inline_data_base64_entries (image_part ''YWJj'') = [\<lparr>img_mime = ''image/png'', img_data = ''YWJj''\<rparr>]" by code_simp
    have d: "rfc_decode ''YWJj'' = Some ''abc''" by code_simp
    have t: "to_ascii_lowercase (str_trim ''image/png'') = ''image/png''" by code_simp
    have e: "maybe_compress_png_bytes_with_options demo_codec ''abc'' ''image/png'' True 2 75
        = Ok \<lparr>optimized_mime = ''image/jpeg'', optimized_bytes = ''ab''\<rparr>"
      by (simp add: maybe_compress_png_bytes_with_options_def t demo_codec_def)
    show ?thesis
      by (simp add: optimize_inline_data_images_with_options_def s d e del: rfc_decode.simps)
  qed
  then obtain body' where b: "optimize_inline_data_images_with_options rfc_encode rfc_decode demo_codec True 2 75 (image_part ''YWJj'') = Ok body'" ..
  from optimize_never_lengthens [OF rfc.base64_engine_axioms b] b show ?thesis
    by (intro exI [where x = body']) (auto elim!: list_all2_mono)
qed

end
