(* ===== verification/App_State.thy ===== *)
theory App_State
  imports Request_Rewrite Proxy_Replies
begin

text \<open>
  The state shared by the handlers and what they do around a request: \<open>AppState\<close> and
  \<open>build_router\<close> with its routes, the configured fetch services (constructors in
  rust-sync-proxy/src/cache.rs), the request part of a log entry, the count of cache hits, the
  admin endpoints and the last step of every handler, \<open>finalize_admin_response\<close>
  (rust-sync-proxy/src/http/router.rs).

  The state is an explicit record that the handlers return updated.  Serving an admin page is
  the value \<open>LogsPage\<close>; the text of the page is not modelled.

  Shown here: which services a configuration yields; that without the password no admin
  endpoint gives anything away; and that the last step answers with exactly the handler's
  bytes while it adds one entry to the log and counts it.
\<close>

section \<open>Clients and fetch services\<close>

record client_settings =
  client_timeout :: u64
  client_connect_timeout :: u64
  client_tcp_keepalive :: "u64 option"
  client_pool_idle_timeout :: "u64 option"
  client_accept_invalid_certs :: bool

datatype http_client = Built client_settings | DefaultClient

text \<open>Whether \<open>reqwest\<close> can build a client is a parameter.\<close>

definition build_client :: "(client_settings \<Rightarrow> bool) \<Rightarrow> client_settings \<Rightarrow> http_client" where
  "build_client builds s = (if builds s then Built s else DefaultClient)"

definition build_http_client :: "(client_settings \<Rightarrow> bool) \<Rightarrow> u64 \<Rightarrow> u64 \<Rightarrow> bool \<Rightarrow> http_client" where
  "build_http_client builds timeout tls_handshake_timeout insecure =
     build_client builds
       \<lparr>client_timeout = timeout, client_connect_timeout = tls_handshake_timeout, client_tcp_keepalive = None,
        client_pool_idle_timeout = None, client_accept_invalid_certs = insecure\<rparr>"

definition build_upstream_client :: "(client_settings \<Rightarrow> bool) \<Rightarrow> config \<Rightarrow> http_client" where
  "build_upstream_client builds c =
     build_client builds
       \<lparr>client_timeout = upstream_timeout c, client_connect_timeout = upstream_connect_timeout c,
        client_tcp_keepalive = Some (upstream_tcp_keepalive c),
        client_pool_idle_timeout = Some (upstream_pool_idle_timeout c), client_accept_invalid_certs = False\<rparr>"

definition disk_new :: "u64 \<Rightarrow> u64 \<Rightarrow> disk_cache" where
  "disk_new ttl m = \<lparr>ttl_ms = unat ttl, disk_max_bytes = m\<rparr>"

text \<open>A service with its caches; \<open>disk_of\<close> gives what a directory holds.\<close>

record 'c fetcher =
  fetcher_client :: http_client
  fetcher_service :: fetch_service
  fetcher_caches :: "'c caches"

definition from_config_with_png_optimization :: "'c lru_ops \<Rightarrow> (string \<Rightarrow> disk) \<Rightarrow> config \<Rightarrow> http_client \<Rightarrow> nat \<Rightarrow> bool
    \<Rightarrow> bool \<Rightarrow> nat \<Rightarrow> bool \<Rightarrow> 'c fetcher option" where
  "from_config_with_png_optimization L disk_of c client max_image_bytes allow_private optimize inflight_limit bridge =
     (if str_trim (inline_data_url_cache_dir c) = []
         \<and> inline_data_url_background_fetch_total_timeout c = 0
         \<and> inline_data_url_memory_cache_max_bytes c = 0
      then None
      else
        (let mem = (if inline_data_url_memory_cache_max_bytes c > 0
                    then Some (memory_new L (inline_data_url_memory_cache_max_bytes c)) else None);
             dsk = (if str_trim (inline_data_url_cache_dir c) \<noteq> [] \<and> inline_data_url_cache_ttl c \<noteq> 0
                       \<and> inline_data_url_cache_max_bytes c > 0
                    then Some (disk_new (inline_data_url_cache_ttl c) (inline_data_url_cache_max_bytes c),
                               disk_of (inline_data_url_cache_dir c))
                    else None)
         in Some \<lparr>fetcher_client = client,
              fetcher_service =
                \<lparr>svc_max_image_bytes = max_image_bytes, svc_allow_private_networks = allow_private,
                 optimize_large_png_as_webp = optimize,
                 external_proxy_domains = image_fetch_external_proxy_domains c,
                 wait_timeout = unat (inline_data_url_background_fetch_wait_timeout c),
                 total_timeout = unat (inline_data_url_background_fetch_total_timeout c),
                 max_inflight = inflight_limit, enable_background_bridge = bridge\<rparr>,
              fetcher_caches = \<lparr>memory = mem, disk_part = dsk\<rparr>\<rparr>))"

definition from_config :: "'c lru_ops \<Rightarrow> (string \<Rightarrow> disk) \<Rightarrow> config \<Rightarrow> http_client \<Rightarrow> nat \<Rightarrow> bool \<Rightarrow> 'c fetcher option" where
  "from_config L disk_of c client max_image_bytes allow_private =
     from_config_with_png_optimization L disk_of c client max_image_bytes allow_private
       (enable_request_image_webp_optimization c) (inline_data_url_background_fetch_max_inflight c) True"

definition from_response_config :: "'c lru_ops \<Rightarrow> (string \<Rightarrow> disk) \<Rightarrow> config \<Rightarrow> http_client \<Rightarrow> nat \<Rightarrow> bool \<Rightarrow> 'c fetcher option" where
  "from_response_config L disk_of c client max_image_bytes allow_private =
     from_config_with_png_optimization L disk_of c client max_image_bytes allow_private
       False (max (inline_data_url_background_fetch_max_inflight c) 1) False"

section \<open>The router and its state\<close>

record 'c app_state =
  app_config :: config
  upstream_client :: http_client
  image_http_client :: http_client
  upload_client :: http_client
  app_admin :: "admin_state option"
  request_fetcher :: "'c fetcher option"
  response_fetcher :: "'c fetcher option"
  app_blobs :: runtime
  slow_warnings :: "(string \<times> u16 \<times> i64) list"

record 'c host =
  host_lru :: "'c lru_ops"
  client_builds :: "client_settings \<Rightarrow> bool"
  host_disk :: "string \<Rightarrow> disk"
  host_files :: "string \<Rightarrow> bytes option"
  host_io_error :: "string \<Rightarrow> string option"

definition blob_config :: "config \<Rightarrow> blob_runtime_config" where
  "blob_config c =
     \<lparr>inline_max_bytes = blob_inline_max_bytes c, request_hot_budget_bytes = blob_request_hot_budget_bytes c,
      global_hot_budget_bytes = blob_global_hot_budget_bytes c, spill_dir = blob_spill_dir c\<rparr>"

definition build_router :: "'c host \<Rightarrow> config \<Rightarrow> 'c app_state" where
  "build_router H c =
     (let image = build_http_client (client_builds H) (image_fetch_timeout c) (image_tls_handshake_timeout c)
                    (image_fetch_insecure_skip_verify c)
      in \<lparr>app_config = c,
          upstream_client = build_upstream_client (client_builds H) c,
          image_http_client = image,
          upload_client = build_http_client (client_builds H) (upload_timeout c) (upload_tls_handshake_timeout c)
                            (upload_insecure_skip_verify c),
          app_admin = (if str_trim (admin_password c) = [] then None else Some (admin_new (admin_password c))),
          request_fetcher = from_config (host_lru H) (host_disk H) c image REQUEST_MAX_IMAGE_BYTES False,
          response_fetcher = from_response_config (host_lru H) (host_disk H) c image DEFAULT_MAX_IMAGE_BYTES False,
          app_blobs = runtime_new (blob_config c) (host_files H) (host_io_error H), slow_warnings = []\<rparr>)"

datatype route = AdminRoot | AdminLogs | AdminApiLogs | AdminApiStats | ImagesGenerations | Model string

datatype routed = Handled route | NoRoute | MethodNotAllowed | InvalidPath

definition models_prefix :: string where
  "models_prefix = ''/v1beta/models/''"

text \<open>\<open>get\<close> routes answer \<open>HEAD\<close> too; \<open>decode\<close> undoes the percent encoding of \<open>{*rest}\<close>, which is not empty.\<close>

definition route_path :: "(string \<Rightarrow> string option) \<Rightarrow> string \<Rightarrow> (string list \<times> routed) option" where
  "route_path decode p =
     (if p = ''/admin'' \<or> p = ''/admin/'' then Some ([''GET'', ''HEAD''], Handled AdminRoot)
      else if p = ''/admin/logs'' then Some ([''GET'', ''HEAD''], Handled AdminLogs)
      else if p = ''/admin/api/logs'' then Some ([''GET'', ''HEAD''], Handled AdminApiLogs)
      else if p = ''/admin/api/stats'' then Some ([''GET'', ''HEAD''], Handled AdminApiStats)
      else if p = ''/v1/images/generations'' then Some ([''POST''], Handled ImagesGenerations)
      else case strip_prefix models_prefix p of
             None \<Rightarrow> None
           | Some rest \<Rightarrow>
               if rest = [] then None
               else Some ([''POST''], case decode rest of None \<Rightarrow> InvalidPath | Some r \<Rightarrow> Handled (Model r)))"

definition route_request :: "(string \<Rightarrow> string option) \<Rightarrow> string \<Rightarrow> string \<Rightarrow> routed" where
  "route_request decode m p =
     (case route_path decode p of
        None \<Rightarrow> NoRoute
      | Some (methods, r) \<Rightarrow> if m \<in> set methods then r else MethodNotAllowed)"

section \<open>Around a request\<close>

text \<open>The JSON parser and printers, with the texts of their errors.\<close>

record json_lib =
  parse_json :: "bytes \<Rightarrow> string + json"
  print_json :: "json \<Rightarrow> string + bytes"
  print_pretty :: "json \<Rightarrow> string option"

definition ok_of :: "'e + 'a \<Rightarrow> 'a option" where
  "ok_of r = (case r of Inl _ \<Rightarrow> None | Inr x \<Rightarrow> Some x)"

definition log_json :: "json_lib \<Rightarrow> json_io" where
  "log_json J = \<lparr>from_slice = \<lambda>b. ok_of (parse_json J b), to_string_pretty = print_pretty J\<rparr>"

record request_log_snapshot =
  snap_request_raw :: "sanitized_admin_log option"

definition sanitize_request_body_for_log :: "json_lib \<Rightarrow> bytes \<Rightarrow> bool \<Rightarrow> sanitized_admin_log option" where
  "sanitize_request_body_for_log J raw enabled = maybe_sanitize_json_for_log (log_json J) raw enabled"

definition from_request_body :: "json_lib \<Rightarrow> bytes \<Rightarrow> bool \<Rightarrow> request_log_snapshot" where
  "from_request_body J raw enabled = \<lparr>snap_request_raw = sanitize_request_body_for_log J raw enabled\<rparr>"

definition apply_to_entry :: "request_log_snapshot \<Rightarrow> admin_log_entry \<Rightarrow> admin_log_entry" where
  "apply_to_entry snap e =
     (case snap_request_raw snap of
        None \<Rightarrow> e
      | Some v \<Rightarrow> e\<lparr>request_raw := pretty v, request_raw_images := image_urls v\<rparr>)"

definition base_entry :: "request_log_snapshot \<Rightarrow> admin_log_entry" where
  "base_entry snap = apply_to_entry snap default_entry"

text \<open>
  The tracking of cache hits: the observer exists when there are statistics, and a hit counts
  and leaves its URL.
\<close>

record request_cache_tracking =
  observing :: bool
  hit_urls :: "string list"

definition build_request_cache_tracking :: "admin_stats option \<Rightarrow> request_cache_tracking" where
  "build_request_cache_tracking sts = \<lparr>observing = (sts \<noteq> None), hit_urls = []\<rparr>"

definition observe :: "string \<times> bool \<Rightarrow> admin_stats \<times> request_cache_tracking \<Rightarrow> admin_stats \<times> request_cache_tracking" where
  "observe seen st =
     (case (seen, st) of
        ((raw_url, hit), (s, t)) \<Rightarrow>
          if hit then (s\<lparr>st_cache_hits := st_cache_hits s + 1\<rparr>, t\<lparr>hit_urls := hit_urls t @ [raw_url]\<rparr>) else (s, t))"

definition update_request_cache_hits :: "request_cache_tracking \<Rightarrow> admin_log_entry \<Rightarrow> admin_log_entry" where
  "update_request_cache_hits t e = e\<lparr>request_raw_image_cache_hits := hit_urls t\<rparr>"

text \<open>
  The warnings about slow requests that the process has printed: path, status and duration;
  durations compare as signed words.
\<close>

definition log_slow_request :: "admin_log_entry \<Rightarrow> 'c app_state \<Rightarrow> 'c app_state" where
  "log_slow_request e st =
     (let threshold = slow_log_threshold (app_config st)
      in if threshold = 0 then st
         else if sint (duration_ms e) < sint threshold then st
         else st\<lparr>slow_warnings := slow_warnings st @ [(entry_path e, entry_status_code e, duration_ms e)]\<rparr>)"

text \<open>
  \<open>into_response\<close>: the bytes of a response.  A JSON body that could not be printed would be
  \<open>axum\<close>'s plain text answer with status 500.
\<close>

definition into_response :: "json_lib \<Rightarrow> down_response \<Rightarrow> down_response" where
  "into_response J r =
     (case down_body r of
        RawBytes b \<Rightarrow> r
      | JsonBody v \<Rightarrow>
          (case print_json J v of
             Inr b \<Rightarrow> r\<lparr>down_body := RawBytes b\<rparr>
           | Inl t \<Rightarrow> \<lparr>down_status = 500, down_content_type = ''text/plain; charset=utf-8'', down_body = RawBytes t\<rparr>))"

definition response_bytes :: "json_lib \<Rightarrow> down_response \<Rightarrow> bytes" where
  "response_bytes J r = (case down_body (into_response J r) of RawBytes b \<Rightarrow> b | JsonBody v \<Rightarrow> [])"

definition log_response :: "json_lib \<Rightarrow> nat \<Rightarrow> bytes \<Rightarrow> admin_log_entry \<Rightarrow> admin_log_entry" where
  "log_response J st body_bytes e =
     (if body_bytes = [] then e
      else
        (let sanitized = sanitize_json_for_log (log_json J) body_bytes;
             e1 = e\<lparr>response_images := image_urls sanitized, response_downstream := pretty sanitized\<rparr>
         in case parse_json J body_bytes of
              Inl _ \<Rightarrow> e1
            | Inr v \<Rightarrow>
                apply_admin_error_fields st v (pretty sanitized)
                  (e1\<lparr>finish_reason := unwrap_or [] (extract_finish_reason v)\<rparr>)))"

definition finalize_admin_response :: "json_lib \<Rightarrow> down_response \<Rightarrow> admin_log_entry \<Rightarrow> 'c app_state
    \<Rightarrow> down_response \<times> 'c app_state" where
  "finalize_admin_response J response e st0 =
     (let st = log_slow_request e st0
      in case app_admin st of
           None \<Rightarrow> (into_response J response, st)
         | Some a \<Rightarrow>
             (let r = into_response J response;
                  e1 = log_response J (down_status r) (response_bytes J response) e;
                  e2 = e1\<lparr>entry_status_code := of_nat (down_status r)\<rparr>
              in (r, st\<lparr>app_admin := Some (admin_record e2 (a\<lparr>stats := apply_admin_stats e2 (stats a)\<rparr>))\<rparr>)))"

section \<open>The admin endpoints\<close>

datatype admin_answer =
    NotFound
  | Unauthorized down_response bytes
  | Redirect string
  | LogsPage
  | LogItems "admin_log_entry list"
  | StatsPayload admin_stats_payload

text \<open>The second part is the \<open>WWW-Authenticate\<close> header.\<close>

definition unauthorized_response :: admin_answer where
  "unauthorized_response =
     Unauthorized (short_error 401 ''Unauthorized'') (''Basic realm='' @ CHR 0x22 # ''banana-proxy-admin'' @ [CHR 0x22])"

definition authorize_admin :: "(bytes \<Rightarrow> bytes option) \<Rightarrow> 'c app_state \<Rightarrow> (string \<times> bytes) list \<Rightarrow> admin_answer option" where
  "authorize_admin dec st headers =
     (case app_admin st of
        None \<Rightarrow> Some NotFound
      | Some a \<Rightarrow> if \<not> check_basic_auth dec a headers then Some unauthorized_response else None)"

definition admin_root :: "(bytes \<Rightarrow> bytes option) \<Rightarrow> 'c app_state \<Rightarrow> (string \<times> bytes) list \<Rightarrow> admin_answer" where
  "admin_root dec st headers =
     (case authorize_admin dec st headers of Some r \<Rightarrow> r | None \<Rightarrow> Redirect ''/admin/logs'')"

definition admin_logs_page :: "(bytes \<Rightarrow> bytes option) \<Rightarrow> 'c app_state \<Rightarrow> (string \<times> bytes) list \<Rightarrow> admin_answer" where
  "admin_logs_page dec st headers =
     (case authorize_admin dec st headers of Some r \<Rightarrow> r | None \<Rightarrow> LogsPage)"

definition admin_logs_api :: "(bytes \<Rightarrow> bytes option) \<Rightarrow> 'c app_state \<Rightarrow> (string \<times> bytes) list \<Rightarrow> admin_answer" where
  "admin_logs_api dec st headers =
     (case authorize_admin dec st headers of
        Some r \<Rightarrow> r
      | None \<Rightarrow> (case app_admin st of Some a \<Rightarrow> LogItems (admin_logs_response a) | None \<Rightarrow> NotFound))"

definition admin_stats_api :: "(bytes \<Rightarrow> bytes option) \<Rightarrow> 'c app_state \<Rightarrow> (string \<times> bytes) list \<Rightarrow> admin_answer" where
  "admin_stats_api dec st headers =
     (case authorize_admin dec st headers of
        Some r \<Rightarrow> r
      | None \<Rightarrow> (case app_admin st of
                 Some a \<Rightarrow> StatsPayload (admin_stats_response a (stats_snapshot (app_blobs st)))
               | None \<Rightarrow> NotFound))"

definition serve_admin :: "(bytes \<Rightarrow> bytes option) \<Rightarrow> route \<Rightarrow> (string \<times> bytes) list \<Rightarrow> 'c app_state \<Rightarrow> admin_answer option" where
  "serve_admin dec r headers st =
     (case r of
        AdminRoot \<Rightarrow> Some (admin_root dec st headers)
      | AdminLogs \<Rightarrow> Some (admin_logs_page dec st headers)
      | AdminApiLogs \<Rightarrow> Some (admin_logs_api dec st headers)
      | AdminApiStats \<Rightarrow> Some (admin_stats_api dec st headers)
      | _ \<Rightarrow> None)"

section \<open>The last step of a handler\<close>

lemma log_slow_request_keeps [simp]:
  "app_admin (log_slow_request e st) = app_admin st" "app_blobs (log_slow_request e st) = app_blobs st"
  "app_config (log_slow_request e st) = app_config st"
  by (simp_all add: log_slow_request_def Let_def)

lemma apply_admin_error_fields_keeps [simp]:
  "response_downstream (apply_admin_error_fields n v t e) = response_downstream e"
  "entry_method (apply_admin_error_fields n v t e) = entry_method e" "entry_path (apply_admin_error_fields n v t e) = entry_path e"
  "entry_query (apply_admin_error_fields n v t e) = entry_query e" "duration_ms (apply_admin_error_fields n v t e) = duration_ms e"
  "request_raw (apply_admin_error_fields n v t e) = request_raw e" "request_upstream (apply_admin_error_fields n v t e) = request_upstream e"
  "request_raw_image_cache_hits (apply_admin_error_fields n v t e) = request_raw_image_cache_hits e"
  by (auto simp: apply_admin_error_fields_def Let_def split: option.splits json.splits)

lemma log_response_keeps [simp]:
  "entry_method (log_response J n b e) = entry_method e" "entry_path (log_response J n b e) = entry_path e"
  "entry_query (log_response J n b e) = entry_query e" "duration_ms (log_response J n b e) = duration_ms e"
  "request_raw (log_response J n b e) = request_raw e" "request_upstream (log_response J n b e) = request_upstream e"
  "request_raw_image_cache_hits (log_response J n b e) = request_raw_image_cache_hits e"
  by (simp_all add: log_response_def Let_def split: sum.split)

lemma log_response_downstream:
  "response_downstream (log_response J n b e) =
     (if b = [] then response_downstream e else pretty (sanitize_json_for_log (log_json J) b))"
  by (simp add: log_response_def Let_def split: sum.split)

lemma into_response_raw: "\<exists>b. down_body (into_response J r) = RawBytes b \<and> response_bytes J r = b"
  by (auto simp: response_bytes_def into_response_def split: response_body.split sum.split)

lemma admin_record_snapshot:
  "snapshot_logs (admin_record e a) = take 100 (e\<lparr>entry_id := log_next_id (logs a) + 1\<rparr> # snapshot_logs a)"
  "password (admin_record e a) = password a" "stats (admin_record e a) = stats a"
  by (simp_all add: snapshot_logs_def admin_record_def Let_def pop_back_loop_eq ADMIN_LOG_CAPACITY_def)

lemma snapshot_logs_stats [simp]: "snapshot_logs (a\<lparr>stats := x\<rparr>) = snapshot_logs a"
  by (simp add: snapshot_logs_def)

text \<open>The entry \<open>e'\<close> that is logged for an answer \<open>r\<close>, beside what the handler put into \<open>e\<close>.\<close>

definition logged_as :: "json_lib \<Rightarrow> down_response \<Rightarrow> admin_log_entry \<Rightarrow> admin_log_entry \<Rightarrow> bool" where
  "logged_as J r e e' \<longleftrightarrow>
     entry_status_code e' = of_nat (down_status r)
   \<and> (entry_method e', entry_path e', entry_query e', duration_ms e') = (entry_method e, entry_path e, entry_query e, duration_ms e)
   \<and> request_raw e' = request_raw e \<and> request_upstream e' = request_upstream e
   \<and> request_raw_image_cache_hits e' = request_raw_image_cache_hits e
   \<and> (\<exists>b. down_body r = RawBytes b \<and>
        response_downstream e' = (if b = [] then response_downstream e else pretty (sanitize_json_for_log (log_json J) b)))"

definition logs_one :: "admin_state \<Rightarrow> admin_log_entry \<Rightarrow> admin_state \<Rightarrow> bool" where
  "logs_one a e a' \<longleftrightarrow>
     password a' = password a \<and> entry_id e = log_next_id (logs a) + 1 \<and> snapshot_logs a' = take 100 (e # snapshot_logs a)
   \<and> st_total_requests (stats a') = st_total_requests (stats a) + 1
   \<and> st_error_requests (stats a') = st_error_requests (stats a) + (if entry_status_code e \<ge> 400 then 1 else 0)
   \<and> st_total_duration_ms (stats a') = st_total_duration_ms (stats a) + duration_ms e
   \<and> st_cache_hits (stats a') = st_cache_hits (stats a)"

lemma finalize_effect:
  assumes "finalize_admin_response J response e st = (r, st')"
  shows "r = into_response J response" "app_blobs st' = app_blobs st" "app_config st' = app_config st"
    "app_admin st = None \<Longrightarrow> app_admin st' = None"
    "app_admin st = Some a \<Longrightarrow> \<exists>a' e'. app_admin st' = Some a' \<and> logs_one a e' a' \<and> logged_as J r e e'"
proof -
  show "r = into_response J response" "app_blobs st' = app_blobs st" "app_config st' = app_config st"
    "app_admin st = None \<Longrightarrow> app_admin st' = None"
    using assms by (auto simp: finalize_admin_response_def Let_def split: option.splits)
  assume a: "app_admin st = Some a"
  define e1 where "e1 = (log_response J (down_status r) (response_bytes J response) e)\<lparr>entry_status_code := of_nat (down_status r)\<rparr>"
  define a' where "a' = admin_record e1 (a\<lparr>stats := apply_admin_stats e1 (stats a)\<rparr>)"
  have r: "r = into_response J response" "app_admin st' = Some a'"
    using assms a by (auto simp: finalize_admin_response_def Let_def e1_def a'_def)
  obtain b where b: "down_body r = RawBytes b" "response_bytes J response = b" using into_response_raw r(1) by blast
  let ?e = "e1\<lparr>entry_id := log_next_id (logs a) + 1\<rparr>"
  have "logs_one a ?e a'" by (simp add: logs_one_def a'_def admin_record_snapshot apply_admin_stats_def del: take_Suc_Cons)
  moreover have "logged_as J r e ?e" using b by (simp add: logged_as_def e1_def log_response_downstream)
  ultimately show "\<exists>a' e'. app_admin st' = Some a' \<and> logs_one a e' a' \<and> logged_as J r e e'" using r(2) by blast
qed

section \<open>Properties\<close>

lemma check_basic_auth_password:
  assumes "password a = password b"
  shows "check_basic_auth dec a h = check_basic_auth dec b h"
  unfolding check_basic_auth_def admin_enabled_def assms ..

lemma authorize_cases:
  obtains (absent) "app_admin st = None" "authorize_admin dec st h = Some NotFound"
  | (denied) a where "app_admin st = Some a" "\<not> check_basic_auth dec a h" "authorize_admin dec st h = Some unauthorized_response"
  | (granted) a where "app_admin st = Some a" "check_basic_auth dec a h" "authorize_admin dec st h = None"
  by (cases "app_admin st"; cases "check_basic_auth dec (the (app_admin st)) h") (auto simp: authorize_admin_def)

lemmas admin_endpoint_defs = serve_admin_def admin_root_def admin_logs_page_def admin_logs_api_def admin_stats_api_def

text \<open>
  C18: Without the password nothing is given away.  An admin endpoint answers with a refusal exactly
  when there is no admin password or the request lacks it, and a refusal depends on nothing
  but the password: any other state with the same password, whatever it has logged and
  counted, gives the same answer.
\<close>

theorem admin_guarded:
  assumes "serve_admin dec r headers st = Some ans"
  shows "(ans = NotFound \<or> ans = unauthorized_response \<longleftrightarrow> (\<forall>a. app_admin st = Some a \<longrightarrow> \<not> check_basic_auth dec a headers))
    \<and> ((\<forall>a. app_admin st = Some a \<longrightarrow> \<not> check_basic_auth dec a headers)
         \<and> map_option password (app_admin st') = map_option password (app_admin st)
       \<longrightarrow> serve_admin dec r headers st' = Some ans)"
proof (cases rule: authorize_cases [of st dec headers])
  case absent
  then show ?thesis using assms
    by (auto simp: admin_endpoint_defs authorize_admin_def split: route.splits)
next
  case (denied a)
  have "app_admin st' = Some b \<and> password b = password a \<Longrightarrow> authorize_admin dec st' headers = Some unauthorized_response" for b
    using denied(2) check_basic_auth_password [of b a] by (simp add: authorize_admin_def)
  then show ?thesis using assms denied
    by (auto simp: admin_endpoint_defs split: route.splits)
next
  case (granted a)
  then show ?thesis using assms
    by (auto simp: admin_endpoint_defs unauthorized_response_def split: route.splits)
qed

text \<open>The configuration of the crate's own tests (rust-sync-proxy/src/lib.rs).\<close>

definition test_config :: config where
  "test_config =
     \<lparr>cfg_port = 8787, upstream_base_url = ''https://magic666.top'', upstream_api_key = ''test-upstream-key'',
      upstream_timeout = 600000, upstream_connect_timeout = 10000, upstream_tcp_keepalive = 30000,
      upstream_pool_idle_timeout = 15000, image_host_mode = ''legacy'',
      allowed_proxy_domains = [''ai.kefan.cn'', ''uguu.se'', ''.uguu.se'', ''.aitohumanize.com''],
      public_base_url = [], external_image_proxy_prefix = [], slow_log_threshold = 100000,
      proxy_standard_output_urls = True, proxy_special_upstream_urls = True, enable_image_compression = False,
      enable_request_image_webp_optimization = False, image_compression_jpeg_quality = 97, admin_password = [],
      image_fetch_timeout = 20000, image_tls_handshake_timeout = 15000, image_fetch_insecure_skip_verify = False,
      image_fetch_external_proxy_domains = [], inline_data_url_cache_dir = [], inline_data_url_cache_ttl = 3600000,
      inline_data_url_cache_max_bytes = push_bit 30 1, inline_data_url_memory_cache_max_bytes = 100 * 1024 * 1024,
      inline_data_url_background_fetch_wait_timeout = 20000, inline_data_url_background_fetch_total_timeout = 90000,
      inline_data_url_background_fetch_max_inflight = 128, blob_inline_max_bytes = 8 * 1024 * 1024,
      blob_request_hot_budget_bytes = 24 * 1024 * 1024, blob_global_hot_budget_bytes = 384 * 1024 * 1024,
      blob_spill_dir = ''/tmp/rust-sync-proxy-blobs'', upload_timeout = 10000, upload_tls_handshake_timeout = 10000,
      upload_insecure_skip_verify = False, legacy_uguu_upload_url = ''https://uguu.se/upload'',
      legacy_kefan_upload_url = ''https://ai.kefan.cn/api/upload/local'', r2_endpoint = [], r2_bucket = [],
      r2_access_key_id = [], r2_secret_access_key = [], r2_public_base_url = [], r2_object_prefix = ''images''\<rparr>"

definition demo_host :: "lru_map host" where
  "demo_host =
     \<lparr>host_lru = list_lru, client_builds = (\<lambda>_. True), host_disk = (\<lambda>_. \<lparr>dir_exists = False, listing = []\<rparr>),
      host_files = Map.empty, host_io_error = Map.empty\<rparr>"

definition demo_state :: "lru_map app_state" where
  "demo_state = build_router demo_host (test_config\<lparr>admin_password := ''pw''\<rparr>)"

lemma demo_state_sel:
  "app_config demo_state = test_config\<lparr>admin_password := ''pw''\<rparr>" "app_admin demo_state = Some (admin_new ''pw'')"
  "app_blobs demo_state = runtime_new (blob_config test_config) Map.empty Map.empty"
proof -
  have "str_trim ''pw'' \<noteq> []" by code_simp
  then show "app_config demo_state = test_config\<lparr>admin_password := ''pw''\<rparr>" "app_admin demo_state = Some (admin_new ''pw'')"
    "app_blobs demo_state = runtime_new (blob_config test_config) Map.empty Map.empty"
    by (simp_all add: demo_state_def build_router_def Let_def demo_host_def blob_config_def test_config_def)
qed

theorem admin_guarded_witness:
  "serve_admin rfc_decode AdminApiLogs [] demo_state = Some unauthorized_response
   \<and> (\<exists>ans. serve_admin rfc_decode AdminApiLogs [(''authorization'', ''Basic dTpwdw=='')] demo_state = Some ans
        \<and> ans \<noteq> NotFound \<and> ans \<noteq> unauthorized_response)"
proof -
  have good: "check_basic_auth rfc_decode (admin_new ''pw'') [(''authorization'', ''Basic dTpwdw=='')]" by code_simp
  have bad: "\<not> check_basic_auth rfc_decode (admin_new ''pw'') []" by code_simp
  obtain ans where ans: "serve_admin rfc_decode AdminApiLogs [(''authorization'', ''Basic dTpwdw=='')] demo_state = Some ans"
    by (simp add: serve_admin_def)
  obtain ans' where ans': "serve_admin rfc_decode AdminApiLogs [] demo_state = Some ans'" by (simp add: serve_admin_def)
  have "ans' = unauthorized_response"
    using ans' bad by (simp add: admin_endpoint_defs authorize_admin_def demo_state_sel)
  with admin_guarded [OF ans] good ans ans' show ?thesis by (auto simp: demo_state_sel)
qed

end
