(* ===== verification/Openai_Image.thy ===== *)
theory Openai_Image
  imports Proxy_Replies
begin

text \<open>
  The OpenAI image endpoint: the request it accepts and the response it builds
  (rust-sync-proxy/src/openai_image.rs) and the handling of the upstream's answer
  (handle_openai_image_response in rust-sync-proxy/src/http/router.rs).

  Shown here: the normalised request is exact, that is, what is accepted, where its reference
  images come from and that nothing else changes; and a successful answer lists one uploaded
  image per image of the upstream, in order.
\<close>

section \<open>Requests\<close>

definition IMAGE_FIELD_ALIASES :: "string list" where
  "IMAGE_FIELD_ALIASES = [''reference_images'', ''images'', ''image'']"

definition validate_reference_image_url :: "url_ops \<Rightarrow> string \<Rightarrow> anyhow + unit" where
  "validate_reference_image_url U raw =
     (case url_parse U raw of
        Inl _ \<Rightarrow> Err (Message ''reference image must be an absolute url'')
      | Inr parsed \<Rightarrow>
          if \<not> (scheme parsed = ''http'' \<or> scheme parsed = ''https'')
          then Err (Message ''reference image must use http or https'')
          else if str_trim (unwrap_or [] (host_str parsed)) = [] then Err (Message ''reference image host is required'')
          else Ok ())"

fun collect_items :: "url_ops \<Rightarrow> string \<Rightarrow> json list \<Rightarrow> string list \<Rightarrow> anyhow + string list" where
  "collect_items U alias [] found = Ok found"
| "collect_items U alias (item # xs) found =
     (case as_str item of
        None \<Rightarrow> Err (Message (alias @ '' items must be strings''))
      | Some raw \<Rightarrow>
          and_then (validate_reference_image_url U raw) (\<lambda>_. collect_items U alias xs (found @ [raw])))"

fun collect_aliases :: "url_ops \<Rightarrow> string list \<Rightarrow> fields \<Rightarrow> string list \<Rightarrow> anyhow + fields \<times> string list" where
  "collect_aliases U [] m found = Ok (m, found)"
| "collect_aliases U (alias # as) m found =
     (case map_get m alias of
        None \<Rightarrow> collect_aliases U as m found
      | Some v \<Rightarrow>
          (case as_array v of
             None \<Rightarrow> Err (Message (alias @ '' must be an array''))
           | Some xs \<Rightarrow>
               and_then (collect_items U alias xs found) (\<lambda>found'. collect_aliases U as (map_remove alias m) found')))"

definition collect_reference_images :: "url_ops \<Rightarrow> fields \<Rightarrow> anyhow + fields \<times> string list" where
  "collect_reference_images U m = collect_aliases U IMAGE_FIELD_ALIASES m []"

definition normalize_request_body :: "url_ops \<Rightarrow> json \<Rightarrow> anyhow + json" where
  "normalize_request_body U body =
     (case body of
        JObject m \<Rightarrow>
          (let response_format = (case map_get m ''response_format'' of Some (JString s) \<Rightarrow> s | _ \<Rightarrow> ''url'')
           in if \<not> eq_ignore_ascii_case response_format ''url''
              then Err (Message ''response_format must be url when provided'')
              else
                and_then (collect_reference_images U m) (\<lambda>(m', found).
                Ok (JObject (map_insert ''response_format'' (JString ''b64_json'')
                      (map_insert ''reference_images'' (JArray (map JString found)) m')))))
      | _ \<Rightarrow> Err (Message ''request body must be a json object''))"

section \<open>Responses\<close>

record uploaded_image =
  uploaded_url :: string

definition build_fixed_usage :: json where
  "build_fixed_usage = JObject
     [(''input_tokens'', JNumber (PosInt 1024)),
      (''input_tokens_details'', JObject [(''image_tokens'', JNumber (PosInt 1000)), (''text_tokens'', JNumber (PosInt 24))]),
      (''output_tokens'', JNumber (PosInt 1024)),
      (''total_tokens'', JNumber (PosInt 2048)),
      (''output_tokens_details'', JObject [(''image_tokens'', JNumber (PosInt 1024)), (''text_tokens'', JNumber (PosInt 0))])]"

text \<open>\<open>Value::from\<close> of an \<open>i64\<close>.\<close>

definition i64_value :: "i64 \<Rightarrow> json" where
  "i64_value n = JNumber (if sint n < 0 then NegInt n else PosInt n)"

definition build_response_payload :: "json \<Rightarrow> uploaded_image list \<Rightarrow> i64 \<Rightarrow> json" where
  "build_response_payload upstream_body uploaded fallback_created =
     (let created = unwrap_or fallback_created (and_then_opt (json_get upstream_body ''created'') as_i64)
      in JObject [(''created'', i64_value created),
                  (''data'', JArray (map (\<lambda>u. JObject [(''url'', JString (uploaded_url u))]) uploaded)),
                  (''usage'', build_fixed_usage)])"

section \<open>The upstream's answer\<close>

definition missing_data :: "string \<Rightarrow> anyhow" where
  "missing_data d = Structured ''upstream response missing data'' ''rewrite_openai_image_response'' ''missing_data'' d"

fun b64_entries :: "json list \<Rightarrow> anyhow + string list" where
  "b64_entries [] = Ok []"
| "b64_entries (item # xs) =
     and_then (ok_or (Structured ''upstream response missing b64_json'' ''rewrite_openai_image_response'' ''missing_b64_json''
                        ''upstream response missing data[].b64_json'')
                 (filter_option (\<lambda>s. str_trim s \<noteq> []) (and_then_opt (json_get item ''b64_json'') as_str))) (\<lambda>b.
     and_then (b64_entries xs) (\<lambda>bs. Ok (b # bs)))"

definition extract_openai_b64_json_entries :: "json \<Rightarrow> anyhow + string list" where
  "extract_openai_b64_json_entries body =
     and_then (ok_or (missing_data ''upstream response missing data array'') (and_then_opt (json_get body ''data'') as_array)) (\<lambda>xs.
       if xs = [] then Err (missing_data ''upstream response data array is empty'') else b64_entries xs)"

definition build_openai_image_output_url :: "(string \<Rightarrow> string) \<Rightarrow> config \<Rightarrow> string \<Rightarrow> string \<Rightarrow> string" where
  "build_openai_image_output_url enc c provider_name target_url =
     (let pre = resolved_external_image_proxy_prefix c
      in if proxy_standard_output_urls c \<and> \<not> eq_ignore_ascii_case provider_name ''r2'' \<and> str_trim pre \<noteq> []
         then wrap_external_proxy_url enc pre target_url
         else target_url)"

record response_stage_durations =
  stage_process_ms :: i64
  stage_upload_ms :: i64

text \<open>\<open>saturating_sub\<close> on \<open>i64\<close>.\<close>

definition saturating_sub :: "i64 \<Rightarrow> i64 \<Rightarrow> i64" where
  "saturating_sub a b = word_of_int (max (- (2 ^ 63)) (min (2 ^ 63 - 1) (sint a - sint b)))"

text \<open>
  The libraries and the clock of a handler: the JSON parser and printer with the texts of
  their errors, the text of a base64 error, the unix time in seconds, and the milliseconds
  that the two measured stages of this run take.
\<close>

record 'w reply_world =
  from_slice :: "bytes \<Rightarrow> string + json"
  to_vec :: "json \<Rightarrow> string + bytes"
  decode_error :: "bytes \<Rightarrow> string"
  unix_secs :: "'w \<Rightarrow> i64 \<times> 'w"
  total_elapsed :: i64
  upload_elapsed :: i64

definition body_truncated :: "reqwest_error \<Rightarrow> anyhow" where
  "body_truncated e =
     Structured ''failed to read upstream response body'' ''read_upstream_body'' ''body_truncated'' (reqwest_text e)"

definition output_url_of :: "upload_env \<Rightarrow> config \<Rightarrow> upload_result \<Rightarrow> string" where
  "output_url_of env c r = build_openai_image_output_url (form_encode env) c (provider r) (upload_url r)"

fun upload_openai_images :: "'w reply_world \<Rightarrow> upload_env \<Rightarrow> 'w upload_io \<Rightarrow> config \<Rightarrow> string list
    \<Rightarrow> uploaded_image list \<Rightarrow> (uploaded_image list, 'w) io" where
  "upload_openai_images W env io c [] uploaded = lift_io (Ok uploaded)"
| "upload_openai_images W env io c (b # bs) uploaded =
     (case b64_decode env b of
        None \<Rightarrow> lift_io (Err (Structured ''failed to decode upstream b64_json'' ''decode_b64_json'' ''invalid_base64''
                              (decode_error W b)))
      | Some decoded \<Rightarrow>
          bind_io (upload_inline_data_base64 env io c b (unwrap_or ''image/png'' (sniff_image_mime_type decoded))) (\<lambda>r.
            upload_openai_images W env io c bs (uploaded @ [\<lparr>uploaded_url = output_url_of env c r\<rparr>])))"

definition handle_openai_image_response :: "'w reply_world \<Rightarrow> upload_env \<Rightarrow> 'w upload_io \<Rightarrow> config \<Rightarrow> http_reply
    \<Rightarrow> (down_response \<times> response_stage_durations, 'w) io" where
  "handle_openai_image_response W env io c reply =
     (let st = reply_status reply; ct = unwrap_or application_json (reply_content_type reply)
      in case reply_body reply of
           Inl e \<Rightarrow> lift_io (Err (body_truncated e))
         | Inr body_bytes \<Rightarrow>
             if \<not> is_success st then
               lift_io (Ok (raw_reqwest_response_with_body st ct body_bytes,
                            \<lparr>stage_process_ms = total_elapsed W, stage_upload_ms = 0\<rparr>))
             else
               (case from_slice W body_bytes of
                  Inl t \<Rightarrow> lift_io (Err (Structured ''failed to parse upstream response json'' ''parse_upstream_response''
                                         ''invalid_json'' t))
                | Inr upstream_body \<Rightarrow>
                    bind_io (lift_io (extract_openai_b64_json_entries upstream_body)) (\<lambda>base64_images.
                    bind_io (upload_openai_images W env io c base64_images []) (\<lambda>uploaded.
                    bind_io (total_io (unix_secs W)) (\<lambda>fallback_created.
                    bind_io (lift_io (anyhow_of (to_vec W (build_response_payload upstream_body uploaded fallback_created)))) (\<lambda>final_body.
                    lift_io (Ok (\<lparr>down_status = 200, down_content_type = application_json, down_body = RawBytes final_body\<rparr>,
                                 \<lparr>stage_process_ms = saturating_sub (total_elapsed W) (upload_elapsed W),
                                  stage_upload_ms = upload_elapsed W\<rparr>))))))))"

section \<open>What is accepted\<close>

definition valid_reference :: "url_ops \<Rightarrow> string \<Rightarrow> bool" where
  "valid_reference U raw \<longleftrightarrow>
     (\<exists>p. url_parse U raw = Ok p \<and> (scheme p = ''http'' \<or> scheme p = ''https'') \<and> str_trim (unwrap_or [] (host_str p)) \<noteq> [])"

lemma validate_Ok [simp]: "validate_reference_image_url U raw = Ok u \<longleftrightarrow> valid_reference U raw"
  by (auto simp: validate_reference_image_url_def valid_reference_def split: sum.splits)

lemma as_str_Some [simp]: "as_str v = Some s \<longleftrightarrow> v = JString s"
  by (cases v) auto

lemma as_array_Some [simp]: "as_array v = Some xs \<longleftrightarrow> v = JArray xs"
  by (cases v) auto

lemma collect_items_Ok:
  "collect_items U al xs acc = Ok r \<longleftrightarrow> (\<exists>us. xs = map JString us \<and> r = acc @ us \<and> list_all (valid_reference U) us)"
proof (induction xs arbitrary: acc)
  case (Cons x xs)
  show ?case
  proof (cases "as_str x")
    case None
    then have "\<forall>u. x \<noteq> JString u" by auto
    with None show ?thesis by (auto simp: Cons_eq_map_conv)
  next
    case (Some u)
    then have x: "x = JString u" by simp
    show ?thesis unfolding x by (auto simp: and_then_eq_Ok Cons.IH Cons_eq_map_conv)
  qed
qed auto

text \<open>The images listed under a key: an array of valid URLs, or nothing.\<close>

definition alias_ok :: "url_ops \<Rightarrow> fields \<Rightarrow> string \<Rightarrow> bool" where
  "alias_ok U m al \<longleftrightarrow>
     (\<forall>v. map_get m al = Some v \<longrightarrow> (\<exists>us. v = JArray (map JString us) \<and> list_all (valid_reference U) us))"

definition alias_urls :: "fields \<Rightarrow> string \<Rightarrow> string list" where
  "alias_urls m al = (case map_get m al of Some (JArray xs) \<Rightarrow> List.map_filter as_str xs | _ \<Rightarrow> [])"

lemma map_filter_JString [simp]: "List.map_filter as_str (map JString us) = us"
  by (induction us) (simp_all add: List.map_filter_def)

lemma map_get_remove:
  "distinct (map fst m) \<Longrightarrow> map_get (map_remove k m) t = (if t = k then None else map_get m t)"
  by (simp add: map_get_def map_of_map_remove)

lemma alias_removed:
  assumes "distinct (map fst m)" "al' \<noteq> al"
  shows "alias_ok U (map_remove al m) al' = alias_ok U m al'" "alias_urls (map_remove al m) al' = alias_urls m al'"
  using assms by (simp_all add: alias_ok_def alias_urls_def map_get_remove)

lemma collect_aliases_Ok:
  "distinct as \<Longrightarrow> distinct (map fst m) \<Longrightarrow> collect_aliases U as m acc = Ok (m', r) \<Longrightarrow>
     (\<forall>al \<in> set as. alias_ok U m al) \<and> r = acc @ concat (map (alias_urls m) as)
   \<and> (\<forall>k. map_get m' k = (if k \<in> set as then None else map_get m k)) \<and> distinct (map fst m')"
proof (induction as arbitrary: m acc)
  case (Cons al as)
  have other: "al' \<in> set as \<Longrightarrow> al' \<noteq> al" for al' using Cons.prems(1) by auto
  show ?case
  proof (cases "map_get m al")
    case None
    with Cons show ?thesis by (auto simp: alias_ok_def alias_urls_def)
  next
    case (Some v)
    with Cons.prems(3) obtain us where v: "v = JArray (map JString us)" "list_all (valid_reference U) us"
      "collect_aliases U as (map_remove al m) (acc @ us) = Ok (m', r)"
      by (auto simp: and_then_eq_Ok collect_items_Ok split: option.splits)
    have "distinct (map fst (map_remove al m))" using Cons.prems(2) by (rule distinct_map_remove)
    from Cons.IH [OF _ this v(3)] Cons.prems(1)
    have ih: "\<forall>al' \<in> set as. alias_ok U (map_remove al m) al'" "r = (acc @ us) @ concat (map (alias_urls (map_remove al m)) as)"
      "\<forall>k. map_get m' k = (if k \<in> set as then None else map_get (map_remove al m) k)" "distinct (map fst m')" by simp_all
    have "concat (map (alias_urls (map_remove al m)) as) = concat (map (alias_urls m) as)"
      using alias_removed(2) [OF Cons.prems(2)] other by (intro arg_cong [where f = concat] map_cong) auto
    moreover have "alias_urls m al = us" using Some v(1) by (simp add: alias_urls_def)
    moreover have "alias_ok U m al" using Some v(1,2) by (auto simp: alias_ok_def)
    moreover have "\<forall>al' \<in> set as. alias_ok U m al'" using ih(1) alias_removed(1) [OF Cons.prems(2)] other by blast
    ultimately show ?thesis using ih(2-4) map_get_remove [OF Cons.prems(2)] by simp
  qed
qed simp

lemma collect_aliases_total:
  "distinct as \<Longrightarrow> distinct (map fst m) \<Longrightarrow> \<forall>al \<in> set as. alias_ok U m al \<Longrightarrow> \<exists>x. collect_aliases U as m acc = Ok x"
proof (induction as arbitrary: m acc)
  case (Cons al as)
  have rest: "\<forall>al' \<in> set as. alias_ok U (map_remove al m) al'"
    using Cons.prems alias_removed(1) [OF Cons.prems(2)] by (metis distinct.simps(2) list.set_intros(2))
  show ?case
  proof (cases "map_get m al")
    case None
    with Cons show ?thesis by simp
  next
    case (Some v)
    with Cons.prems(3) obtain us where "v = JArray (map JString us)" "list_all (valid_reference U) us"
      by (auto simp: alias_ok_def)
    moreover from this have "collect_items U al (map JString us) acc = Ok (acc @ us)" by (auto simp: collect_items_Ok)
    ultimately show ?thesis
      using Some Cons.IH [OF _ distinct_map_remove [OF Cons.prems(2)] rest] Cons.prems(1) by simp
  qed
qed simp

lemma b64_entries_Ok:
  "b64_entries xs = Ok bs \<Longrightarrow> list_all2 (\<lambda>item b. json_get item ''b64_json'' = Some (JString b) \<and> str_trim b \<noteq> []) xs bs"
proof (induction xs arbitrary: bs)
  case (Cons x xs)
  then show ?case
    by (cases "json_get x ''b64_json''") (auto simp: and_then_eq_Ok filter_option_eq_Some)
qed simp

text \<open>What the client is told of an image: where the uploader put these very bytes.\<close>

definition image_uploaded_as :: "upload_env \<Rightarrow> 'w upload_io \<Rightarrow> config \<Rightarrow> string \<Rightarrow> string \<Rightarrow> bool" where
  "image_uploaded_as env io c b u \<longleftrightarrow>
     (\<exists>x r w w'. b64_decode env b = Some x \<and> u = output_url_of env c r
       \<and> upload_inline_data_base64 env io c b (unwrap_or ''image/png'' (sniff_image_mime_type x)) w = (Ok r, w'))"

lemma upload_openai_images_Ok:
  "upload_openai_images W env io c bs acc w = (Ok us, w') \<Longrightarrow>
     \<exists>vs. us = acc @ vs \<and> list_all2 (\<lambda>b v. image_uploaded_as env io c b (uploaded_url v)) bs vs"
proof (induction bs arbitrary: acc w)
  case (Cons b bs)
  from Cons.prems obtain x r w1 where step: "b64_decode env b = Some x"
    "upload_inline_data_base64 env io c b (unwrap_or ''image/png'' (sniff_image_mime_type x)) w = (Ok r, w1)"
    "upload_openai_images W env io c bs (acc @ [\<lparr>uploaded_url = output_url_of env c r\<rparr>]) w1 = (Ok us, w')"
    by (auto simp: io_simps split: option.splits prod.splits sum.splits)
  then have "image_uploaded_as env io c b (output_url_of env c r)" by (auto simp: image_uploaded_as_def)
  with Cons.IH [OF step(3)] show ?case by auto
qed (simp add: lift_io_def)

section \<open>Properties\<close>

text \<open>
  C20: The normalised OpenAI request is exact.  An object is accepted if and only if its
  \<open>response_format\<close> is absent, not a text or \<open>url\<close> in any case, and each of the three image keys
  is absent or an array of absolute http(s) URLs with a host.  The result then has the URLs of
  the three keys, in the order of the aliases, under \<open>reference_images\<close>, asks for
  \<open>b64_json\<close>, and agrees with the request on every other key.
\<close>

theorem normalize_request_exact:
  assumes "distinct (map fst m)"
  shows "((\<exists>doc. normalize_request_body U (JObject m) = Ok doc) \<longleftrightarrow>
            (\<forall>s. map_get m ''response_format'' = Some (JString s) \<longrightarrow> eq_ignore_ascii_case s ''url'')
          \<and> alias_ok U m ''reference_images'' \<and> alias_ok U m ''images'' \<and> alias_ok U m ''image'')
    \<and> (\<forall>doc. normalize_request_body U (JObject m) = Ok doc \<longrightarrow>
         (\<exists>m'. doc = JObject m' \<and> distinct (map fst m') \<and>
            (\<forall>k. map_get m' k =
               (if k = ''response_format'' then Some (JString ''b64_json'')
                else if k = ''reference_images'' then
                  Some (JArray (map JString (alias_urls m ''reference_images'' @ alias_urls m ''images'' @ alias_urls m ''image'')))
                else if k = ''images'' \<or> k = ''image'' then None
                else map_get m k))))"
proof -
  let ?fmt = "\<forall>s. map_get m ''response_format'' = Some (JString s) \<longrightarrow> eq_ignore_ascii_case s ''url''"
  have self: "eq_ignore_ascii_case ''url'' ''url''" by code_simp
  have fmt: "eq_ignore_ascii_case (case map_get m ''response_format'' of Some (JString s) \<Rightarrow> s | _ \<Rightarrow> ''url'') ''url'' \<longleftrightarrow> ?fmt"
    using self by (auto split: option.splits json.splits)
  have nf: "normalize_request_body U (JObject m) = Ok doc \<longleftrightarrow>
      ?fmt \<and> (\<exists>m' us. collect_aliases U IMAGE_FIELD_ALIASES m [] = Ok (m', us)
         \<and> doc = JObject (map_insert ''response_format'' (JString ''b64_json'')
                  (map_insert ''reference_images'' (JArray (map JString us)) m')))" for doc
    by (auto simp: normalize_request_body_def collect_reference_images_def fmt and_then_eq_Ok Let_def)
  have d: "distinct IMAGE_FIELD_ALIASES" by code_simp
  note got = collect_aliases_Ok [OF d assms, of U "[]"]
  have acc: "(\<exists>x. collect_aliases U IMAGE_FIELD_ALIASES m [] = Ok x) \<longleftrightarrow> (\<forall>al \<in> set IMAGE_FIELD_ALIASES. alias_ok U m al)"
    using got collect_aliases_total [OF d assms, of U "[]"] by (metis prod.collapse)
  show ?thesis
  proof (intro conjI allI impI)
    show "(\<exists>doc. normalize_request_body U (JObject m) = Ok doc) \<longleftrightarrow>
        ?fmt \<and> alias_ok U m ''reference_images'' \<and> alias_ok U m ''images'' \<and> alias_ok U m ''image''"
      using acc unfolding nf by (auto simp: IMAGE_FIELD_ALIASES_def)
  next
    fix doc assume "normalize_request_body U (JObject m) = Ok doc"
    then obtain m' us where *: "collect_aliases U IMAGE_FIELD_ALIASES m [] = Ok (m', us)"
        "doc = JObject (map_insert ''response_format'' (JString ''b64_json'') (map_insert ''reference_images'' (JArray (map JString us)) m'))"
      unfolding nf by blast
    let ?m2 = "map_insert ''response_format'' (JString ''b64_json'') (map_insert ''reference_images'' (JArray (map JString us)) m')"
    have us: "us = alias_urls m ''reference_images'' @ alias_urls m ''images'' @ alias_urls m ''image''"
      using got [OF *(1)] by (simp add: IMAGE_FIELD_ALIASES_def)
    have m': "map_get m' k = (if k = ''reference_images'' \<or> k = ''images'' \<or> k = ''image'' then None else map_get m k)" for k
      using got [OF *(1)] by (simp add: IMAGE_FIELD_ALIASES_def)
    have "distinct (map fst ?m2)" using got [OF *(1)] by (simp add: distinct_map_insert)
    moreover have "map_get ?m2 k =
               (if k = ''response_format'' then Some (JString ''b64_json'')
                else if k = ''reference_images'' then
                  Some (JArray (map JString (alias_urls m ''reference_images'' @ alias_urls m ''images'' @ alias_urls m ''image'')))
                else if k = ''images'' \<or> k = ''image'' then None
                else map_get m k)" for k
      unfolding map_get_insert m' us by simp
    ultimately show "\<exists>m'. doc = JObject m' \<and> distinct (map fst m') \<and>
            (\<forall>k. map_get m' k =
               (if k = ''response_format'' then Some (JString ''b64_json'')
                else if k = ''reference_images'' then
                  Some (JArray (map JString (alias_urls m ''reference_images'' @ alias_urls m ''images'' @ alias_urls m ''image'')))
                else if k = ''images'' \<or> k = ''image'' then None
                else map_get m k))"
      using *(2) by blast
  qed
qed

definition demo_openai :: fields where
  "demo_openai = [(''prompt'', JString ''p''), (''image'', JArray [JString ''http://h/b'']), (''images'', JArray [JString ''http://h/a''])]"

theorem normalize_request_exact_witness:
  "\<exists>m'. normalize_request_body (up_urls demo_upload_env) (JObject demo_openai) = Ok (JObject m')
     \<and> map_get m' ''reference_images'' = Some (JArray [JString ''http://h/a'', JString ''http://h/b''])"
proof -
  have d: "distinct (map fst demo_openai)" by code_simp
  have valid: "valid_reference (up_urls demo_upload_env) u" for u
  proof -
    have "str_trim ''r2.example'' \<noteq> []" by code_simp
    then show ?thesis by (simp add: valid_reference_def demo_upload_env_def demo_endpoint_def)
  qed
  have "alias_ok (up_urls demo_upload_env) demo_openai k" if "map_get demo_openai k = Some (JArray (map JString us))" for k us
    using that valid by (auto simp: alias_ok_def list_all_iff)
  moreover have "map_get demo_openai ''image'' = Some (JArray (map JString [''http://h/b'']))"
    "map_get demo_openai ''images'' = Some (JArray (map JString [''http://h/a'']))" by (simp_all add: demo_openai_def)
  ultimately have "alias_ok (up_urls demo_upload_env) demo_openai ''image''" "alias_ok (up_urls demo_upload_env) demo_openai ''images''"
    by blast+
  moreover have "alias_ok (up_urls demo_upload_env) demo_openai ''reference_images''" by (simp add: alias_ok_def demo_openai_def)
  moreover have "map_get demo_openai ''response_format'' = None" by (simp add: demo_openai_def)
  ultimately obtain doc where "normalize_request_body (up_urls demo_upload_env) (JObject demo_openai) = Ok doc"
    using normalize_request_exact [OF d, of "up_urls demo_upload_env"] by auto
  moreover have "alias_urls demo_openai ''images'' = [''http://h/a'']" "alias_urls demo_openai ''image'' = [''http://h/b'']"
    "alias_urls demo_openai ''reference_images'' = []" by code_simp+
  ultimately show ?thesis
    using normalize_request_exact [OF d, of "up_urls demo_upload_env"] by auto
qed

text \<open>
  C19: A successful answer of the upstream becomes a list of URLs: every item of \<open>data\<close> carried a
  base64 text, the uploader stored what that text decodes to, and the response is the JSON of
  the URLs it returned, in the order of \<open>data\<close>, with the upstream's \<open>created\<close> when it is an integer.
\<close>

theorem openai_images_listed:
  assumes "handle_openai_image_response W env io c reply w = (Ok (response, durations), w')"
    and "is_success (reply_status reply)" "reply_body reply = Ok body_bytes"
  shows "\<exists>body xs us created final.
      from_slice W body_bytes = Ok body \<and> json_get body ''data'' = Some (JArray xs) \<and> xs \<noteq> []
    \<and> list_all2 (\<lambda>x u. \<exists>b. json_get x ''b64_json'' = Some (JString b) \<and> image_uploaded_as env io c b u) xs us
    \<and> (\<forall>v n. json_get body ''created'' = Some v \<and> as_i64 v = Some n \<longrightarrow> created = n)
    \<and> to_vec W (JObject [(''created'', i64_value created), (''data'', JArray (map (\<lambda>u. JObject [(''url'', JString u)]) us)),
         (''usage'', build_fixed_usage)]) = Ok final
    \<and> response = \<lparr>down_status = 200, down_content_type = application_json, down_body = RawBytes final\<rparr>"
proof -
  from assms obtain body bs us w1 w2 fallback final where run: "from_slice W body_bytes = Ok body"
      "extract_openai_b64_json_entries body = Ok bs" "upload_openai_images W env io c bs [] w = (Ok us, w1)"
      "unix_secs W w1 = (fallback, w2)" "to_vec W (build_response_payload body us fallback) = Ok final"
      "response = \<lparr>down_status = 200, down_content_type = application_json, down_body = RawBytes final\<rparr>"
    by (auto simp: handle_openai_image_response_def Let_def io_simps total_io_def anyhow_of_def
        split: sum.splits prod.splits)
  from run(2) obtain xs where xs: "json_get body ''data'' = Some (JArray xs)" "xs \<noteq> []" "b64_entries xs = Ok bs"
    by (auto simp: extract_openai_b64_json_entries_def and_then_eq_Ok and_then_opt_def split: option.splits if_splits)
  note entries = b64_entries_Ok [OF xs(3)]
  from upload_openai_images_Ok [OF run(3)]
  have up: "list_all2 (\<lambda>b v. image_uploaded_as env io c b (uploaded_url v)) bs us" by auto
  have "list_all2 (\<lambda>x u. \<exists>b. json_get x ''b64_json'' = Some (JString b) \<and> image_uploaded_as env io c b u) xs (map uploaded_url us)"
    using entries up by (fastforce simp: list_all2_conv_all_nth)
  moreover have "to_vec W (JObject [(''created'', i64_value (unwrap_or fallback (and_then_opt (json_get body ''created'') as_i64))),
      (''data'', JArray (map (\<lambda>u. JObject [(''url'', JString u)]) (map uploaded_url us))), (''usage'', build_fixed_usage)]) = Ok final"
    using run(5) by (simp add: build_response_payload_def Let_def comp_def)
  moreover have "json_get body ''created'' = Some v \<and> as_i64 v = Some n \<Longrightarrow>
      unwrap_or fallback (and_then_opt (json_get body ''created'') as_i64) = n" for v n by simp
  ultimately show ?thesis
    using run(1,6) xs(1,2)
    by (intro exI [where x = body] exI [where x = xs] exI [where x = "map uploaded_url us"]
      exI [where x = "unwrap_or fallback (and_then_opt (json_get body ''created'') as_i64)"] exI [where x = final] conjI) simp_all
qed

definition demo_legacy :: config where
  "demo_legacy = demo_upload_config\<lparr>image_host_mode := ''legacy''\<rparr>"

lemma demo_legacy_upload:
  "\<exists>r. upload_inline_data_base64 demo_upload_env demo_upload_io demo_legacy ''YWJjZA=='' ''image/png'' () = (Ok r, ())"
proof -
  have e: "base64_engine rfc_encode (b64_decode demo_upload_env)"
    by (simp add: demo_upload_env_def rfc.base64_engine_axioms)
  have d: "b64_decode demo_upload_env ''YWJjZA=='' = Some ''abcd''"
    unfolding demo_upload_env_def upload_env.select_convs by code_simp
  have h: "sha256_hex_base64 (b64_decode demo_upload_env) (sha256 demo_upload_env) ''YWJjZA=='' = Ok (sha256_hex (sha256 demo_upload_env) ''abcd'')"
    using base64_engine.chunked_decode [OF e, of 0 "''YWJjZA==''" "''abcd''"] d by (simp add: sha256_hex_base64_def sha256_hex_def)
  have m: "parse_image_host_mode ''legacy'' = Ok Legacy" by code_simp
  have u: "str_trim ''https://host/i.png'' = ''https://host/i.png''" by code_simp
  show ?thesis
    unfolding inline_data_base64_as_bytes [OF base64_engine.decoded_len_correct [OF e d] h]
    by (simp add: upload_image_def demo_legacy_def m upload_legacy_def upload_to_uguu_def map_io_def or_io_def io_simps
        demo_upload_env_def demo_upload_io_def streaming_io_def uguu_outcome_def is_success_def u)
qed

definition demo_reply_world :: "unit reply_world" where
  "demo_reply_world =
     \<lparr>from_slice = (\<lambda>_. Ok (JObject [(''data'', JArray [JObject [(''b64_json'', JString ''YWJjZA=='')]])])),
      to_vec = (\<lambda>v. Ok ''{}''), decode_error = (\<lambda>_. []), unix_secs = (\<lambda>w. (7, w)), total_elapsed = 9, upload_elapsed = 4\<rparr>"

theorem openai_images_listed_witness:
  "\<exists>u d. image_uploaded_as demo_upload_env demo_upload_io demo_legacy ''YWJjZA=='' u
     \<and> handle_openai_image_response demo_reply_world demo_upload_env demo_upload_io demo_legacy
          \<lparr>reply_status = 200, reply_content_type = None, reply_body = Ok []\<rparr> ()
       = (Ok (\<lparr>down_status = 200, down_content_type = application_json, down_body = RawBytes ''{}''\<rparr>, d), ())"
proof -
  let ?reply = "\<lparr>reply_status = 200, reply_content_type = None, reply_body = Ok []\<rparr> :: http_reply"
  obtain r where up: "upload_inline_data_base64 demo_upload_env demo_upload_io demo_legacy ''YWJjZA=='' ''image/png'' () = (Ok r, ())"
    using demo_legacy_upload by blast
  have d: "b64_decode demo_upload_env ''YWJjZA=='' = Some ''abcd''"
    unfolding demo_upload_env_def upload_env.select_convs by code_simp
  have t: "str_trim ''YWJjZA=='' \<noteq> []" "sniff_image_mime_type ''abcd'' = None" by code_simp+
  obtain response durations where run: "handle_openai_image_response demo_reply_world demo_upload_env demo_upload_io demo_legacy ?reply ()
      = (Ok (response, durations), ())"
    using t by (simp add: handle_openai_image_response_def demo_reply_world_def is_success_def extract_openai_b64_json_entries_def
        json_get_def io_simps d up total_io_def anyhow_of_def Let_def)
  from openai_images_listed [OF run] show ?thesis
    using run by (auto simp: is_success_def demo_reply_world_def json_get_def list_all2_Cons1)
qed

end
