(* ===== verification/Aiapidev_Tasks.thy ===== *)
theory Aiapidev_Tasks
  imports Proxy_Replies Upstream
begin

text \<open>
  Requests to an aiapidev upstream (rust-sync-proxy/src/http/router.rs): a task is created, polled
  until it ends, and its result turned into a response.

  The polling loop is a total function of what the upstream answers at each attempt and of
  the time: attempt \<open>n\<close> takes \<open>poll_elapsed n\<close> milliseconds and the pause after it a second plus
  \<open>poll_oversleep n\<close>.  It returns its result together with the number of attempts made.

  Shown here: the loop ends within 451 attempts and, when attempts are bounded, in bounded
  time; it reports success only for a task the upstream called finished; and a task that
  finishes in time is found, whatever isolated failures occurred on the way.
\<close>

section \<open>Polling\<close>

definition AIAPIDEV_POLL_INTERVAL :: nat where
  "AIAPIDEV_POLL_INTERVAL = 1000"

definition AIAPIDEV_MAX_POLL_TIME :: nat where
  "AIAPIDEV_MAX_POLL_TIME = 450 * 1000"

definition AIAPIDEV_MAX_CONSECUTIVE_POLL_FAILURES :: nat where
  "AIAPIDEV_MAX_CONSECUTIVE_POLL_FAILURES = 5"

definition is_aiapidev_terminal_status :: "string \<Rightarrow> bool" where
  "is_aiapidev_terminal_status s \<longleftrightarrow>
     s \<in> set [''succeeded'', ''failed'', ''error'', ''cancelled'', ''canceled'', ''timeout'']"

definition is_aiapidev_retryable_poll_status :: "nat \<Rightarrow> bool" where
  "is_aiapidev_retryable_poll_status st \<longleftrightarrow> st \<in> set [408, 425, 429, 500, 502, 503, 504]"

text \<open>A request's URL with the value of its \<open>x-goog-api-key\<close> header.\<close>

type_synonym task_target = "string \<times> string"

record poll_world =
  poll_reply :: "nat \<Rightarrow> task_target \<Rightarrow> reqwest_error + http_reply"
  poll_elapsed :: "nat \<Rightarrow> nat"
  poll_oversleep :: "nat \<Rightarrow> nat"
  poll_parse :: "bytes \<Rightarrow> json option"

definition poll_timed_out :: down_response where
  "poll_timed_out = proxy_error_response 502 ''aiapidev task poll timed out'' ''aiapidev_poll_task'' ''timeout''"

definition poll_invalid_json :: down_response where
  "poll_invalid_json =
     proxy_error_response 502 ''failed to parse aiapidev poll response'' ''aiapidev_parse_task_response'' ''invalid_json''"

definition task_status :: "json \<Rightarrow> string" where
  "task_status body = to_ascii_lowercase (case json_get body ''status'' of Some (JString s) \<Rightarrow> s | _ \<Rightarrow> [])"

text \<open>\<open>Response::json\<close> fails when the body cannot be read or is no JSON.\<close>

definition reply_json :: "poll_world \<Rightarrow> http_reply \<Rightarrow> json option" where
  "reply_json w r = (case reply_body r of Inl e \<Rightarrow> None | Inr b \<Rightarrow> poll_parse w b)"

text \<open>What one attempt means: an answer for the caller, or another round with a failure count.\<close>

datatype verdict = Finished json | GiveUp down_response | Again nat

definition judge :: "poll_world \<Rightarrow> nat \<Rightarrow> reqwest_error + http_reply \<Rightarrow> verdict" where
  "judge w fails r =
     (case r of
        Inl err \<Rightarrow>
          if Suc fails \<ge> AIAPIDEV_MAX_CONSECUTIVE_POLL_FAILURES then GiveUp (short_error 502 (reqwest_text err))
          else Again (Suc fails)
      | Inr reply \<Rightarrow>
          if \<not> is_success (reply_status reply) then
            if \<not> is_aiapidev_retryable_poll_status (reply_status reply) then GiveUp (raw_reqwest_response reply)
            else if Suc fails \<ge> AIAPIDEV_MAX_CONSECUTIVE_POLL_FAILURES then GiveUp (raw_reqwest_response reply)
            else Again (Suc fails)
          else
            (case reply_json w reply of
               None \<Rightarrow> GiveUp poll_invalid_json
             | Some body \<Rightarrow> if is_aiapidev_terminal_status (task_status body) then Finished body else Again 0))"

function poll_loop :: "poll_world \<Rightarrow> task_target \<Rightarrow> nat \<Rightarrow> nat \<Rightarrow> nat \<Rightarrow> nat \<Rightarrow> (down_response + json) \<times> nat" where
  "poll_loop w target deadline n fails now =
     (let now' = now + poll_elapsed w n
      in case judge w fails (poll_reply w n target) of
           Finished body \<Rightarrow> (Ok body, Suc n)
         | GiveUp response \<Rightarrow> (Err response, Suc n)
         | Again fails' \<Rightarrow>
             if now' \<ge> deadline then (Err poll_timed_out, Suc n)
             else poll_loop w target deadline (Suc n) fails' (now' + AIAPIDEV_POLL_INTERVAL + poll_oversleep w n))"
  by pat_completeness auto

termination
  by (relation "measure (\<lambda>(w, u, deadline, n, fails, now). deadline - now)")
    (auto simp: AIAPIDEV_POLL_INTERVAL_def diff_less_mono2)

declare poll_loop.simps [simp del]

definition poll_aiapidev_task :: "upstream_ops \<Rightarrow> error_texts \<Rightarrow> poll_world \<Rightarrow> resolved_upstream \<Rightarrow> string \<Rightarrow> nat
    \<Rightarrow> (down_response + json) \<times> nat" where
  "poll_aiapidev_task U T w resolved request_id started =
     (case build_upstream_url U (base_url resolved) (''/v1beta/tasks/'' @ request_id) None of
        Inl err \<Rightarrow> (Err (short_error 502 (error_text T err)), 0)
      | Inr target \<Rightarrow> poll_loop w (target, api_key resolved) (started + AIAPIDEV_MAX_POLL_TIME) 0 0 started)"

section \<open>The whole exchange\<close>

definition request_id_of :: "json \<Rightarrow> string option" where
  "request_id_of created =
     filter_option (\<lambda>s. str_trim s \<noteq> []) (case json_get created ''requestId'' of Some (JString s) \<Rightarrow> Some s | _ \<Rightarrow> None)"

definition nonblank_str :: "json \<Rightarrow> string \<Rightarrow> string option" where
  "nonblank_str v k = filter_option (\<lambda>s. str_trim s \<noteq> []) (case json_get v k of Some (JString s) \<Rightarrow> Some s | _ \<Rightarrow> None)"

definition task_failure_message :: "json \<Rightarrow> string" where
  "task_failure_message body =
     unwrap_or ''aiapidev task failed'' (or_else (nonblank_str body ''errorMessage'') (nonblank_str body ''errorCode''))"

record 'w task_world =
  create_task :: "task_target \<Rightarrow> json \<Rightarrow> (http_reply, 'w) io"
  poll_world_of :: "'w \<Rightarrow> poll_world"
  poll_start :: "'w \<Rightarrow> nat"
  after_polls :: "nat \<Rightarrow> 'w \<Rightarrow> 'w"
  task_services :: "'w response_services"
  task_codec :: codec
  task_decode :: "bytes \<Rightarrow> bytes option"
  task_to_vec :: "json \<Rightarrow> string + bytes"

text \<open>From the task's body to the response.\<close>

definition finish_task :: "error_texts \<Rightarrow> 'w task_world \<Rightarrow> config \<Rightarrow> output_mode \<Rightarrow> json \<Rightarrow> 'w \<Rightarrow> down_response \<times> 'w" where
  "finish_task T W c mode task_body w =
     (if task_status task_body \<noteq> ''succeeded'' then (short_error 502 (task_failure_message task_body), w)
      else case normalize_aiapidev_task_response (task_services W) c mode task_body w of
        (Inl err, w') \<Rightarrow> (short_error 502 (error_text T err), w')
      | (Inr final_json, w') \<Rightarrow>
          (let final_json = keep_largest_inline_image (remove_thought_signatures final_json)
           in case optimize_inline_data_images (b64_encode (task_services W)) (task_decode W) (task_codec W) c final_json of
                Inl err \<Rightarrow> (short_error 502 (error_text T err), w')
              | Inr body \<Rightarrow>
                  (case task_to_vec W body of
                     Inl err \<Rightarrow> (short_error 502 err, w')
                   | Inr b \<Rightarrow> (\<lparr>down_status = 200, down_content_type = application_json, down_body = RawBytes b\<rparr>, w'))))"

definition handle_aiapidev_response :: "upstream_ops \<Rightarrow> error_texts \<Rightarrow> 'w task_world \<Rightarrow> config \<Rightarrow> resolved_upstream
    \<Rightarrow> string \<Rightarrow> string option \<Rightarrow> json \<Rightarrow> output_mode \<Rightarrow> 'w \<Rightarrow> down_response \<times> 'w" where
  "handle_aiapidev_response U T W c resolved target_path request_query request_body mode w =
     (case build_upstream_url U (base_url resolved) target_path request_query of
        Inl err \<Rightarrow> (short_error 502 (error_text T err), w)
      | Inr upstream_url \<Rightarrow>
          (case create_task W (upstream_url, api_key resolved) request_body w of
             (Inl err, w1) \<Rightarrow> (short_error 502 (error_text T err), w1)
           | (Inr reply, w1) \<Rightarrow>
               if \<not> is_success (reply_status reply) then (raw_reqwest_response reply, w1)
               else case reply_json (poll_world_of W w1) reply of
                 None \<Rightarrow> (proxy_error_response 502 ''failed to parse aiapidev create response'' ''aiapidev_create_task'' ''invalid_json'', w1)
               | Some created_task \<Rightarrow>
                   (case request_id_of created_task of
                      None \<Rightarrow> (short_error 502 ''aiapidev task create response missing requestId'', w1)
                    | Some request_id \<Rightarrow>
                        (case poll_aiapidev_task U T (poll_world_of W w1) resolved request_id (poll_start W w1) of
                           (Inl response, k) \<Rightarrow> (response, after_polls W k w1)
                         | (Inr task_body, k) \<Rightarrow> finish_task T W c mode task_body (after_polls W k w1)))))"

section \<open>The loop ends\<close>

lemma poll_loop_attempts:
  "poll_loop w u deadline n fails now = (r, k) \<Longrightarrow> k \<le> Suc (n + (deadline + 999 - now) div 1000)"
proof (induction w u deadline n fails now arbitrary: r k rule: poll_loop.induct)
  case (1 w u deadline n fails now)
  show ?case
  proof (cases "judge w fails (poll_reply w n u)")
    case (Again fails')
    show ?thesis
    proof (cases "now + poll_elapsed w n \<ge> deadline")
      case False
      let ?next = "now + poll_elapsed w n + AIAPIDEV_POLL_INTERVAL + poll_oversleep w n"
      from 1(2) Again False have "poll_loop w u deadline (Suc n) fails' ?next = (r, k)"
        by (simp add: poll_loop.simps [of w u deadline n] Let_def)
      from 1(1) [OF refl Again False this] have "k \<le> Suc (Suc n + (deadline + 999 - ?next) div 1000)" .
      moreover have "(deadline + 999 - ?next) div 1000 \<le> (deadline + 999 - now - 1000) div 1000"
        by (intro div_le_mono) (simp add: AIAPIDEV_POLL_INTERVAL_def)
      moreover have "Suc ((deadline + 999 - now - 1000) div 1000) = (deadline + 999 - now) div 1000"
        using False le_div_geq [of 1000 "deadline + 999 - now"] by simp
      ultimately show ?thesis by linarith
    qed (use 1(2) Again in \<open>simp add: poll_loop.simps [of w u deadline n] Let_def\<close>)
  qed (use 1(2) in \<open>simp_all add: poll_loop.simps [of w u deadline n] Let_def\<close>)
qed

lemma poll_loop_Ok:
  "poll_loop w u deadline n fails now = (Ok body, k) \<Longrightarrow>
     \<exists>i reply. k = Suc i \<and> n \<le> i \<and> poll_reply w i u = Inr reply \<and> is_success (reply_status reply)
       \<and> reply_json w reply = Some body \<and> is_aiapidev_terminal_status (task_status body)"
proof (induction w u deadline n fails now arbitrary: k rule: poll_loop.induct)
  case (1 w u deadline n fails now)
  show ?case
  proof (cases "judge w fails (poll_reply w n u)")
    case (Finished b)
    with 1(2) have "b = body" "k = Suc n" by (simp_all add: poll_loop.simps [of w u deadline n] Let_def)
    with Finished show ?thesis
      by (auto simp: judge_def split: sum.splits if_splits option.splits)
  next
    case (Again fails')
    with 1(2) have lt: "\<not> now + poll_elapsed w n \<ge> deadline"
      by (auto simp: poll_loop.simps [of w u deadline n] Let_def split: if_splits)
    with 1(2) Again have "poll_loop w u deadline (Suc n) fails' (now + poll_elapsed w n + AIAPIDEV_POLL_INTERVAL + poll_oversleep w n) = (Ok body, k)"
      by (simp add: poll_loop.simps [of w u deadline n] Let_def)
    from 1(1) [OF refl Again lt this] show ?thesis by auto
  qed (use 1(2) in \<open>simp add: poll_loop.simps [of w u deadline n] Let_def\<close>)
qed

section \<open>A finished task is found\<close>

definition attempt_failed :: "reqwest_error + http_reply \<Rightarrow> bool" where
  "attempt_failed r = (case r of Inl e \<Rightarrow> True | Inr reply \<Rightarrow> \<not> is_success (reply_status reply))"

fun failures_before :: "poll_world \<Rightarrow> task_target \<Rightarrow> nat \<Rightarrow> nat" where
  "failures_before w u 0 = 0"
| "failures_before w u (Suc i) = (if attempt_failed (poll_reply w i u) then Suc (failures_before w u i) else 0)"

fun attempt_start :: "poll_world \<Rightarrow> nat \<Rightarrow> nat \<Rightarrow> nat" where
  "attempt_start w started 0 = started"
| "attempt_start w started (Suc i) = attempt_start w started i + poll_elapsed w i + AIAPIDEV_POLL_INTERVAL + poll_oversleep w i"

text \<open>An attempt that leaves the task open: a task not yet finished, or a passing failure.\<close>

definition task_open :: "poll_world \<Rightarrow> task_target \<Rightarrow> nat \<Rightarrow> bool" where
  "task_open w u i \<longleftrightarrow>
     (case poll_reply w i u of
        Inl e \<Rightarrow> failures_before w u (Suc i) < 5
      | Inr reply \<Rightarrow>
          if is_success (reply_status reply)
          then (\<exists>b. reply_json w reply = Some b \<and> \<not> is_aiapidev_terminal_status (task_status b))
          else is_aiapidev_retryable_poll_status (reply_status reply) \<and> failures_before w u (Suc i) < 5)"

lemma judge_open: "task_open w u i \<Longrightarrow> judge w (failures_before w u i) (poll_reply w i u) = Again (failures_before w u (Suc i))"
  by (auto simp: task_open_def judge_def attempt_failed_def AIAPIDEV_MAX_CONSECUTIVE_POLL_FAILURES_def split: sum.splits if_splits)

lemma poll_loop_finds:
  assumes "n \<le> m" "\<forall>i < m. task_open w u i \<and> attempt_start w started i + poll_elapsed w i < deadline"
    and "poll_reply w m u = Inr reply" "is_success (reply_status reply)" "reply_json w reply = Some body"
    and "is_aiapidev_terminal_status (task_status body)"
  shows "poll_loop w u deadline n (failures_before w u n) (attempt_start w started n) = (Ok body, Suc m)"
  using assms(1)
proof (induction rule: inc_induct)
  case base
  then show ?case using assms(3-) by (simp add: poll_loop.simps [of w u deadline m] judge_def Let_def)
next
  case (step n)
  with assms(2) have "task_open w u n" "\<not> attempt_start w started n + poll_elapsed w n \<ge> deadline" by auto
  with step show ?case
    by (subst poll_loop.simps) (simp add: judge_open Let_def)
qed

section \<open>Properties\<close>

definition demo_poll :: "nat \<Rightarrow> poll_world" where
  "demo_poll m =
     \<lparr>poll_reply = \<lambda>n t. Ok \<lparr>reply_status = (if n < m then 503 else 200), reply_content_type = None, reply_body = Ok []\<rparr>,
      poll_elapsed = \<lambda>_. 10, poll_oversleep = \<lambda>_. 0,
      poll_parse = \<lambda>b. Some (JObject [(''status'', JString ''SUCCEEDED'')])\<rparr>"

definition demo_upstream_ops :: upstream_ops where
  "demo_upstream_ops =
     \<lparr>base_ops = up_urls demo_upload_env, with_path = \<lambda>p u. u\<lparr>url_path := p\<rparr>, with_query = \<lambda>q u. u\<lparr>url_query := q\<rparr>,
      form_parse = \<lambda>_. [], form_serialize = \<lambda>_. []\<rparr>"

definition demo_texts :: error_texts where
  "demo_texts = \<lparr>show_status = show_nat, show_duration = show_nat\<rparr>"

definition demo_resolved :: resolved_upstream where
  "demo_resolved = \<lparr>base_url = ''https://r2.example'', api_key = ''k''\<rparr>"

text \<open>
  C32: Polling ends after at most 451 requests, whatever the upstream answers and however long
  requests and pauses take, and it returns a task only when the last request succeeded and
  the task was in one of the final states.
\<close>

theorem poll_terminates:
  "case poll_aiapidev_task U T w resolved request_id started of
     (r, k) \<Rightarrow> k \<le> 451
       \<and> (\<forall>body. r = Ok body \<longrightarrow>
            (\<exists>u i reply. k = Suc i \<and> poll_reply w i (u, api_key resolved) = Inr reply \<and> is_success (reply_status reply)
               \<and> reply_json w reply = Some body \<and> is_aiapidev_terminal_status (task_status body)))"
proof (cases "build_upstream_url U (base_url resolved) (''/v1beta/tasks/'' @ request_id) None")
  case (Inr url)
  obtain r k where run: "poll_loop w (url, api_key resolved) (started + AIAPIDEV_MAX_POLL_TIME) 0 0 started = (r, k)"
    by (metis prod.collapse)
  have "(started + AIAPIDEV_MAX_POLL_TIME + 999 - started) div 1000 = 450"
    by (simp add: AIAPIDEV_MAX_POLL_TIME_def)
  with poll_loop_attempts [OF run] have "k \<le> 451" by simp
  moreover have "\<exists>u i reply. k = Suc i \<and> poll_reply w i (u, api_key resolved) = Inr reply \<and> is_success (reply_status reply)
      \<and> reply_json w reply = Some body \<and> is_aiapidev_terminal_status (task_status body)" if "r = Ok body" for body
    using poll_loop_Ok [OF run [unfolded that]] by blast
  ultimately show ?thesis using Inr run by (simp add: poll_aiapidev_task_def)
qed (simp add: poll_aiapidev_task_def)

theorem poll_terminates_witness:
  "snd (poll_aiapidev_task demo_upstream_ops demo_texts (demo_poll 2) demo_resolved ''t1'' 0) \<le> 451"
  using poll_terminates [where U = demo_upstream_ops and T = demo_texts and w = "demo_poll 2" and resolved = demo_resolved
      and request_id = "''t1''" and started = 0]
  by (simp add: case_prod_beta)

text \<open>
  A task that finishes is reported: if attempt \<open>m\<close> finds the task in a final state, and each
  earlier attempt ended before the deadline and found the task unfinished or failed in a
  way that may pass, with never five failures in a row, then polling returns the task after
  exactly \<open>m + 1\<close> attempts.
\<close>

theorem poll_finds_finished_task:
  assumes "build_upstream_url U (base_url resolved) (''/v1beta/tasks/'' @ request_id) None = Ok url"
    and "\<forall>i < m. task_open w (url, api_key resolved) i \<and> attempt_start w started i + poll_elapsed w i < started + 450000"
    and "poll_reply w m (url, api_key resolved) = Inr reply" "is_success (reply_status reply)"
    and "reply_json w reply = Some body" "is_aiapidev_terminal_status (task_status body)"
  shows "poll_aiapidev_task U T w resolved request_id started = (Ok body, Suc m)"
  using poll_loop_finds [of 0 m w "(url, api_key resolved)" started "started + 450000" reply body] assms
  by (simp add: poll_aiapidev_task_def AIAPIDEV_MAX_POLL_TIME_def)

theorem poll_finds_finished_task_witness:
  "poll_aiapidev_task demo_upstream_ops demo_texts (demo_poll 2) demo_resolved ''t1'' 0
     = (Ok (JObject [(''status'', JString ''SUCCEEDED'')]), 3)"
proof -
  have u: "build_upstream_url demo_upstream_ops (base_url demo_resolved) (''/v1beta/tasks/'' @ ''t1'') None
      = Ok ''https://r2.example/v1beta/tasks/t1''"
    by (simp add: build_upstream_url_def demo_upstream_ops_def demo_upload_env_def demo_endpoint_def anyhow_of_def)
  have s: "task_status (JObject [(''status'', JString ''SUCCEEDED'')]) = ''succeeded''" by code_simp
  have o: "\<forall>i < 2. task_open (demo_poll 2) (''https://r2.example/v1beta/tasks/t1'', api_key demo_resolved) i
      \<and> attempt_start (demo_poll 2) 0 i + poll_elapsed (demo_poll 2) i < 0 + 450000"
    by (auto simp: less_2_cases_iff task_open_def demo_poll_def is_success_def is_aiapidev_retryable_poll_status_def
        attempt_failed_def AIAPIDEV_POLL_INTERVAL_def)
  show ?thesis
    using poll_finds_finished_task [OF u o, of "\<lparr>reply_status = 200, reply_content_type = None, reply_body = Ok []\<rparr>"
        "JObject [(''status'', JString ''SUCCEEDED'')]" demo_texts] s
    by (simp add: demo_poll_def is_success_def reply_json_def is_aiapidev_terminal_status_def numeral_3_eq_3)
qed

end
