(* ===== verification/Gateway.thy ===== *)
theory Gateway
  imports App_State Openai_Image Aiapidev_Tasks
begin

text \<open>
  The request handlers (rust-sync-proxy/src/http/router.rs): \<open>model_action\<close> for the Gemini
  endpoint and \<open>image_generations_action\<close> for the OpenAI endpoint, with the forwarding and the
  response handling behind them.

  A handler is a function of the shared state, the request and the world \<open>'w\<close> of the parties
  outside the process; it returns its response with the new state and world.  What the
  libraries and the outside contribute is collected in the record \<open>gateway\<close>: codecs, URL and
  JSON libraries, the answers of the fetch services, \<open>send\<close> of the upstream client, the
  measured times.  The downloads of a request run along a schedule of their tasks; a handler
  returns \<open>None\<close> only for a schedule that is not a complete run.

  This theory holds the definitions; Gateway_Effects shows what the steps do to the state and
  Gateway_Service the properties.
\<close>

section \<open>What a handler is given\<close>

definition MAX_REQUEST_BODY_BYTES :: nat where
  "MAX_REQUEST_BODY_BYTES = 20 * 1024 * 1024"

text \<open>A request; the body is the list of its frames, the last possibly an error.\<close>

record http_request =
  rq_method :: string
  rq_path :: string
  rq_query :: "string option"
  rq_headers :: "(string \<times> bytes) list"
  rq_body :: "(string + bytes) list"

text \<open>A request to the upstream.\<close>

record sent_request =
  sent_url :: string
  sent_headers :: "(string \<times> bytes) list"
  sent_body :: bytes

record clock =
  ck_created_at :: string
  ck_total :: i64
  ck_parse :: i64
  ck_forward_parse :: i64
  ck_prepare :: i64
  ck_materialize :: i64
  ck_encode :: i64
  ck_build :: i64
  ck_response :: i64
  ck_upload :: i64

record 'w gateway =
  gw_urls :: upstream_ops
  gw_texts :: error_texts
  gw_json :: json_lib
  gw_encoder :: encode_env
  gw_pipe_reads :: "bytes \<Rightarrow> (string + bytes) list"
  gw_on_abort :: "runtime \<Rightarrow> runtime"
  gw_b64_decode :: "bytes \<Rightarrow> bytes option"
  gw_decode_error :: "bytes \<Rightarrow> string"
  gw_query_encode :: "string \<Rightarrow> string"
  gw_codec :: codec
  gw_work :: work_world
  gw_images :: "http_client \<Rightarrow> http"
  gw_request_fetch :: "fetch_service \<Rightarrow> string \<Rightarrow> anyhow + fetch_result"
  gw_response_fetch :: "fetch_service \<Rightarrow> string \<Rightarrow> (fetch_result, 'w) io"
  gw_upload_env :: upload_env
  gw_upload_io :: "http_client \<Rightarrow> 'w upload_io"
  gw_tasks :: "http_client \<Rightarrow> 'w task_world"
  gw_send :: "http_client \<Rightarrow> sent_request \<Rightarrow> 'w \<Rightarrow> (reqwest_error + http_reply) \<times> 'w"
  gw_builder_error :: "string \<Rightarrow> reqwest_error"
  gw_limit_error :: string
  gw_unix_secs :: "'w \<Rightarrow> i64 \<times> 'w"
  gw_clock :: clock

text \<open>\<open>to_bytes\<close>: the frames are collected while they fit into what is left of the limit.\<close>

fun to_bytes :: "string \<Rightarrow> nat \<Rightarrow> (string + bytes) list \<Rightarrow> string + bytes" where
  "to_bytes too_long remaining [] = Ok []"
| "to_bytes too_long remaining (Inl t # fs) = Err t"
| "to_bytes too_long remaining (Inr b # fs) =
     (if length b > remaining then Err too_long
      else and_then (to_bytes too_long (remaining - length b) fs) (\<lambda>bs. Ok (b @ bs)))"

record forward_request_failure =
  ff_error :: anyhow
  ff_entry :: admin_log_entry

definition failing :: "anyhow \<Rightarrow> admin_log_entry \<Rightarrow> forward_request_failure" where
  "failing err e = \<lparr>ff_error = err, ff_entry = e\<rparr>"

definition request_services :: "'w gateway \<Rightarrow> 'c app_state \<Rightarrow> bool \<Rightarrow> request_materialize_services" where
  "request_services E st obs =
     \<lparr>request_materialize_services.image_client = gw_images E (image_http_client st), mat_max_image_bytes = REQUEST_MAX_IMAGE_BYTES,
      mat_allow_private_networks = False,
      enable_webp_optimization = enable_request_image_webp_optimization (app_config st),
      mat_fetch_service = map_option (\<lambda>f. gw_request_fetch E (fetcher_service f)) (request_fetcher st),
      cache_observer = obs\<rparr>"

definition response_services :: "'w gateway \<Rightarrow> 'c app_state \<Rightarrow> 'w response_services" where
  "response_services E st =
     \<lparr>fetch_service_of = map_option (\<lambda>f. gw_response_fetch E (fetcher_service f)) (response_fetcher st),
      response_services.image_client = gw_images E (image_http_client st), b64_encode = b64 (gw_encoder E),
      query_encode = gw_query_encode E\<rparr>"

definition task_world_of :: "'w gateway \<Rightarrow> 'c app_state \<Rightarrow> 'w task_world" where
  "task_world_of E st =
     (gw_tasks E (upstream_client st))\<lparr>task_services := response_services E st, task_codec := gw_codec E,
        task_decode := gw_b64_decode E, task_to_vec := print_json (gw_json E)\<rparr>"

definition reply_world_of :: "'w gateway \<Rightarrow> 'w reply_world" where
  "reply_world_of E =
     \<lparr>reply_world.from_slice = parse_json (gw_json E), to_vec = print_json (gw_json E), decode_error = gw_decode_error E,
      unix_secs = gw_unix_secs E, total_elapsed = ck_response (gw_clock E), upload_elapsed = ck_upload (gw_clock E)\<rparr>"

section \<open>The upstream's answer\<close>

definition handle_non_stream_response :: "'w gateway \<Rightarrow> 'w response_services \<Rightarrow> 'w upload_io \<Rightarrow> config \<Rightarrow> output_mode
    \<Rightarrow> http_reply \<Rightarrow> (down_response \<times> response_stage_durations, 'w) io" where
  "handle_non_stream_response E sv io c mode reply =
     (let st = reply_status reply;
          ct = unwrap_or application_json (reply_content_type reply);
          J = gw_json E;
          passed = (\<lambda>b. (\<lparr>down_status = st, down_content_type = ct, down_body = RawBytes b\<rparr>,
                         \<lparr>stage_process_ms = ck_response (gw_clock E), stage_upload_ms = 0\<rparr>))
      in case reply_body reply of
           Inl e \<Rightarrow> lift_io (Err (body_truncated e))
         | Inr body_bytes \<Rightarrow>
             if \<not> is_success st then
               lift_io (Ok (passed (unwrap_or body_bytes
                 (annotate_upstream_error_json (\<lambda>b. ok_of (parse_json J b)) (\<lambda>v. ok_of (print_json J v)) st body_bytes))))
             else
               (case parse_json J body_bytes of
                  Inl _ \<Rightarrow> lift_io (Ok (passed body_bytes))
                | Inr json_body \<Rightarrow>
                    bind_io (normalize_special_markdown_image_response sv c mode json_body) (\<lambda>normalized.
                    bind_io (lift_io (optimize_inline_data_images (b64 (gw_encoder E)) (gw_b64_decode E) (gw_codec E) c
                                (keep_largest_inline_image (remove_thought_signatures normalized)))) (\<lambda>optimized.
                    bind_io (if mode = ModeUrl then finalize_output_urls (gw_upload_env E) io c optimized
                             else lift_io (Ok optimized)) (\<lambda>final_json.
                    bind_io (lift_io (anyhow_of (print_json J final_json))) (\<lambda>final_body.
                      (let up = (if mode = ModeUrl then ck_upload (gw_clock E) else 0)
                       in lift_io (Ok (\<lparr>down_status = st, down_content_type = ct, down_body = RawBytes final_body\<rparr>,
                                       \<lparr>stage_process_ms = saturating_sub (ck_response (gw_clock E)) up,
                                        stage_upload_ms = up\<rparr>)))))))))"

section \<open>Forwarding a Gemini request\<close>

definition observe_all :: "(string \<times> bool) list \<Rightarrow> request_cache_tracking \<Rightarrow> 'c app_state \<Rightarrow> request_cache_tracking \<times> 'c app_state" where
  "observe_all told t st =
     (case app_admin st of
        None \<Rightarrow> (t, st)
      | Some a \<Rightarrow>
          (let (s', t') = fold observe told (stats a, t)
           in (t', st\<lparr>app_admin := Some (a\<lparr>stats := s'\<rparr>)\<rparr>)))"

text \<open>The times of a download that succeeded.\<close>

definition timed :: "clock \<Rightarrow> materialized_request_images \<Rightarrow> admin_log_entry \<Rightarrow> admin_log_entry" where
  "timed ck m e =
     e\<lparr>request_image_prepare_ms := ck_prepare ck, request_image_materialize_ms := ck_materialize ck,
       request_image_fetch_work_ms := mat_fetch_work_ms m, request_image_store_work_ms := mat_store_work_ms m\<rparr>"

text \<open>Encoding the body and dropping the images' blobs; the images are those of \<open>m\<close>.\<close>

definition encode_and_drop :: "'w gateway \<Rightarrow> materialized_request_images \<Rightarrow> admin_log_entry \<Rightarrow> request_cache_tracking \<Rightarrow> 'c app_state
    \<Rightarrow> (forward_request_failure + encoded_request_body \<times> admin_log_entry) \<times> 'c app_state" where
  "encode_and_drop E m e t st =
     (let e1 = timed (gw_clock E) m e
      in case encode_request_body (gw_encoder E) (gw_pipe_reads E) (gw_on_abort E) (mat_request m)
                (mat_replacements m) (app_blobs st) of
           (Inl err, s2) \<Rightarrow> (Err (failing err (update_request_cache_hits t e1)), st\<lparr>app_blobs := s2\<rparr>)
         | (Inr encoded, s2) \<Rightarrow>
             (let e2 = e1\<lparr>request_encode_ms := ck_encode (gw_clock E)\<rparr>
              in case remove_all (map repl_blob (mat_replacements m)) s2 of
                   (Inl err, s3) \<Rightarrow> (Err (failing err (update_request_cache_hits t e2)), st\<lparr>app_blobs := s3\<rparr>)
                 | (Inr _, s3) \<Rightarrow> (Ok (encoded, e2), st\<lparr>app_blobs := s3\<rparr>)))"

text \<open>The way of a body up to the encoded blob, with the entry so far.\<close>

definition prepare_request :: "'w gateway \<Rightarrow> event list \<Rightarrow> json \<Rightarrow> admin_log_entry \<Rightarrow> request_cache_tracking \<Rightarrow> 'c app_state
    \<Rightarrow> ((forward_request_failure + encoded_request_body \<times> admin_log_entry) \<times> request_cache_tracking \<times> 'c app_state) option" where
  "prepare_request E schedule body e t0 st0 =
     (case materialize_request_images_with_services (gw_work E) (request_services E st0 (observing t0)) schedule body (app_blobs st0) of
        None \<Rightarrow> None
      | Some (r, told, s1) \<Rightarrow>
          (case observe_all told t0 (st0\<lparr>app_blobs := s1\<rparr>) of
             (t, st) \<Rightarrow>
               (case r of
                  Inl err \<Rightarrow>
                    Some (Err (failing err (update_request_cache_hits t (e\<lparr>request_image_prepare_ms := ck_prepare (gw_clock E)\<rparr>))),
                          t, st)
                | Inr m \<Rightarrow> (case encode_and_drop E m e t st of (encoded, st') \<Rightarrow> Some (encoded, t, st')))))"

text \<open>What the log keeps of the body sent upstream.\<close>

definition apply_upstream_log :: "sanitized_admin_log option \<Rightarrow> admin_log_entry \<Rightarrow> admin_log_entry" where
  "apply_upstream_log v e =
     e\<lparr>request_upstream := unwrap_or [] (map_option pretty v),
       request_upstream_images := unwrap_or [] (map_option image_urls v)\<rparr>"

definition upstream_headers :: "bytes option \<Rightarrow> bytes option \<Rightarrow> u64 \<Rightarrow> string \<Rightarrow> (string \<times> bytes) list" where
  "upstream_headers ct accept len key =
     (''content-length'', show_nat (unat len))
     # (case ct of None \<Rightarrow> [] | Some v \<Rightarrow> [(''content-type'', v)])
     @ (case accept of None \<Rightarrow> [] | Some v \<Rightarrow> [(''accept'', v)])
     @ [(''x-goog-api-key'', key), (''authorization'', ''Bearer '' @ key)]"

text \<open>Sending the encoded body and dropping its blob, whatever the upstream answers.\<close>

definition send_prepared :: "'w gateway \<Rightarrow> resolved_upstream \<Rightarrow> string \<Rightarrow> string option \<Rightarrow> bytes option \<Rightarrow> bytes option
    \<Rightarrow> encoded_request_body \<Rightarrow> admin_log_entry \<Rightarrow> request_cache_tracking \<Rightarrow> 'c app_state \<Rightarrow> 'w
    \<Rightarrow> (forward_request_failure + http_reply \<times> admin_log_entry) \<times> 'c app_state \<times> 'w" where
  "send_prepared E resolved target_path query ct accept encoded e t st w =
     (let s = app_blobs st;
          h = body_blob encoded;
          fail = (\<lambda>err. Err (failing err (update_request_cache_hits t e)));
          logged = (case app_admin st of
                      None \<Rightarrow> Ok None
                    | Some _ \<Rightarrow> and_then (read_bytes h s) (\<lambda>b. Ok (maybe_sanitize_json_for_log (log_json (gw_json E)) b True)))
      in case logged of
           Inl err \<Rightarrow> (fail err, st, w)
         | Inr upstream_log \<Rightarrow>
             (case build_upstream_url (gw_urls E) (base_url resolved) target_path query of
                Inl err \<Rightarrow> (fail err, st, w)
              | Inr upstream_url \<Rightarrow>
                  (case open_reader h s of
                     Inl err \<Rightarrow> (fail err, st, w)
                   | Inr request_stream \<Rightarrow>
                       (case gw_send E (upstream_client st)
                               \<lparr>sent_url = upstream_url,
                                sent_headers = upstream_headers ct accept (content_length encoded) (api_key resolved),
                                sent_body = request_stream\<rparr> w of
                          (answer, w1) \<Rightarrow>
                            (case remove h s of
                               (dropped, s1) \<Rightarrow>
                                 (case answer of
                                    Inl err \<Rightarrow>
                                      (case dropped of
                                         Inl remove_err \<Rightarrow> (fail remove_err, st\<lparr>app_blobs := s1\<rparr>, w1)
                                       | Inr _ \<Rightarrow> (fail (Reqwest err), st\<lparr>app_blobs := s1\<rparr>, w1))
                                  | Inr reply \<Rightarrow>
                                      (case dropped of
                                         Inl remove_err \<Rightarrow> (fail remove_err, st\<lparr>app_blobs := s1\<rparr>, w1)
                                       | Inr _ \<Rightarrow>
                                           (Ok (reply, apply_upstream_log upstream_log
                                                  (update_request_cache_hits t (e\<lparr>upstream_build_ms := ck_build (gw_clock E)\<rparr>))),
                                            st\<lparr>app_blobs := s1\<rparr>, w1))))))))"

definition apply_durations :: "down_response \<Rightarrow> response_stage_durations \<Rightarrow> admin_log_entry \<Rightarrow> admin_log_entry" where
  "apply_durations r d e =
     e\<lparr>entry_status_code := of_nat (down_status r), response_process_ms := stage_process_ms d, upload_ms := stage_upload_ms d\<rparr>"

text \<open>The translation for an aiapidev upstream, which gets the JSON without any download.\<close>

definition forward_aiapidev :: "'w gateway \<Rightarrow> resolved_upstream \<Rightarrow> string \<Rightarrow> string option \<Rightarrow> json \<Rightarrow> output_mode
    \<Rightarrow> admin_log_entry \<Rightarrow> 'c app_state \<Rightarrow> 'w \<Rightarrow> (forward_request_failure + down_response \<times> admin_log_entry) \<times> 'w" where
  "forward_aiapidev E resolved target_path query body mode e st w =
     (let c = app_config st;
          rewritten = rewrite_aiapidev_request_body
            \<lparr>wrap_urls = base_ops (gw_urls E), wrap_form = gw_query_encode E,
             wrap_prefix = resolved_external_image_proxy_prefix c, wrap_domains = image_fetch_external_proxy_domains c\<rparr> body;
          logged = (case app_admin st of
                      None \<Rightarrow> Ok None
                    | Some _ \<Rightarrow> and_then (anyhow_of (print_json (gw_json E) rewritten)) (\<lambda>b.
                                 Ok (maybe_sanitize_json_for_log (log_json (gw_json E)) b True)))
      in case logged of
           Inl err \<Rightarrow> (Err (failing err e), w)
         | Inr upstream_log \<Rightarrow>
             (case handle_aiapidev_response (gw_urls E) (gw_texts E) (task_world_of E st) c resolved
                     (rewrite_aiapidev_model_path target_path) query rewritten mode w of
                (response, w1) \<Rightarrow>
                  (Ok (response, (apply_upstream_log upstream_log (e\<lparr>upstream_build_ms := ck_build (gw_clock E)\<rparr>))
                         \<lparr>entry_status_code := of_nat (down_status response)\<rparr>), w1)))"

definition mode_name :: "output_mode \<Rightarrow> string" where
  "mode_name m = (case m of ModeBase64 \<Rightarrow> ''base64'' | ModeUrl \<Rightarrow> ''url'')"

text \<open>From here a handler's result is \<open>None\<close> for a schedule that is no complete run.\<close>

type_synonym ('c, 'w) forwarded =
  "((forward_request_failure + down_response \<times> admin_log_entry) \<times> 'c app_state \<times> 'w) option"

definition forward_standard :: "'w gateway \<Rightarrow> event list \<Rightarrow> resolved_upstream \<Rightarrow> string \<Rightarrow> http_request \<Rightarrow> json
    \<Rightarrow> output_mode \<Rightarrow> admin_log_entry \<Rightarrow> 'c app_state \<Rightarrow> 'w \<Rightarrow> ('c, 'w) forwarded" where
  "forward_standard E schedule resolved target_path request body mode e st w =
     (case prepare_request E schedule body e (build_request_cache_tracking (map_option stats (app_admin st))) st of
        None \<Rightarrow> None
      | Some (Inl ff, t, st1) \<Rightarrow> Some (Err ff, st1, w)
      | Some (Inr (encoded, e1), t, st1) \<Rightarrow>
          (case send_prepared E resolved target_path (rq_query request) (map_of (rq_headers request) ''content-type'')
                  (map_of (rq_headers request) ''accept'') encoded e1 t st1 w of
             (Inl ff, st2, w2) \<Rightarrow> Some (Err ff, st2, w2)
           | (Inr (reply, e2), st2, w2) \<Rightarrow>
               (case handle_non_stream_response E (response_services E st2) (gw_upload_io E (upload_client st2))
                       (app_config st2) mode reply w2 of
                  (Inl err, w3) \<Rightarrow> Some (Err (failing err e2), st2, w3)
                | (Inr (response, durations), w3) \<Rightarrow>
                    Some (Ok (response, apply_durations response durations e2), st2, w3))))"

definition forward_gemini_request :: "'w gateway \<Rightarrow> event list \<Rightarrow> resolved_upstream \<Rightarrow> string \<Rightarrow> http_request
    \<Rightarrow> request_log_snapshot \<Rightarrow> 'c app_state \<Rightarrow> 'w \<Rightarrow> ('c, 'w) forwarded" where
  "forward_gemini_request E schedule resolved target_path request snap st w =
     (case to_bytes (gw_limit_error E) MAX_REQUEST_BODY_BYTES (rq_body request) of
        Inl err \<Rightarrow> Some (Err (failing (Message (''failed to read request body: '' @ err)) (base_entry snap)), st, w)
      | Inr request_body \<Rightarrow>
          (let e = (base_entry snap)\<lparr>request_parse_ms := ck_forward_parse (gw_clock E)\<rparr>
           in case parse_json (gw_json E) request_body of
                Inl err \<Rightarrow>
                  Some (Err (failing (Structured ''invalid request json body'' ''parse_request_json'' ''invalid_json''
                                        (''invalid request json body: '' @ err)) e), st, w)
              | Inr body \<Rightarrow>
                  (let mode = get_output_mode (gw_urls E) (rq_query request) body;
                       e1 = e\<lparr>entry_output_mode := mode_name mode\<rparr>
                   in if is_aiapidev_base_url (base_ops (gw_urls E)) (base_url resolved) then
                        (case forward_aiapidev E resolved target_path (rq_query request) body mode e1 st w of
                           (r, w1) \<Rightarrow> Some (r, st, w1))
                      else forward_standard E schedule resolved target_path request body mode e1 st w)))"

section \<open>Forwarding an OpenAI image request\<close>

text \<open>\<open>json(&body)\<close> of the request builder fails, at \<open>send\<close>, when the body cannot be printed.\<close>

definition send_json :: "'w gateway \<Rightarrow> http_client \<Rightarrow> string \<Rightarrow> (string \<times> bytes) list \<Rightarrow> json \<Rightarrow> 'w
    \<Rightarrow> (reqwest_error + http_reply) \<times> 'w" where
  "send_json E client url headers body w =
     (case print_json (gw_json E) body of
        Inl t \<Rightarrow> (Inl (gw_builder_error E t), w)
      | Inr b \<Rightarrow> gw_send E client \<lparr>sent_url = url, sent_headers = headers, sent_body = b\<rparr> w)"

definition forward_openai_image_request :: "'w gateway \<Rightarrow> resolved_upstream \<Rightarrow> json \<Rightarrow> string option \<Rightarrow> request_log_snapshot
    \<Rightarrow> 'c app_state \<Rightarrow> 'w \<Rightarrow> (forward_request_failure + down_response \<times> admin_log_entry) \<times> 'w" where
  "forward_openai_image_request E resolved request_body query snap st w =
     (let e = (base_entry snap)\<lparr>entry_output_mode := ''url''\<rparr>;
          logged = (case app_admin st of
                      None \<Rightarrow> Ok None
                    | Some _ \<Rightarrow> and_then (anyhow_of (print_json (gw_json E) request_body)) (\<lambda>b.
                                 Ok (maybe_sanitize_json_for_log (log_json (gw_json E)) b True)))
      in case logged of
           Inl err \<Rightarrow> (Err (failing err e), w)
         | Inr upstream_log \<Rightarrow>
             (case build_upstream_url (gw_urls E) (base_url resolved) ''/v1/images/generations'' query of
                Inl err \<Rightarrow> (Err (failing err e), w)
              | Inr upstream_url \<Rightarrow>
                  (case send_json E (upstream_client st) upstream_url
                          [(''content-type'', application_json), (''authorization'', ''Bearer '' @ api_key resolved)] request_body w of
                     (Inl err, w1) \<Rightarrow> (Err (failing (Reqwest err) e), w1)
                   | (Inr reply, w1) \<Rightarrow>
                       (let e1 = apply_upstream_log upstream_log (e\<lparr>upstream_build_ms := ck_build (gw_clock E)\<rparr>)
                        in case handle_openai_image_response (reply_world_of E) (gw_upload_env E)
                                  (gw_upload_io E (upload_client st)) (app_config st) reply w1 of
                             (Inl err, w2) \<Rightarrow> (Err (failing err e1), w2)
                           | (Inr (response, durations), w2) \<Rightarrow>
                               (Ok (response, apply_durations response durations e1), w2)))))"

section \<open>The handlers\<close>

definition remote_addr_of :: "http_request \<Rightarrow> string" where
  "remote_addr_of request =
     unwrap_or [] (and_then_opt (map_of (rq_headers request) ''x-forwarded-for'') header_to_str)"

text \<open>The fields of an entry that describe the request and how long it took.\<close>

definition describe_request :: "clock \<Rightarrow> http_request \<Rightarrow> admin_log_entry \<Rightarrow> admin_log_entry" where
  "describe_request ck request e =
     e\<lparr>created_at := ck_created_at ck, entry_method := rq_method request, entry_path := rq_path request,
       entry_query := unwrap_or [] (rq_query request), remote_addr := remote_addr_of request, is_stream := False,
       duration_ms := ck_total ck\<rparr>"

definition early_entry :: "clock \<Rightarrow> http_request \<Rightarrow> nat \<Rightarrow> admin_log_entry" where
  "early_entry ck request st = (describe_request ck request default_entry)\<lparr>entry_status_code := of_nat st\<rparr>"

definition parsed_entry :: "clock \<Rightarrow> http_request \<Rightarrow> nat \<Rightarrow> admin_log_entry" where
  "parsed_entry ck request st = (early_entry ck request st)\<lparr>request_parse_ms := ck_parse ck\<rparr>"

definition proxy_failure :: "string \<Rightarrow> string \<Rightarrow> string \<Rightarrow> string \<Rightarrow> admin_log_entry \<Rightarrow> admin_log_entry" where
  "proxy_failure stage kind message detail e =
     e\<lparr>error_source := ''proxy'', error_stage := stage, error_kind := kind, error_message := message, error_detail := detail\<rparr>"

text \<open>The answers to a body that cannot be read, that is no JSON, or that names no upstream.\<close>

definition refuse_body :: "clock \<Rightarrow> http_request \<Rightarrow> string \<Rightarrow> down_response \<times> admin_log_entry" where
  "refuse_body ck request err =
     (json_response 502 (proxy_error_json 502 ''failed to read request body'' ''proxy'' ''read_request_body'' ''request_body_read_failed''),
      proxy_failure ''read_request_body'' ''request_body_read_failed'' ''failed to read request body'' err (parsed_entry ck request 502))"

definition refuse_json :: "clock \<Rightarrow> http_request \<Rightarrow> request_log_snapshot \<Rightarrow> string \<Rightarrow> down_response \<times> admin_log_entry" where
  "refuse_json ck request snap err =
     (json_response 502 (proxy_error_json 502 ''invalid request json body'' ''proxy'' ''parse_request_json'' ''invalid_json''),
      apply_to_entry snap (proxy_failure ''parse_request_json'' ''invalid_json'' ''invalid request json body''
        (''invalid request json body: '' @ err) (parsed_entry ck request 502)))"

definition refuse_upstream :: "clock \<Rightarrow> http_request \<Rightarrow> request_log_snapshot \<Rightarrow> resolve_upstream_error \<Rightarrow> down_response \<times> admin_log_entry" where
  "refuse_upstream ck request snap err =
     (let st = status_code err
      in (short_error st (resolve_upstream_error.error_message err), apply_to_entry snap (parsed_entry ck request st)))"

definition text_header_map :: "(string \<times> bytes) list \<Rightarrow> (string \<times> string option) list" where
  "text_header_map hs = map (\<lambda>(n, v). (n, header_to_str v)) hs"

text \<open>The last fields of the entry of a forwarded request.\<close>

definition complete_entry :: "clock \<Rightarrow> http_request \<Rightarrow> admin_log_entry \<Rightarrow> admin_log_entry" where
  "complete_entry ck request e = (describe_request ck request e)\<lparr>request_parse_ms := request_parse_ms e + ck_parse ck\<rparr>"

text \<open>The answer to a request whose forwarding failed; \<open>structured\<close> errors keep their classification.\<close>

definition answer_failure :: "error_texts \<Rightarrow> bool \<Rightarrow> anyhow \<Rightarrow> admin_log_entry \<Rightarrow> down_response \<times> admin_log_entry" where
  "answer_failure T classify err e =
     (if classify then
        (case classify_standard_proxy_error_detail err of
           Some structured \<Rightarrow> (build_structured_proxy_error_response structured, apply_structured_proxy_error structured e)
         | None \<Rightarrow>
             (case classify_standard_proxy_error err of
                Some v \<Rightarrow> (json_response 502 v, e)
              | None \<Rightarrow> (short_error 502 (error_text T err), e)))
      else (short_error 502 (error_text T err), e))"

definition answer_forwarded :: "'w gateway \<Rightarrow> http_request \<Rightarrow> bool
    \<Rightarrow> forward_request_failure + down_response \<times> admin_log_entry \<Rightarrow> down_response \<times> admin_log_entry" where
  "answer_forwarded E request classify r =
     (case r of
        Inr (response, e) \<Rightarrow> (response, complete_entry (gw_clock E) request e)
      | Inl ff \<Rightarrow>
          answer_failure (gw_texts E) classify (ff_error ff)
            ((complete_entry (gw_clock E) request (ff_entry ff))\<lparr>entry_status_code := 502\<rparr>))"

definition finish :: "'w gateway \<Rightarrow> down_response \<times> admin_log_entry \<Rightarrow> 'c app_state \<Rightarrow> down_response \<times> 'c app_state" where
  "finish E answer st = finalize_admin_response (gw_json E) (fst answer) (snd answer) st"

type_synonym ('c, 'w) handled = "(down_response \<times> 'c app_state \<times> 'w) option"

definition image_generations_action :: "'w gateway \<Rightarrow> http_request \<Rightarrow> 'c app_state \<Rightarrow> 'w \<Rightarrow> ('c, 'w) handled" where
  "image_generations_action E request st w =
     (let ck = gw_clock E;
          done = (\<lambda>answer w'. case finish E answer st of (r, st') \<Rightarrow> Some (r, st', w'))
      in case to_bytes (gw_limit_error E) MAX_REQUEST_BODY_BYTES (rq_body request) of
           Inl err \<Rightarrow> done (refuse_body ck request err) w
         | Inr request_body \<Rightarrow>
             (let snap = from_request_body (gw_json E) request_body (app_admin st \<noteq> None)
              in case parse_json (gw_json E) request_body of
                   Inl err \<Rightarrow> done (refuse_json ck request snap err) w
                 | Inr parsed_body \<Rightarrow>
                     (case normalize_request_body (base_ops (gw_urls E)) parsed_body of
                        Inl err \<Rightarrow>
                          done (short_error 400 (error_text (gw_texts E) err),
                                apply_to_entry snap (proxy_failure ''normalize_openai_image_request'' ''invalid_request''
                                  ''invalid openai image request'' (error_text (gw_texts E) err) (parsed_entry ck request 400))) w
                      | Inr normalized_body \<Rightarrow>
                          (case resolve_upstream_for_request_from_header_map (base_ops (gw_urls E))
                                  (text_header_map (rq_headers request)) normalized_body
                                  (upstream_base_url (app_config st)) (upstream_api_key (app_config st)) of
                             Inl err \<Rightarrow> done (refuse_upstream ck request snap err) w
                           | Inr resolved \<Rightarrow>
                               (case forward_openai_image_request E resolved normalized_body
                                       (filter_option (\<lambda>q. q \<noteq> []) (rq_query request)) snap st w of
                                  (r, w1) \<Rightarrow> done (answer_forwarded E request True r) w1)))))"

definition generate_content :: string where
  "generate_content = '':generateContent''"

definition model_action :: "'w gateway \<Rightarrow> event list \<Rightarrow> string \<Rightarrow> http_request \<Rightarrow> 'c app_state \<Rightarrow> 'w \<Rightarrow> ('c, 'w) handled" where
  "model_action E schedule rest request st w =
     (let ck = gw_clock E;
          done = (\<lambda>answer st' w'. case finish E answer st' of (r, st'') \<Rightarrow> Some (r, st'', w'))
      in if \<not> ends_with rest generate_content then done (short_error 404 ''Not Found'', early_entry ck request 404) st w
         else
           (case to_bytes (gw_limit_error E) MAX_REQUEST_BODY_BYTES (rq_body request) of
              Inl err \<Rightarrow> done (refuse_body ck request err) st w
            | Inr request_body \<Rightarrow>
                (let snap = from_request_body (gw_json E) request_body (app_admin st \<noteq> None)
                 in case parse_json (gw_json E) request_body of
                      Inl err \<Rightarrow> done (refuse_json ck request snap err) st w
                    | Inr parsed_body \<Rightarrow>
                        (case resolve_upstream_for_request_from_header_map (base_ops (gw_urls E))
                                (text_header_map (rq_headers request)) parsed_body
                                (upstream_base_url (app_config st)) (upstream_api_key (app_config st)) of
                           Inl err \<Rightarrow> done (refuse_upstream ck request snap err) st w
                         | Inr resolved \<Rightarrow>
                             (case forward_gemini_request E schedule resolved (models_prefix @ rest)
                                     (request\<lparr>rq_body := [Inr request_body]\<rparr>) snap st w of
                                None \<Rightarrow> None
                              | Some (r, st1, w1) \<Rightarrow>
                                  done (answer_forwarded E request
                                    (\<not> is_aiapidev_base_url (base_ops (gw_urls E)) (base_url resolved)) r) st1 w1)))))"

section \<open>The whole service\<close>

text \<open>
  What the router does with a request: the admin endpoints read the state, the two actions
  change it, and everything else is refused by the router itself.
\<close>

datatype served =
    ServedAdmin admin_answer
  | ServedAction down_response
  | RefusedByRouter routed

definition serve :: "'w gateway \<Rightarrow> (string \<Rightarrow> string option) \<Rightarrow> event list \<Rightarrow> http_request \<Rightarrow> 'c app_state \<Rightarrow> 'w
    \<Rightarrow> (served \<times> 'c app_state \<times> 'w) option" where
  "serve E decode schedule request st w =
     (case route_request decode (rq_method request) (rq_path request) of
        Handled ImagesGenerations \<Rightarrow>
          map_option (\<lambda>(r, st', w'). (ServedAction r, st', w')) (image_generations_action E request st w)
      | Handled (Model rest) \<Rightarrow>
          map_option (\<lambda>(r, st', w'). (ServedAction r, st', w')) (model_action E schedule rest request st w)
      | Handled r \<Rightarrow>
          (case serve_admin (gw_b64_decode E) r (rq_headers request) st of
             None \<Rightarrow> None
           | Some a \<Rightarrow> Some (ServedAdmin a, st, w))
      | other \<Rightarrow> Some (RefusedByRouter other, st, w))"

end
