(* ===== verification/Gateway_Effects.thy ===== *)
theory Gateway_Effects
  imports Gateway
begin

text \<open>
  What the steps of the handlers (rust-sync-proxy/src/http/router.rs) do to the shared state.
  Shown here: forwarding changes nothing of the admin state but the count of cache hits; every
  handler ends with the last step, on an entry that describes its request; a request whose
  images can be obtained is prepared and sent as it should, and its blobs are gone
  afterwards; and every step keeps the invariant of the blobs.
\<close>

section \<open>What forwarding does to the shared state\<close>

definition hits_of :: "(string \<times> bool) list \<Rightarrow> string list" where
  "hits_of told = map fst (filter snd told)"

definition counted_hits :: "nat \<Rightarrow> admin_state \<Rightarrow> admin_state" where
  "counted_hits n a = a\<lparr>stats := (stats a)\<lparr>st_cache_hits := st_cache_hits (stats a) + of_nat n\<rparr>\<rparr>"

lemma counted_hits_0 [simp]: "counted_hits 0 a = a"
  by (simp add: counted_hits_def)

lemma fold_observe:
  "fold observe told (s, t) =
     (s\<lparr>st_cache_hits := st_cache_hits s + of_nat (length (hits_of told))\<rparr>, t\<lparr>hit_urls := hit_urls t @ hits_of told\<rparr>)"
  by (induction told arbitrary: s t) (auto simp: observe_def hits_of_def algebra_simps)

text \<open>The state after a step: the admin part is that of before with some hits counted.\<close>

definition counts :: "'c app_state \<Rightarrow> nat \<Rightarrow> 'c app_state \<Rightarrow> bool" where
  "counts st n st' \<longleftrightarrow>
     app_config st' = app_config st \<and> upstream_client st' = upstream_client st \<and> image_http_client st' = image_http_client st
   \<and> upload_client st' = upload_client st \<and> request_fetcher st' = request_fetcher st \<and> response_fetcher st' = response_fetcher st
   \<and> app_admin st' = map_option (counted_hits n) (app_admin st)"

lemma counts_refl [simp]: "counts st 0 st"
  by (cases "app_admin st") (simp_all add: counts_def)

lemma counts_blobs [simp]: "counts st n (st'\<lparr>app_blobs := s\<rparr>) = counts st n st'" "counts (st\<lparr>app_blobs := s\<rparr>) n st' = counts st n st'"
  by (simp_all add: counts_def)

lemma counts_trans: "counts st n st1 \<Longrightarrow> counts st1 0 st2 \<Longrightarrow> counts st n st2"
  by (cases "app_admin st") (auto simp: counts_def)

lemma observe_all_effect:
  assumes "observe_all told t st = (t', st')"
  shows "app_blobs st' = app_blobs st"
    "app_admin st \<noteq> None \<Longrightarrow> hit_urls t' = hit_urls t @ hits_of told \<and> counts st (length (hits_of told)) st'"
    "app_admin st = None \<Longrightarrow> t' = t \<and> st' = st"
  using assms by (auto simp: observe_all_def fold_observe counts_def counted_hits_def split: option.splits)

definition logged_entry :: "forward_request_failure + 'a \<times> admin_log_entry \<Rightarrow> admin_log_entry" where
  "logged_entry r = (case r of Inl ff \<Rightarrow> ff_entry ff | Inr (x, e) \<Rightarrow> e)"

lemma failing_simps [simp]: "ff_error (failing err e) = err" "ff_entry (failing err e) = e"
  by (simp_all add: failing_def)

lemma logged_entry_simps [simp]: "logged_entry (Err ff) = ff_entry ff" "logged_entry (Ok (x, e)) = e"
  by (simp_all add: logged_entry_def)

text \<open>An entry on its way whose answer is not yet in it, with the hits counted so far.\<close>

definition unanswered :: "string list \<Rightarrow> admin_log_entry \<Rightarrow> bool" where
  "unanswered hs e \<longleftrightarrow> response_downstream e = [] \<and> request_raw_image_cache_hits e = hs"

lemma encode_and_drop_effect:
  assumes "encode_and_drop E m e t st = (r, st')" "unanswered [] e"
  shows "counts st 0 st' \<and> (case r of Inl ff \<Rightarrow> unanswered (hit_urls t) (ff_entry ff) | Inr (x, e') \<Rightarrow> unanswered [] e')"
  using assms
  by (auto simp: encode_and_drop_def Let_def unanswered_def timed_def update_request_cache_hits_def split: sum.splits prod.splits)

lemma prepare_request_cases:
  assumes "prepare_request E schedule body e t st = Some (r, t', st')"
  obtains (failed) told s1 err where "materialize_request_images_with_services (gw_work E) (request_services E st (observing t)) schedule body
        (app_blobs st) = Some (Err err, told, s1)" "observe_all told t (st\<lparr>app_blobs := s1\<rparr>) = (t', st')"
      "r = Err (failing err (update_request_cache_hits t' (e\<lparr>request_image_prepare_ms := ck_prepare (gw_clock E)\<rparr>)))"
  | (materialized) told s1 m st1 where "materialize_request_images_with_services (gw_work E) (request_services E st (observing t)) schedule body
        (app_blobs st) = Some (Ok m, told, s1)" "observe_all told t (st\<lparr>app_blobs := s1\<rparr>) = (t', st1)"
      "encode_and_drop E m e t' st1 = (r, st')"
  using assms unfolding prepare_request_def
  by (auto simp only: option.case sum.case prod.case prod.inject option.inject option.distinct split: option.splits prod.splits sum.splits)

lemma prepare_request_effect:
  assumes "prepare_request E schedule body e t st = Some (r, t', st')" "hit_urls t = []" "unanswered [] e"
  shows "(app_admin st = None \<longrightarrow> hit_urls t' = []) \<and> counts st (length (hit_urls t')) st'
    \<and> (case r of Inl ff \<Rightarrow> unanswered (hit_urls t') (ff_entry ff) | Inr (x, e') \<Rightarrow> unanswered [] e')"
proof -
  have obs: "(app_admin st = None \<longrightarrow> hit_urls t' = []) \<and> counts st (length (hit_urls t')) st1"
    if "observe_all told t (st\<lparr>app_blobs := s1\<rparr>) = (t', st1)" for told s1 st1
    using observe_all_effect [OF that] assms(2) by (cases "app_admin st") auto
  show ?thesis using assms(1)
  proof (cases rule: prepare_request_cases)
    case (failed told s1 err)
    then show ?thesis using obs [OF failed(2)] assms(3) by (simp add: unanswered_def update_request_cache_hits_def)
  next
    case (materialized told s1 m st1)
    from encode_and_drop_effect [OF materialized(3) assms(3)] obs [OF materialized(2)] counts_trans show ?thesis by blast
  qed
qed

lemma send_prepared_effect:
  assumes "send_prepared E resolved target_path query ct accept encoded e t st w = (r, st', w')" "unanswered [] e"
  shows "counts st 0 st' \<and> unanswered (hit_urls t) (logged_entry r)"
  using assms
  by (auto simp: send_prepared_def Let_def apply_upstream_log_def unanswered_def update_request_cache_hits_def
      split: option.splits sum.splits prod.splits)

lemma forward_standard_cases:
  assumes "forward_standard E schedule resolved target_path request body mode e st w = Some (r, st', w')"
  obtains (unprepared) ff t where
      "prepare_request E schedule body e (build_request_cache_tracking (map_option stats (app_admin st))) st = Some (Err ff, t, st')"
      "r = Err ff" "w' = w"
  | (prepared) encoded e1 t st1 q w2 where
      "prepare_request E schedule body e (build_request_cache_tracking (map_option stats (app_admin st))) st = Some (Ok (encoded, e1), t, st1)"
      "send_prepared E resolved target_path (rq_query request) (map_of (rq_headers request) ''content-type'')
         (map_of (rq_headers request) ''accept'') encoded e1 t st1 w = (q, st', w2)"
      "(\<exists>ff. q = Err ff \<and> r = Err ff \<and> w' = w2)
       \<or> (\<exists>reply e2 h. q = Ok (reply, e2)
            \<and> handle_non_stream_response E (response_services E st') (gw_upload_io E (upload_client st')) (app_config st') mode reply w2 = (h, w')
            \<and> r = (case h of Inl err \<Rightarrow> Err (failing err e2) | Inr (response, d) \<Rightarrow> Ok (response, apply_durations response d e2)))"
proof -
  obtain p t st1 where prep: "prepare_request E schedule body e (build_request_cache_tracking (map_option stats (app_admin st))) st
      = Some (p, t, st1)"
    using assms by (auto simp: forward_standard_def split: option.splits)
  show thesis
  proof (cases p)
    case (Inl ff)
    with assms prep unprepared show ?thesis by (auto simp: forward_standard_def)
  next
    case (Inr x)
    obtain encoded e1 where p: "p = Ok (encoded, e1)" using Inr by (metis prod.collapse)
    obtain q st2 w2 where sent: "send_prepared E resolved target_path (rq_query request) (map_of (rq_headers request) ''content-type'')
        (map_of (rq_headers request) ''accept'') encoded e1 t st1 w = (q, st2, w2)" by (metis prod.collapse)
    show ?thesis
    proof (cases q)
      case (Inl ff)
      with assms prep p sent show ?thesis by (intro prepared [of encoded e1 t st1 q w2]) (simp_all add: forward_standard_def)
    next
      case (Inr y)
      obtain reply e2 where "q = Ok (reply, e2)" using Inr by (metis prod.collapse)
      with assms prep p sent show ?thesis
        by (intro prepared [of encoded e1 t st1 q w2]) (auto simp: forward_standard_def split: prod.splits sum.splits)
    qed
  qed
qed

lemma unanswered_result:
  "unanswered hs e \<Longrightarrow> unanswered hs (logged_entry
     (case h of Inl err \<Rightarrow> Err (failing err e) | Inr (response, d) \<Rightarrow> Ok (response, apply_durations response d e)))"
  by (auto simp: unanswered_def apply_durations_def split: sum.split prod.split)

lemma forward_standard_effect:
  assumes "forward_standard E schedule resolved target_path request body mode e st w = Some (r, st', w')" "unanswered [] e"
  shows "\<exists>hs. unanswered hs (logged_entry r) \<and> (app_admin st = None \<longrightarrow> hs = []) \<and> counts st (length hs) st'"
  using assms(1)
proof (cases rule: forward_standard_cases)
  case (unprepared ff t)
  from prepare_request_effect [OF unprepared(1) _ assms(2)] show ?thesis
    by (intro exI [where x = "hit_urls t"]) (simp add: build_request_cache_tracking_def unprepared(2))
next
  case (prepared encoded e1 t st1 q w2)
  have prep: "(app_admin st = None \<longrightarrow> hit_urls t = []) \<and> counts st (length (hit_urls t)) st1 \<and> unanswered [] e1"
    using prepare_request_effect [OF prepared(1) _ assms(2)] by (simp add: build_request_cache_tracking_def)
  from send_prepared_effect [OF prepared(2)] prep
  have sent: "counts st1 0 st'" "unanswered (hit_urls t) (logged_entry q)" by blast+
  have "unanswered (hit_urls t) (logged_entry r)"
    using prepared(3) sent(2) by (elim disjE exE conjE) (simp_all add: unanswered_result)
  moreover have "counts st (length (hit_urls t)) st'" using prep counts_trans [OF _ sent(1)] by blast
  ultimately show ?thesis using prep by (intro exI [where x = "hit_urls t"]) simp
qed

lemma forward_aiapidev_effect:
  assumes "forward_aiapidev E resolved target_path query body mode e st w = (r, w')" "unanswered hs e"
  shows "unanswered hs (logged_entry r)"
  using assms
  by (auto simp: forward_aiapidev_def Let_def apply_upstream_log_def unanswered_def split: sum.splits prod.splits)

lemma unanswered_base:
  "unanswered [] (base_entry snap)" "unanswered [] ((base_entry snap)\<lparr>request_parse_ms := x\<rparr>)"
  "unanswered [] ((base_entry snap)\<lparr>request_parse_ms := x, entry_output_mode := y\<rparr>)"
  by (simp_all add: unanswered_def base_entry_def apply_to_entry_def default_entry_def split: option.split)

lemma forward_gemini_cases:
  assumes "forward_gemini_request E schedule resolved target_path request snap st w = Some (r, st', w')"
  obtains (refused) err e where "r = Err (failing err e)" "unanswered [] e" "st' = st" "w' = w"
  | (aiapidev) body mode e where "unanswered [] e" "st' = st"
      "forward_aiapidev E resolved target_path (rq_query request) body mode e st w = (r, w')"
  | (standard) body mode e where "unanswered [] e"
      "forward_standard E schedule resolved target_path request body mode e st w = Some (r, st', w')"
proof (cases "to_bytes (gw_limit_error E) MAX_REQUEST_BODY_BYTES (rq_body request)")
  case (Inl err)
  with assms have "\<exists>err. r = Err (failing err (base_entry snap)) \<and> st' = st \<and> w' = w"
    by (auto simp: forward_gemini_request_def)
  with refused unanswered_base(1) show ?thesis by blast
next
  case bytes: (Inr b)
  show ?thesis
  proof (cases "parse_json (gw_json E) b")
    case (Inl err)
    with assms bytes
    have "\<exists>err. r = Err (failing err ((base_entry snap)\<lparr>request_parse_ms := ck_forward_parse (gw_clock E)\<rparr>)) \<and> st' = st \<and> w' = w"
      by (auto simp: forward_gemini_request_def Let_def)
    with refused unanswered_base(2) show ?thesis by blast
  next
    case (Inr body)
    let ?mode = "get_output_mode (gw_urls E) (rq_query request) body"
    let ?e = "(base_entry snap)\<lparr>request_parse_ms := ck_forward_parse (gw_clock E), entry_output_mode := mode_name ?mode\<rparr>"
    from Inr assms bytes
    have "st' = st \<and> forward_aiapidev E resolved target_path (rq_query request) body ?mode ?e st w = (r, w')
      \<or> forward_standard E schedule resolved target_path request body ?mode ?e st w = Some (r, st', w')"
      by (auto simp: forward_gemini_request_def Let_def split: if_splits prod.splits)
    with aiapidev standard unanswered_base(3) show ?thesis by blast
  qed
qed

lemma forward_gemini_effect:
  assumes "forward_gemini_request E schedule resolved target_path request snap st w = Some (r, st', w')"
  shows "\<exists>hs. unanswered hs (logged_entry r) \<and> (app_admin st = None \<longrightarrow> hs = []) \<and> counts st (length hs) st'"
  using assms
proof (cases rule: forward_gemini_cases)
  case (standard body mode e)
  from forward_standard_effect [OF this(2,1)] show ?thesis .
next
  case (aiapidev body mode e)
  from forward_aiapidev_effect [OF this(3,1)] aiapidev(2) show ?thesis by (intro exI [where x = "[]"]) simp
qed (intro exI [where x = "[]"], simp)

lemma forward_openai_effect:
  assumes "forward_openai_image_request E resolved body query snap st w = (r, w')"
  shows "unanswered [] (logged_entry r)"
proof -
  have "unanswered [] ((base_entry snap)\<lparr>entry_output_mode := y\<rparr>)" for y
    using unanswered_base(1) [of snap] by (simp add: unanswered_def)
  with assms show ?thesis
    by (auto simp: forward_openai_image_request_def Let_def apply_upstream_log_def apply_durations_def unanswered_def
        split: sum.splits prod.splits)
qed

section \<open>Every handler ends with one log entry\<close>

definition describes :: "clock \<Rightarrow> http_request \<Rightarrow> admin_log_entry \<Rightarrow> bool" where
  "describes ck request e \<longleftrightarrow>
     entry_method e = rq_method request \<and> entry_path e = rq_path request
   \<and> entry_query e = unwrap_or [] (rq_query request) \<and> duration_ms e = ck_total ck"

lemma describes_request: "describes ck request (describe_request ck request e)"
  by (simp add: describes_def describe_request_def)

text \<open>An answer ready for the last step, with the hits counted on the way.\<close>

definition completes :: "'w gateway \<Rightarrow> http_request \<Rightarrow> string list \<Rightarrow> down_response \<times> admin_log_entry \<Rightarrow> bool" where
  "completes E request hs answer \<longleftrightarrow> describes (gw_clock E) request (snd answer) \<and> unanswered hs (snd answer)"

lemmas entry_defs = describes_def describe_request_def unanswered_def early_entry_def parsed_entry_def default_entry_def
  proxy_failure_def apply_to_entry_def

lemma completes_refusals:
  "completes E request [] (short_error n t, early_entry (gw_clock E) request n)"
  "completes E request [] (refuse_body (gw_clock E) request err)"
  "completes E request [] (refuse_json (gw_clock E) request snap err)"
  "completes E request [] (refuse_upstream (gw_clock E) request snap uerr)"
  "completes E request [] (short_error n t, apply_to_entry snap (proxy_failure st k m d (parsed_entry (gw_clock E) request n)))"
  by (simp_all add: completes_def refuse_body_def refuse_json_def refuse_upstream_def entry_defs Let_def split: option.split)

lemma answer_failure_keeps:
  "unanswered hs (snd (answer_failure T c err e)) = unanswered hs e"
  "describes ck request (snd (answer_failure T c err e)) = describes ck request e"
  by (auto simp: answer_failure_def apply_structured_proxy_error_def unanswered_def describes_def split: option.splits)

lemma complete_entry_keeps:
  "describes ck request (complete_entry ck request e)" "unanswered hs (complete_entry ck request e) = unanswered hs e"
  "describes ck request (e\<lparr>entry_status_code := x\<rparr>) = describes ck request e"
  "unanswered hs (e\<lparr>entry_status_code := x\<rparr>) = unanswered hs e"
  by (simp_all add: complete_entry_def describe_request_def describes_def unanswered_def)

lemma completes_forwarded:
  "unanswered hs (logged_entry r) \<Longrightarrow> completes E request hs (answer_forwarded E request c r)"
  by (auto simp: completes_def answer_forwarded_def answer_failure_keeps complete_entry_keeps split: sum.splits prod.splits)

lemma completes_body [simp]: "completes E (request\<lparr>rq_body := b\<rparr>) hs answer = completes E request hs answer"
  by (simp add: completes_def describes_def)

lemma model_action_cases:
  assumes "model_action E schedule rest request st w = Some (r, st', w')"
  obtains (refused) answer where "finish E answer st = (r, st')" "completes E request [] answer" "w' = w"
  | (forwarded) resolved b snap q st1 c where
      "forward_gemini_request E schedule resolved (models_prefix @ rest) (request\<lparr>rq_body := b\<rparr>) snap st w = Some (q, st1, w')"
      "finish E (answer_forwarded E request c q) st1 = (r, st')"
proof (cases "ends_with rest generate_content")
  case False
  with assms have "finish E (short_error 404 ''Not Found'', early_entry (gw_clock E) request 404) st = (r, st')"
    "w' = w" by (simp_all add: model_action_def split: prod.splits)
  with completes_refusals(1) refused show ?thesis by blast
next
  case name: True
  show ?thesis
  proof (cases "to_bytes (gw_limit_error E) MAX_REQUEST_BODY_BYTES (rq_body request)")
    case (Inl err)
    with assms name have "finish E (refuse_body (gw_clock E) request err) st = (r, st')"
      "w' = w" by (simp_all add: model_action_def split: prod.splits)
    with completes_refusals(2) refused show ?thesis by blast
  next
    case bytes: (Inr b)
    define snap where "snap = from_request_body (gw_json E) b (app_admin st \<noteq> None)"
    show ?thesis
    proof (cases "parse_json (gw_json E) b")
      case (Inl err)
      with assms name bytes have "finish E (refuse_json (gw_clock E) request snap err) st = (r, st')"
        "w' = w" by (simp_all add: model_action_def snap_def split: prod.splits)
      with completes_refusals(3) refused show ?thesis by blast
    next
      case body: (Inr body)
      show ?thesis
      proof (cases "resolve_upstream_for_request_from_header_map (base_ops (gw_urls E)) (text_header_map (rq_headers request)) body
          (upstream_base_url (app_config st)) (upstream_api_key (app_config st))")
        case (Inl err)
        with assms name bytes body have "finish E (refuse_upstream (gw_clock E) request snap err) st = (r, st')"
          "w' = w" by (simp_all add: model_action_def snap_def split: prod.splits)
        with completes_refusals(4) refused show ?thesis by blast
      next
        case (Inr resolved)
        with assms name bytes body obtain q st1 where
            "forward_gemini_request E schedule resolved (models_prefix @ rest) (request\<lparr>rq_body := [Inr b]\<rparr>) snap st w = Some (q, st1, w')"
            "finish E (answer_forwarded E request (\<not> is_aiapidev_base_url (base_ops (gw_urls E)) (base_url resolved)) q) st1 = (r, st')"
          by (auto simp: model_action_def snap_def split: option.splits prod.splits)
        then show ?thesis by (rule forwarded)
      qed
    qed
  qed
qed

lemma image_generations_action_cases:
  assumes "image_generations_action E request st w = Some (r, st', w')"
  obtains answer where "finish E answer st = (r, st')" "completes E request [] answer"
proof (cases "to_bytes (gw_limit_error E) MAX_REQUEST_BODY_BYTES (rq_body request)")
  case (Inl err)
  with assms have "finish E (refuse_body (gw_clock E) request err) st = (r, st')"
    by (simp add: image_generations_action_def split: prod.splits)
  then show ?thesis by (rule that [OF _ completes_refusals(2)])
next
  case bytes: (Inr b)
  define snap where "snap = from_request_body (gw_json E) b (app_admin st \<noteq> None)"
  show ?thesis
  proof (cases "parse_json (gw_json E) b")
    case (Inl err)
    with assms bytes have "finish E (refuse_json (gw_clock E) request snap err) st = (r, st')"
      by (simp add: image_generations_action_def snap_def split: prod.splits)
    then show ?thesis by (rule that [OF _ completes_refusals(3)])
  next
    case body: (Inr parsed)
    show ?thesis
    proof (cases "normalize_request_body (base_ops (gw_urls E)) parsed")
      case (Inl err)
      with assms bytes body have "finish E (short_error 400 (error_text (gw_texts E) err),
          apply_to_entry snap (proxy_failure ''normalize_openai_image_request'' ''invalid_request'' ''invalid openai image request''
            (error_text (gw_texts E) err) (parsed_entry (gw_clock E) request 400))) st = (r, st')"
        by (simp add: image_generations_action_def snap_def split: prod.splits)
      then show ?thesis by (rule that [OF _ completes_refusals(5)])
    next
      case doc: (Inr doc)
      show ?thesis
      proof (cases "resolve_upstream_for_request_from_header_map (base_ops (gw_urls E)) (text_header_map (rq_headers request)) doc
          (upstream_base_url (app_config st)) (upstream_api_key (app_config st))")
        case (Inl err)
        with assms bytes body doc have "finish E (refuse_upstream (gw_clock E) request snap err) st = (r, st')"
          by (simp add: image_generations_action_def snap_def split: prod.splits)
        then show ?thesis by (rule that [OF _ completes_refusals(4)])
      next
        case (Inr resolved)
        with assms bytes body doc obtain q w1 where
            "forward_openai_image_request E resolved doc (filter_option (\<lambda>q. q \<noteq> []) (rq_query request)) snap st w = (q, w1)"
            "finish E (answer_forwarded E request True q) st = (r, st')"
          by (auto simp: image_generations_action_def snap_def split: prod.splits)
        from this(2) completes_forwarded [OF forward_openai_effect [OF this(1)]] show ?thesis by (rule that)
      qed
    qed
  qed
qed

text \<open>How an action ends: with the last step, in a state where only hits were counted.\<close>

definition ends :: "'w gateway \<Rightarrow> http_request \<Rightarrow> 'c app_state \<Rightarrow> down_response \<Rightarrow> 'c app_state \<Rightarrow> bool" where
  "ends E request st r st' \<longleftrightarrow>
     (\<exists>answer hs st1. finish E answer st1 = (r, st') \<and> completes E request hs answer
        \<and> (app_admin st = None \<longrightarrow> hs = []) \<and> counts st (length hs) st1)"

lemma ends_at_once: "finish E answer st = (r, st') \<Longrightarrow> completes E request [] answer \<Longrightarrow> ends E request st r st'"
  unfolding ends_def by (intro exI [where x = answer] exI [where x = "[]"] exI [where x = st]) simp

lemma ends_gemini:
  assumes "forward_gemini_request E schedule resolved p (request\<lparr>rq_body := b\<rparr>) snap st w = Some (q, st1, w1)"
    and "finish E (answer_forwarded E request c q) st1 = (r, st')"
  shows "ends E request st r st'"
proof -
  from forward_gemini_effect [OF assms(1)] obtain hs where
    hs: "unanswered hs (logged_entry q) \<and> (app_admin st = None \<longrightarrow> hs = []) \<and> counts st (length hs) st1" ..
  have "completes E request hs (answer_forwarded E request c q)" using hs by (intro completes_forwarded) simp
  then show ?thesis unfolding ends_def
    using assms(2) hs [THEN conjunct2, THEN conjunct1] hs [THEN conjunct2, THEN conjunct2]
    by (intro exI [where x = "answer_forwarded E request c q"] exI [where x = hs] exI [where x = st1] conjI)
qed

lemma action_ends:
  assumes "serve E decode schedule request st w = Some (ServedAction r, st', w')"
  shows "ends E request st r st'"
proof -
  from assms consider (model) rest where "model_action E schedule rest request st w = Some (r, st', w')"
    | (images) "image_generations_action E request st w = Some (r, st', w')"
    by (auto simp: serve_def split: routed.splits route.splits option.splits)
  then show ?thesis
  proof cases
    case model
    then show ?thesis
    proof (cases rule: model_action_cases)
      case (refused answer)
      then show ?thesis by (intro ends_at_once)
    next
      case (forwarded resolved b snap q st1 c)
      then show ?thesis by (rule ends_gemini)
    qed
  next
    case images
    then show ?thesis by (cases rule: image_generations_action_cases) (rule ends_at_once)
  qed
qed

section \<open>The way of a Gemini request\<close>

text \<open>What the libraries and the process must provide for a request to be sent as it should.\<close>

definition sound_gateway :: "'w gateway \<Rightarrow> request_materialize_services \<Rightarrow> (bytes \<Rightarrow> bytes option) \<Rightarrow> runtime \<Rightarrow> bool" where
  "sound_gateway E svc dec s \<longleftrightarrow>
     json_writer (gw_encoder E) dec \<and> fair_reads (16 * 1024) (gw_pipe_reads E) \<and> images_fit (gw_work E) svc
   \<and> blob_inv s \<and> io_error s = Map.empty \<and> unat (next_id_ctr s) + 8 < 2 ^ 64"

abbreviation all_obtained :: "'w gateway \<Rightarrow> request_materialize_services \<Rightarrow> request_image_ref list \<Rightarrow> bool" where
  "all_obtained E svc refs \<equiv> (\<forall>r \<in> set refs. \<exists>d. obtained (gw_work E) svc (ref_url r) = Ok d)"

lemma prepare_request_Ok:
  assumes prep: "prepare_request E schedule doc e t st = Some (p, t', st1)"
    and svc: "svc = request_services E st (observing t)" and sound: "sound_gateway E svc dec (app_blobs st)"
    and doc: "json_wf doc" "scan_request_image_urls doc = Ok refs" "all_obtained E svc refs"
    and body: "body = ser (gw_encoder E) (inlined_document (b64 (gw_encoder E)) (gw_work E) svc refs doc)" "fits body"
  shows "\<exists>h e1. p = Ok (\<lparr>body_blob = h, content_length = of_nat (length body)\<rparr>, e1)
    \<and> h < length (heap (app_blobs st1)) \<and> read_bytes h (app_blobs st1) = Ok body
    \<and> blob_inv (app_blobs st1) \<and> io_error (app_blobs st1) = Map.empty
    \<and> (blob_contents (app_blobs st1))(h := None) = blob_contents (app_blobs st)"
  using prep
proof (cases rule: prepare_request_cases)
  case (failed told s1 err)
  have "unat (next_id_ctr (app_blobs st)) + 7 < 2 ^ 64" using sound by (simp add: sound_gateway_def)
  with sound have "scan_request_image_urls doc = Err err
      \<or> (\<exists>refs r. scan_request_image_urls doc = Ok refs \<and> r \<in> set refs \<and> obtained (gw_work E) svc (ref_url r) = Err err)"
    by (intro materialize_error_cause [OF failed(1) [folded svc]]) (simp_all add: sound_gateway_def)
  with doc(2,3) show ?thesis by auto
next
  case (materialized told s1 m st0)
  let ?rs = "mat_replacements m"
  have blobs: "app_blobs st0 = s1" using observe_all_effect(1) [OF materialized(2)] by simp
  from sound obtain h s2 where m: "mat_request m = doc"
    and enc: "encode_request_body (gw_encoder E) (gw_pipe_reads E) (gw_on_abort E) doc ?rs s1
        = (Ok \<lparr>body_blob = h, content_length = of_nat (length body)\<rparr>, s2)"
      "blob_inv s2" "io_error s2 = Map.empty" "\<forall>h' \<in> insert h (repl_blob ` set ?rs). h' < length (heap s2)"
      "h \<notin> repl_blob ` set ?rs" "blob_contents s2 |` (- insert h (repl_blob ` set ?rs)) = blob_contents (app_blobs st)"
      "blob_contents s2 h = Some body"
    using encode_materialized [OF doc(1,2) materialized(1) [folded svc] _ _ _ _ _ _ body, of dec "gw_pipe_reads E" "gw_on_abort E"]
    by (auto simp: sound_gateway_def)
  obtain s3 where s3: "remove_all (map repl_blob ?rs) s2 = (Ok (), s3)" "blob_inv s3" "io_error s3 = Map.empty"
      "length (heap s3) = length (heap s2)" "blob_contents s3 = blob_contents s2 |` (- repl_blob ` set ?rs)"
    using remove_all_no_io [OF enc(2) _ enc(3), of "map repl_blob ?rs"] enc(4) by auto
  have "blob_contents s3 h = Some body" using enc(5,7) s3(5) by simp
  then have "read_bytes h s3 = Ok body" using s3(3) by (intro read_bytes_no_io) simp_all
  moreover have "(blob_contents s3)(h := None) = blob_contents (app_blobs st)"
    unfolding s3(5) enc(6) [symmetric] by (auto simp: fun_eq_iff restrict_map_def)
  moreover have "\<exists>e1. p = Ok (\<lparr>body_blob = h, content_length = of_nat (length body)\<rparr>, e1) \<and> app_blobs st1 = s3"
    using materialized(3) enc(1) s3(1) by (auto simp: encode_and_drop_def m blobs Let_def)
  ultimately show ?thesis using s3(2-4) enc(4) by auto
qed

lemma send_prepared_Ok:
  assumes sent: "send_prepared E resolved p query ct accept \<lparr>body_blob = h, content_length = n\<rparr> e t st w = (q, st', w')"
    and url: "build_upstream_url (gw_urls E) (base_url resolved) p query = Ok url"
    and blob: "h < length (heap (app_blobs st))" "read_bytes h (app_blobs st) = Ok body"
    and inv: "blob_inv (app_blobs st)" "io_error (app_blobs st) = Map.empty"
  shows "\<exists>answer. gw_send E (upstream_client st)
        \<lparr>sent_url = url, sent_headers = upstream_headers ct accept n (api_key resolved), sent_body = body\<rparr> w = (answer, w')
    \<and> blob_contents (app_blobs st') = (blob_contents (app_blobs st))(h := None) \<and> blob_inv (app_blobs st')
    \<and> (\<exists>e'. q = (case answer of Inl err \<Rightarrow> Err (failing (Reqwest err) e') | Inr reply \<Rightarrow> Ok (reply, e')))"
proof -
  obtain s1 where rem: "remove h (app_blobs st) = (Ok (), s1)" "blob_inv s1"
      "blob_contents s1 = (blob_contents (app_blobs st))(h := None)"
    using remove_no_io [OF inv(1) blob(1) inv(2)] by blast
  obtain answer w1 where ans: "gw_send E (upstream_client st)
        \<lparr>sent_url = url, sent_headers = upstream_headers ct accept n (api_key resolved), sent_body = body\<rparr> w = (answer, w1)"
    by (metis prod.collapse)
  have reader: "open_reader h (app_blobs st) = Ok body" using blob(2) by (simp add: open_reader_def read_bytes_def)
  obtain lg where "(case app_admin st of None \<Rightarrow> Ok None
      | Some _ \<Rightarrow> and_then (read_bytes h (app_blobs st)) (\<lambda>b. Ok (maybe_sanitize_json_for_log (log_json (gw_json E)) b True)))
    = (Ok lg :: anyhow + sanitized_admin_log option)"
    using blob(2) by (cases "app_admin st") auto
  with sent url reader rem ans show ?thesis
    by (cases answer) (auto simp: send_prepared_def Let_def)
qed

lemma to_bytes_within: "to_bytes t n fs = Ok b \<Longrightarrow> length b \<le> n"
  by (induction t n fs arbitrary: b rule: to_bytes.induct) (auto simp: and_then_eq_Ok split: if_splits)

text \<open>The answer to a failed forward depends on the error alone.\<close>

definition failure_response :: "error_texts \<Rightarrow> bool \<Rightarrow> anyhow \<Rightarrow> down_response" where
  "failure_response T c err = fst (answer_failure T c err default_entry)"

lemma fst_answer_failure [simp]: "fst (answer_failure T c err e) = failure_response T c err"
  by (simp add: failure_response_def answer_failure_def split: option.split)

definition forwarded_response :: "error_texts \<Rightarrow> anyhow + down_response \<times> response_stage_durations \<Rightarrow> down_response" where
  "forwarded_response T h = (case h of Inl err \<Rightarrow> failure_response T True err | Inr (response, d) \<Rightarrow> response)"

section \<open>The invariant of the service\<close>

lemma remove_keeps_inv:
  assumes "blob_inv s" "h < length (heap s)" "remove h s = (r, s')"
  shows "blob_inv s' \<and> length (heap s') = length (heap s) \<and> same_env s s' \<and> blob_contents s' = (blob_contents s)(h := None)"
proof (cases "removed (heap s ! h)")
  case True
  then have "blob_contents s h = None" by (simp add: blob_contents_def)
  with assms True show ?thesis by (simp add: remove_def fun_upd_idem)
next
  case False
  with remove_live(1-3) [OF assms(1,2) False assms(3)] remove_marks [OF assms(2,3)] show ?thesis by simp
qed

lemma remove_all_keeps_inv:
  "blob_inv s \<Longrightarrow> \<forall>h \<in> set hs. h < length (heap s) \<Longrightarrow> remove_all hs s = (r, s')
     \<Longrightarrow> blob_inv s' \<and> length (heap s') = length (heap s) \<and> same_env s s' \<and> (\<forall>h. h \<notin> set hs \<longrightarrow> blob_contents s' h = blob_contents s h)"
proof (induction hs arbitrary: s)
  case (Cons h hs)
  obtain q s1 where q: "remove h s = (q, s1)" by (cases "remove h s")
  have s1: "blob_inv s1" "length (heap s1) = length (heap s)" "same_env s s1" "blob_contents s1 = (blob_contents s)(h := None)"
    using remove_keeps_inv [OF Cons.prems(1) _ q] Cons.prems(2) by simp_all
  show ?case
  proof (cases q)
    case (Inr u)
    with Cons.prems(3) q have "remove_all hs s1 = (r, s')" by simp
    from Cons.IH [OF s1(1) _ this] Cons.prems(2) s1(2-4) show ?thesis by (auto simp: same_env_def)
  qed (use Cons.prems(3) q s1 in simp)
qed simp

lemma materialize_keeps_inv:
  assumes "materialize_request_images_with_services W svc schedule doc s = Some (r, told, s')"
    and "blob_inv s" "images_fit W svc" "unat (next_id_ctr s) + 7 < 2 ^ 64"
  shows "blob_inv s' \<and> keeps_blobs s s' \<and> unat (next_id_ctr s') \<le> unat (next_id_ctr s) + 7"
proof (cases "scan_request_image_urls doc")
  case (Inr refs)
  let ?urls = "unique_urls refs []"
  from Inr assms(1) obtain run where run: "run_events W svc schedule (start_run ?urls s) = Some run" "s' = blobs run"
    by (auto simp: materialize_request_images_with_services_def Let_def split: option.splits if_splits)
  have "length ?urls \<le> 7" using unique_urls_length [of refs "[]"] scan_Ok_length [OF Inr] by linarith
  with run_inv [OF run(1) unique_urls_distinct assms(2,3)] assms(4)
  have inv: "data_inv W svc ?urls s run" by auto
  moreover have "tally worked ?urls (task run) \<le> length ?urls" by (simp add: tally_def)
  ultimately show ?thesis using run(2) \<open>length ?urls \<le> 7\<close> by (auto simp: data_inv_def)
qed (use assms in \<open>simp add: materialize_request_images_with_services_def keeps_blobs_def\<close>)

text \<open>The parts of the environment the invariant rests on.\<close>

definition benign :: "'w gateway \<Rightarrow> 'c app_state \<Rightarrow> bool" where
  "benign E st \<longleftrightarrow>
     (\<forall>obs. images_fit (gw_work E) (request_services E st obs)) \<and> (\<forall>s. blob_inv s \<longrightarrow> blob_inv (gw_on_abort E s))
   \<and> (\<forall>b d. stream_bytes (gw_pipe_reads E b) = Some d \<longrightarrow> fits d) \<and> unat (next_id_ctr (app_blobs st)) + 8 < 2 ^ 64"

lemma encode_keeps_inv:
  assumes enc: "encode_request_body (gw_encoder E) (gw_pipe_reads E) (gw_on_abort E) doc rs s = (r, s')"
    and "benign E st" "blob_inv s" "next_id_ctr s \<noteq> - 1"
  shows "blob_inv s' \<and> (\<forall>x. r = Ok x \<longrightarrow> body_blob x < length (heap s')
    \<and> (\<forall>h. blob_contents s h \<noteq> None \<longrightarrow> blob_contents s' h \<noteq> None))"
proof -
  let ?k = "write_json_value ((gw_encoder E)\<lparr>replacement := replacement_map rs, store := s\<rparr>) [] (strip_output_from_value doc)
      \<lparr>out = [], counted = 0\<rparr>"
  show ?thesis
  proof (cases ?k)
    case (Inl e)
    with assms show ?thesis by (auto simp: encode_request_body_def benign_def)
  next
    case (Inr k)
    obtain q s1 where q: "store_stream (gw_pipe_reads E (out k)) ''application/json'' s = (q, s1)" by (metis prod.collapse)
    have fit: "\<And>d. stream_bytes (gw_pipe_reads E (out k)) = Some d \<Longrightarrow> fits d" using assms(2) by (simp add: benign_def)
    have r: "s' = s1" "\<And>x. r = Ok x \<Longrightarrow> q = Ok (body_blob x)"
      using enc Inr q by (auto simp: encode_request_body_def split: sum.splits)
    have "body_blob x < length (heap s1) \<and> (\<forall>h. blob_contents s h \<noteq> None \<longrightarrow> blob_contents s1 h \<noteq> None)" if "r = Ok x" for x
    proof -
      from store_stream_Ok [OF assms(3,4) q [unfolded r(2) [OF that]] fit] obtain d where
        "blob_contents s1 = (blob_contents s)(body_blob x \<mapsto> d)" by blast
      moreover from this have "body_blob x < length (heap s1)" using blob_contents_live [of s1 "body_blob x" d] by simp
      ultimately show ?thesis by simp
    qed
    with store_stream_inv [OF assms(3,4) fit q] r(1) show ?thesis by blast
  qed
qed

lemma encode_and_drop_keeps_inv:
  assumes run: "encode_and_drop E m e t st = (p, st')"
    and "benign E st0" "blob_inv (app_blobs st)" "next_id_ctr (app_blobs st) \<noteq> - 1"
    and live: "\<forall>r \<in> set (mat_replacements m). blob_contents (app_blobs st) (repl_blob r) \<noteq> None"
  shows "blob_inv (app_blobs st') \<and> (\<forall>x e'. p = Ok (x, e') \<longrightarrow> body_blob x < length (heap (app_blobs st')))"
proof -
  obtain q s2 where enc: "encode_request_body (gw_encoder E) (gw_pipe_reads E) (gw_on_abort E) (mat_request m) (mat_replacements m)
      (app_blobs st) = (q, s2)" by (metis prod.collapse)
  note inv = encode_keeps_inv [OF enc assms(2-4)]
  show ?thesis
  proof (cases q)
    case (Inl err)
    with run enc inv show ?thesis by (auto simp: encode_and_drop_def Let_def)
  next
    case (Inr x)
    obtain d s3 where rem: "remove_all (map repl_blob (mat_replacements m)) s2 = (d, s3)" by (metis prod.collapse)
    have "\<forall>h \<in> set (map repl_blob (mat_replacements m)). h < length (heap s2)"
      using live inv Inr blob_contents_live by (metis (no_types, lifting) imageE list.set_map not_None_eq)
    with remove_all_keeps_inv [OF _ this rem] inv have "blob_inv s3" "length (heap s3) = length (heap s2)" by blast+
    with run enc rem inv Inr show ?thesis by (auto simp: encode_and_drop_def Let_def split: sum.splits)
  qed
qed

lemma prepare_request_keeps_inv:
  assumes "prepare_request E schedule doc e t st = Some (p, t', st')" "benign E st" "blob_inv (app_blobs st)"
  shows "blob_inv (app_blobs st') \<and> (\<forall>x e'. p = Ok (x, e') \<longrightarrow> body_blob x < length (heap (app_blobs st')))"
proof -
  have room: "unat (next_id_ctr (app_blobs st)) + 7 < 2 ^ 64" and fit: "images_fit (gw_work E) (request_services E st (observing t))"
    using assms(2) by (simp_all add: benign_def)
  from assms(1) show ?thesis
  proof (cases rule: prepare_request_cases)
    case (failed told s1 err)
    with materialize_keeps_inv [OF failed(1) assms(3) fit room] observe_all_effect(1) [OF failed(2)] show ?thesis by simp
  next
    case (materialized told s1 m st1)
    have s1: "app_blobs st1 = s1" using observe_all_effect(1) [OF materialized(2)] by simp
    note inv = materialize_keeps_inv [OF materialized(1) assms(3) fit room]
    with assms(2) have "unat (next_id_ctr s1) < 2 ^ 64 - 1" by (auto simp: benign_def)
    then have "next_id_ctr s1 \<noteq> - 1" by (auto simp: unsigned_minus_1_eq_mask mask_eq_exp_minus_1)
    moreover have "\<forall>r \<in> set (mat_replacements m). blob_contents s1 (repl_blob r) \<noteq> None"
      using materialize_Ok [OF materialized(1) assms(3) fit room] replaces_live by blast
    ultimately show ?thesis
      using encode_and_drop_keeps_inv [OF materialized(3) assms(2)] inv by (simp add: s1)
  qed
qed

lemma send_prepared_keeps_inv:
  assumes "send_prepared E resolved p query ct accept encoded e t st w = (q, st', w')"
    and "blob_inv (app_blobs st)" "body_blob encoded < length (heap (app_blobs st))"
  shows "blob_inv (app_blobs st')"
proof -
  obtain d s1 where rem: "remove (body_blob encoded) (app_blobs st) = (d, s1)" by (metis prod.collapse)
  with remove_keeps_inv [OF assms(2,3)] have "blob_inv s1" by blast
  moreover have "app_blobs st' = app_blobs st \<or> app_blobs st' = s1"
    using assms(1) rem by (auto simp: send_prepared_def Let_def split: sum.splits prod.splits)
  ultimately show ?thesis using assms(2) by auto
qed

lemma forward_gemini_keeps_inv:
  assumes "forward_gemini_request E schedule resolved p request snap st w = Some (r, st', w')"
    and "benign E st" "blob_inv (app_blobs st)"
  shows "blob_inv (app_blobs st')"
  using assms(1)
proof (cases rule: forward_gemini_cases)
  case (standard body mode e)
  from standard(2) show ?thesis
  proof (cases rule: forward_standard_cases)
    case (unprepared ff t)
    with prepare_request_keeps_inv [OF unprepared(1) assms(2,3)] show ?thesis by simp
  next
    case (prepared encoded e1 t st1 q w2)
    from prepare_request_keeps_inv [OF prepared(1) assms(2,3)] send_prepared_keeps_inv [OF prepared(2)] show ?thesis by simp
  qed
qed (use assms(3) in simp_all)

text \<open>What holds of the service between requests.\<close>

definition app_inv :: "'c app_state \<Rightarrow> bool" where
  "app_inv st \<longleftrightarrow>
     (app_admin st = None \<longleftrightarrow> str_trim (admin_password (app_config st)) = [])
   \<and> (\<forall>a. app_admin st = Some a \<longrightarrow> password a = admin_password (app_config st) \<and> length (snapshot_logs a) \<le> 100)
   \<and> blob_inv (app_blobs st)"

lemma app_inv_counts:
  assumes "counts st n st'" "app_inv st" "blob_inv (app_blobs st')"
  shows "app_inv st'"
  using assms by (auto simp: app_inv_def counts_def counted_hits_def)

lemma app_inv_finish:
  assumes fin: "finish E answer st = (r, st')" and inv: "app_inv st"
  shows "app_inv st'"
proof (cases "app_admin st")
  case None
  with finalize_effect(2-4) [OF fin [unfolded finish_def]] inv show ?thesis by (simp add: app_inv_def)
next
  case (Some a)
  with finalize_effect(5) [OF fin [unfolded finish_def]] obtain a' e where
    a': "app_admin st' = Some a'" "logs_one a e a'" by blast
  have "length (snapshot_logs a') \<le> 100" using a'(2) by (simp add: logs_one_def)
  with a' finalize_effect(2,3) [OF fin [unfolded finish_def]] inv Some show ?thesis
    by (simp add: app_inv_def logs_one_def)
qed

lemma app_inv_build: "app_inv (build_router H c)" "app_config (build_router H c) = c"
proof -
  show "app_config (build_router H c) = c" by (simp add: build_router_def Let_def)
  show "app_inv (build_router H c)"
    using blob_inv_new by (simp add: app_inv_def build_router_def Let_def admin_new_def snapshot_logs_def)
qed

lemma finish_blobs: "finish E a st = (r, st') \<Longrightarrow> app_blobs st' = app_blobs st"
  unfolding finish_def by (rule finalize_effect(2))

lemma serve_keeps_blob_inv:
  assumes "serve E decode schedule request st w = Some (answer, st', w')" "benign E st" "blob_inv (app_blobs st)"
  shows "blob_inv (app_blobs st')"
proof -
  from assms(1) consider (model) rest r where "model_action E schedule rest request st w = Some (r, st', w')"
    | (images) r where "image_generations_action E request st w = Some (r, st', w')" | (none) "st' = st"
    by (auto simp: serve_def split: routed.splits route.splits option.splits)
  then show ?thesis
  proof cases
    case model
    then show ?thesis
    proof (cases rule: model_action_cases)
      case (refused answer)
      with finish_blobs [OF this(1)] assms(3) show ?thesis by simp
    next
      case (forwarded resolved b snap q st1 c)
      with forward_gemini_keeps_inv [OF forwarded(1) assms(2,3)] finish_blobs [OF forwarded(2)] show ?thesis by simp
    qed
  next
    case images
    then show ?thesis
    proof (cases rule: image_generations_action_cases)
      case (1 answer)
      with finish_blobs [OF this(1)] assms(3) show ?thesis by simp
    qed
  qed (use assms(3) in simp)
qed

text \<open>One request after another; each comes with its own surroundings \<open>E\<close>.\<close>

inductive service_step :: "('w gateway \<Rightarrow> bool) \<Rightarrow> (string \<Rightarrow> string option) \<Rightarrow> 'c app_state \<times> 'w \<Rightarrow> 'c app_state \<times> 'w \<Rightarrow> bool"
  for P decode where
  "P E \<Longrightarrow> benign E st \<Longrightarrow> serve E decode schedule request st w = Some (answer, st', w')
     \<Longrightarrow> service_step P decode (st, w) (st', w')"

lemma service_step_inv:
  assumes "service_step P decode (st, w) (st', w')" "app_inv st"
  shows "app_inv st' \<and> app_config st' = app_config st"
  using assms(1)
proof cases
  case (1 E schedule request answer)
  have blobs: "blob_inv (app_blobs st')"
    using serve_keeps_blob_inv [OF 1(3,2)] assms(2) by (simp add: app_inv_def)
  show ?thesis
  proof (cases "\<exists>r. answer = ServedAction r")
    case False
    with 1(3) have "st' = st" by (cases answer) (auto simp: serve_def split: routed.splits route.splits option.splits)
    with assms(2) show ?thesis by simp
  next
    case True
    then obtain r where "answer = ServedAction r" ..
    with 1(3) have "ends E request st r st'" by (simp add: action_ends)
    then obtain ready hs st1 where fin: "finish E ready st1 = (r, st')" and "completes E request hs ready"
      and "app_admin st = None \<longrightarrow> hs = []" and cnt: "counts st (length hs) st1"
      unfolding ends_def by (elim exE conjE) (rule that)
    note eff = finalize_effect(2,3) [OF fin [unfolded finish_def]]
    have "app_inv st1" using app_inv_counts [OF cnt assms(2)] blobs eff(1) by simp
    with app_inv_finish [OF fin] eff(2) cnt show ?thesis by (simp add: counts_def)
  qed
qed

end
