(* ===== verification/Handler_Phases.thy ===== *)
theory Handler_Phases
  imports Gateway_Effects
begin

text \<open>
  The handlers of rust-sync-proxy/src/http/router.rs cut at the await points between which they
  touch the shared state: reading and resolving the request, downloading and encoding it,
  sending it, turning the upstream's answer into a response, and the last step.  Each phase
  keeps what the handler's local variables hold.  The steps inside \<open>prepare_request\<close> have their
  own schedule; seen from other requests they are one phase here.

  Shown here: the phases of one request, run without interruption, are the handler.
\<close>

section \<open>What a handler holds between its phases\<close>

text \<open>A Gemini request that has been read and resolved; \<open>call_entry\<close> is its log entry so far.\<close>

record gemini_call =
  call_resolved :: resolved_upstream
  call_target :: string
  call_document :: json
  call_mode :: output_mode
  call_entry :: admin_log_entry

type_synonym answer = "down_response \<times> admin_log_entry"

datatype handler_phase =
    Received route http_request
  | Called http_request gemini_call
  | Prepared http_request gemini_call encoded_request_body admin_log_entry request_cache_tracking
  | Replied http_request gemini_call http_reply admin_log_entry
  | Answered answer
  | Ended down_response

definition call_aiapidev :: "'w gateway \<Rightarrow> gemini_call \<Rightarrow> bool" where
  "call_aiapidev E call \<longleftrightarrow> is_aiapidev_base_url (base_ops (gw_urls E)) (base_url (call_resolved call))"

text \<open>The first lines of \<open>forward_gemini_request\<close>: the body is read and parsed once more.\<close>

definition open_call :: "'w gateway \<Rightarrow> resolved_upstream \<Rightarrow> string \<Rightarrow> http_request \<Rightarrow> request_log_snapshot
    \<Rightarrow> forward_request_failure + gemini_call" where
  "open_call E resolved target_path request snap =
     (case to_bytes (gw_limit_error E) MAX_REQUEST_BODY_BYTES (rq_body request) of
        Inl err \<Rightarrow> Err (failing (Message (''failed to read request body: '' @ err)) (base_entry snap))
      | Inr request_body \<Rightarrow>
          (let e = (base_entry snap)\<lparr>request_parse_ms := ck_forward_parse (gw_clock E)\<rparr>
           in case parse_json (gw_json E) request_body of
                Inl err \<Rightarrow>
                  Err (failing (Structured ''invalid request json body'' ''parse_request_json'' ''invalid_json''
                                  (''invalid request json body: '' @ err)) e)
              | Inr body \<Rightarrow>
                  (let mode = get_output_mode (gw_urls E) (rq_query request) body
                   in Ok \<lparr>call_resolved = resolved, call_target = target_path, call_document = body, call_mode = mode,
                          call_entry = e\<lparr>entry_output_mode := mode_name mode\<rparr>\<rparr>)))"

text \<open>\<open>model_action\<close> up to the point where the upstream is known.\<close>

definition read_model_request :: "'w gateway \<Rightarrow> string \<Rightarrow> http_request \<Rightarrow> 'c app_state \<Rightarrow> answer + gemini_call" where
  "read_model_request E rest request st =
     (let ck = gw_clock E
      in if \<not> ends_with rest generate_content then Err (short_error 404 ''Not Found'', early_entry ck request 404)
         else
           (case to_bytes (gw_limit_error E) MAX_REQUEST_BODY_BYTES (rq_body request) of
              Inl err \<Rightarrow> Err (refuse_body ck request err)
            | Inr request_body \<Rightarrow>
                (let snap = from_request_body (gw_json E) request_body (app_admin st \<noteq> None)
                 in case parse_json (gw_json E) request_body of
                      Inl err \<Rightarrow> Err (refuse_json ck request snap err)
                    | Inr parsed_body \<Rightarrow>
                        (case resolve_upstream_for_request_from_header_map (base_ops (gw_urls E))
                                (text_header_map (rq_headers request)) parsed_body
                                (upstream_base_url (app_config st)) (upstream_api_key (app_config st)) of
                           Inl err \<Rightarrow> Err (refuse_upstream ck request snap err)
                         | Inr resolved \<Rightarrow>
                             (case open_call E resolved (models_prefix @ rest) (request\<lparr>rq_body := [Inr request_body]\<rparr>) snap of
                                Inl ff \<Rightarrow>
                                  Err (answer_forwarded E request
                                    (\<not> is_aiapidev_base_url (base_ops (gw_urls E)) (base_url resolved)) (Err ff))
                              | Inr call \<Rightarrow> Ok call)))))"

text \<open>\<open>image_generations_action\<close> up to its last step.\<close>

definition answer_image_request :: "'w gateway \<Rightarrow> http_request \<Rightarrow> 'c app_state \<Rightarrow> 'w \<Rightarrow> answer \<times> 'w" where
  "answer_image_request E request st w =
     (let ck = gw_clock E
      in case to_bytes (gw_limit_error E) MAX_REQUEST_BODY_BYTES (rq_body request) of
           Inl err \<Rightarrow> (refuse_body ck request err, w)
         | Inr request_body \<Rightarrow>
             (let snap = from_request_body (gw_json E) request_body (app_admin st \<noteq> None)
              in case parse_json (gw_json E) request_body of
                   Inl err \<Rightarrow> (refuse_json ck request snap err, w)
                 | Inr parsed_body \<Rightarrow>
                     (case normalize_request_body (base_ops (gw_urls E)) parsed_body of
                        Inl err \<Rightarrow>
                          ((short_error 400 (error_text (gw_texts E) err),
                            apply_to_entry snap (proxy_failure ''normalize_openai_image_request'' ''invalid_request''
                              ''invalid openai image request'' (error_text (gw_texts E) err) (parsed_entry ck request 400))), w)
                      | Inr normalized_body \<Rightarrow>
                          (case resolve_upstream_for_request_from_header_map (base_ops (gw_urls E))
                                  (text_header_map (rq_headers request)) normalized_body
                                  (upstream_base_url (app_config st)) (upstream_api_key (app_config st)) of
                             Inl err \<Rightarrow> (refuse_upstream ck request snap err, w)
                           | Inr resolved \<Rightarrow>
                               (case forward_openai_image_request E resolved normalized_body
                                       (filter_option (\<lambda>q. q \<noteq> []) (rq_query request)) snap st w of
                                  (r, w1) \<Rightarrow> (answer_forwarded E request True r, w1))))))"

section \<open>One phase\<close>

definition prepare_phase :: "'w gateway \<Rightarrow> event list \<Rightarrow> http_request \<Rightarrow> gemini_call \<Rightarrow> 'c app_state \<Rightarrow> (handler_phase \<times> 'c app_state) option" where
  "prepare_phase E schedule request call st =
     (case prepare_request E schedule (call_document call) (call_entry call)
             (build_request_cache_tracking (map_option stats (app_admin st))) st of
        None \<Rightarrow> None
      | Some (Inl ff, t, st1) \<Rightarrow> Some (Answered (answer_forwarded E request True (Err ff)), st1)
      | Some (Inr (encoded, e), t, st1) \<Rightarrow> Some (Prepared request call encoded e t, st1))"

definition send_phase :: "'w gateway \<Rightarrow> http_request \<Rightarrow> gemini_call \<Rightarrow> encoded_request_body \<Rightarrow> admin_log_entry
    \<Rightarrow> request_cache_tracking \<Rightarrow> 'c app_state \<Rightarrow> 'w \<Rightarrow> handler_phase \<times> 'c app_state \<times> 'w" where
  "send_phase E request call encoded e t st w =
     (case send_prepared E (call_resolved call) (call_target call) (rq_query request)
             (map_of (rq_headers request) ''content-type'') (map_of (rq_headers request) ''accept'') encoded e t st w of
        (Inl ff, st1, w1) \<Rightarrow> (Answered (answer_forwarded E request True (Err ff)), st1, w1)
      | (Inr (reply, e1), st1, w1) \<Rightarrow> (Replied request call reply e1, st1, w1))"

definition respond_phase :: "'w gateway \<Rightarrow> http_request \<Rightarrow> gemini_call \<Rightarrow> http_reply \<Rightarrow> admin_log_entry \<Rightarrow> 'c app_state \<Rightarrow> 'w
    \<Rightarrow> handler_phase \<times> 'w" where
  "respond_phase E request call reply e st w =
     (case handle_non_stream_response E (response_services E st) (gw_upload_io E (upload_client st)) (app_config st)
             (call_mode call) reply w of
        (Inl err, w1) \<Rightarrow> (Answered (answer_forwarded E request True (Err (failing err e))), w1)
      | (Inr (response, durations), w1) \<Rightarrow>
          (Answered (answer_forwarded E request True (Ok (response, apply_durations response durations e))), w1))"

definition translate_phase :: "'w gateway \<Rightarrow> http_request \<Rightarrow> gemini_call \<Rightarrow> 'c app_state \<Rightarrow> 'w \<Rightarrow> handler_phase \<times> 'w" where
  "translate_phase E request call st w =
     (case forward_aiapidev E (call_resolved call) (call_target call) (rq_query request) (call_document call) (call_mode call)
             (call_entry call) st w of
        (r, w1) \<Rightarrow> (Answered (answer_forwarded E request False r), w1))"

text \<open>A step is \<open>None\<close> when the handler has ended, or for a schedule that is no complete run.\<close>

fun phase_step :: "'w gateway \<Rightarrow> event list \<Rightarrow> handler_phase \<Rightarrow> 'c app_state \<Rightarrow> 'w \<Rightarrow> (handler_phase \<times> 'c app_state \<times> 'w) option" where
  "phase_step E schedule (Received (Model rest) request) st w =
     Some (case read_model_request E rest request st of Inl a \<Rightarrow> Answered a | Inr call \<Rightarrow> Called request call, st, w)"
| "phase_step E schedule (Received ImagesGenerations request) st w =
     (case answer_image_request E request st w of (a, w1) \<Rightarrow> Some (Answered a, st, w1))"
| "phase_step E schedule (Received _ request) st w = None"
| "phase_step E schedule (Called request call) st w =
     (if call_aiapidev E call then (case translate_phase E request call st w of (ph, w1) \<Rightarrow> Some (ph, st, w1))
      else (case prepare_phase E schedule request call st of
              None \<Rightarrow> None
            | Some (ph, st1) \<Rightarrow> Some (ph, st1, w)))"
| "phase_step E schedule (Prepared request call encoded e t) st w = Some (send_phase E request call encoded e t st w)"
| "phase_step E schedule (Replied request call reply e) st w =
     (case respond_phase E request call reply e st w of (ph, w1) \<Rightarrow> Some (ph, st, w1))"
| "phase_step E schedule (Answered a) st w = (case finish E a st of (r, st1) \<Rightarrow> Some (Ended r, st1, w))"
| "phase_step E schedule (Ended r) st w = None"

fun run_phases :: "'w gateway \<Rightarrow> event list \<Rightarrow> nat \<Rightarrow> handler_phase \<Rightarrow> 'c app_state \<Rightarrow> 'w \<Rightarrow> (handler_phase \<times> 'c app_state \<times> 'w) option" where
  "run_phases E schedule n (Ended r) st w = Some (Ended r, st, w)"
| "run_phases E schedule 0 ph st w = Some (ph, st, w)"
| "run_phases E schedule (Suc n) ph st w =
     (case phase_step E schedule ph st w of
        None \<Rightarrow> None
      | Some (ph1, st1, w1) \<Rightarrow> run_phases E schedule n ph1 st1 w1)"

section \<open>The phases of one request are the handler\<close>

lemma image_action_phases:
  "image_generations_action E request st w =
     (case answer_image_request E request st w of (a, w1) \<Rightarrow> (case finish E a st of (r, st1) \<Rightarrow> Some (r, st1, w1)))"
  by (simp add: image_generations_action_def answer_image_request_def Let_def split: sum.split prod.split)

text \<open>A call that has been opened is forwarded.\<close>

definition forward_call :: "'w gateway \<Rightarrow> event list \<Rightarrow> http_request \<Rightarrow> gemini_call \<Rightarrow> 'c app_state \<Rightarrow> 'w \<Rightarrow> ('c, 'w) forwarded" where
  "forward_call E schedule request call st w =
     (if call_aiapidev E call then
        (case forward_aiapidev E (call_resolved call) (call_target call) (rq_query request) (call_document call) (call_mode call)
                (call_entry call) st w of
           (r, w1) \<Rightarrow> Some (r, st, w1))
      else forward_standard E schedule (call_resolved call) (call_target call) request (call_document call) (call_mode call)
             (call_entry call) st w)"

lemma forward_gemini_open:
  "forward_gemini_request E schedule resolved target_path request snap st w =
     (case open_call E resolved target_path request snap of
        Inl ff \<Rightarrow> Some (Err ff, st, w)
      | Inr call \<Rightarrow> forward_call E schedule request call st w)"
proof (cases "to_bytes (gw_limit_error E) MAX_REQUEST_BODY_BYTES (rq_body request)")
  case (Inl err)
  then show ?thesis by (simp add: forward_gemini_request_def open_call_def)
next
  case bytes: (Inr b)
  then show ?thesis
    by (cases "parse_json (gw_json E) b")
      (simp_all add: forward_gemini_request_def open_call_def forward_call_def call_aiapidev_def Let_def)
qed

lemma open_call_resolved: "open_call E resolved target_path request snap = Ok call \<Longrightarrow> call_resolved call = resolved"
  by (auto simp: open_call_def Let_def split: sum.splits)

lemma forward_call_body [simp]: "forward_call E schedule (request\<lparr>rq_body := b\<rparr>) call st w = forward_call E schedule request call st w"
proof -
  have "rq_query (request\<lparr>rq_body := b\<rparr>) = rq_query request" "rq_headers (request\<lparr>rq_body := b\<rparr>) = rq_headers request" by simp_all
  then show ?thesis unfolding forward_call_def forward_standard_def by (simp only:)
qed

lemma model_action_phases:
  "model_action E schedule rest request st w =
     (case read_model_request E rest request st of
        Inl a \<Rightarrow> (case finish E a st of (r, st1) \<Rightarrow> Some (r, st1, w))
      | Inr call \<Rightarrow>
          (case forward_call E schedule request call st w of
             None \<Rightarrow> None
           | Some (q, st1, w1) \<Rightarrow>
               (case finish E (answer_forwarded E request (\<not> call_aiapidev E call) q) st1 of (r, st2) \<Rightarrow> Some (r, st2, w1))))"
  by (auto simp: model_action_def read_model_request_def forward_gemini_open call_aiapidev_def Let_def
      dest: open_call_resolved split: sum.split prod.split option.split)

lemma run_answered: "run_phases E schedule (Suc n) (Answered a) st w = (case finish E a st of (r, st1) \<Rightarrow> Some (Ended r, st1, w))"
  by (cases n) (simp_all split: prod.split)

lemma run_called:
  "run_phases E schedule 4 (Called request call) st w =
     (case forward_call E schedule request call st w of
        None \<Rightarrow> None
      | Some (q, st1, w1) \<Rightarrow>
          (case finish E (answer_forwarded E request (\<not> call_aiapidev E call) q) st1 of (r, st2) \<Rightarrow> Some (Ended r, st2, w1)))"
proof (cases "call_aiapidev E call")
  case True
  then show ?thesis
    by (simp add: forward_call_def translate_phase_def run_answered eval_nat_numeral split: prod.split)
next
  case False
  show ?thesis
  proof (cases "prepare_request E schedule (call_document call) (call_entry call)
      (build_request_cache_tracking (map_option stats (app_admin st))) st")
    case None
    with False show ?thesis by (simp add: forward_call_def prepare_phase_def forward_standard_def eval_nat_numeral)
  next
    case (Some x)
    obtain p t st1 where x: "x = (p, t, st1)" by (metis prod_cases3)
    show ?thesis
    proof (cases p)
      case (Inl ff)
      with False Some x show ?thesis
        by (simp add: forward_call_def prepare_phase_def forward_standard_def eval_nat_numeral split: prod.split)
    next
      case (Inr y)
      obtain encoded e where y: "y = (encoded, e)" by (metis prod.collapse)
      obtain q st2 w2 where sent: "send_prepared E (call_resolved call) (call_target call) (rq_query request)
          (map_of (rq_headers request) ''content-type'') (map_of (rq_headers request) ''accept'') encoded e t st1 w = (q, st2, w2)"
        by (metis prod_cases3)
      show ?thesis
      proof (cases q)
        case (Inl ff)
        with False Some x Inr y sent show ?thesis
          by (simp add: forward_call_def prepare_phase_def send_phase_def forward_standard_def eval_nat_numeral split: prod.split)
      next
        case reply: (Inr z)
        obtain reply e2 where z: "z = (reply, e2)" by (metis prod.collapse)
        from False Some x Inr y sent reply z show ?thesis
          by (simp add: forward_call_def prepare_phase_def send_phase_def respond_phase_def forward_standard_def run_answered
              eval_nat_numeral split: prod.split sum.split)
      qed
    qed
  qed
qed


section \<open>Every request is answered\<close>

lemma materialize_total:
  "\<exists>schedule. length schedule \<le> 21 \<and> materialize_request_images_with_services W svc schedule doc s \<noteq> None"
proof (cases "scan_request_image_urls doc")
  case (Inl e)
  then show ?thesis by (intro exI [of _ "[]"]) (simp add: materialize_request_images_with_services_def)
next
  case (Inr refs)
  let ?urls = "unique_urls refs []"
  note start = sched_inv_start [OF unique_urls_distinct, of refs "[]" s]
  obtain evs run where run: "run_events W svc evs (start_run ?urls s) = Some run" "failure run \<noteq> None \<or> all_joined ?urls run"
    using run_completes [OF start] by blast
  have "Request_Materialize.pending ?urls (start_run ?urls s) = 3 * length ?urls" by (rule pending_start)
  moreover have "length ?urls \<le> 7" using unique_urls_length [of refs "[]"] scan_Ok_length [OF Inr] by linarith
  ultimately have "length evs \<le> 21" using run_events_pending [OF run(1) start] by simp
  moreover have "materialize_request_images_with_services W svc evs doc s \<noteq> None"
    using Inr run by (auto simp: materialize_request_images_with_services_def Let_def split: option.splits)
  ultimately show ?thesis by blast
qed

lemma forward_call_total: "\<exists>schedule. length schedule \<le> 21 \<and> forward_call E schedule request call st w \<noteq> None"
proof (cases "call_aiapidev E call")
  case True
  then show ?thesis by (intro exI [of _ "[]"]) (simp add: forward_call_def split: prod.split)
next
  case False
  let ?t = "build_request_cache_tracking (map_option stats (app_admin st))"
  obtain schedule where sch: "length schedule \<le> 21"
      "materialize_request_images_with_services (gw_work E) (request_services E st (observing ?t)) schedule (call_document call)
         (app_blobs st) \<noteq> None"
    using materialize_total by blast
  then have "\<exists>x. prepare_request E schedule (call_document call) (call_entry call) ?t st = Some x"
    by (auto simp: prepare_request_def split: prod.splits sum.splits)
  then obtain p t st1 where "prepare_request E schedule (call_document call) (call_entry call) ?t st = Some (p, t, st1)"
    by (metis prod_cases3)
  then have "forward_call E schedule request call st w \<noteq> None"
    using False by (auto simp: forward_call_def forward_standard_def split: sum.split prod.split)
  with sch(1) show ?thesis by blast
qed

text \<open>
  C31: Every request gets an answer: whatever it contains, whatever the upstream, the image hosts
  and the disk do, and in any state of the service, the downloads can be run to their end in
  at most twenty-one steps, and then the handler returns a response.  No branch of a handler is
  without one.
\<close>

theorem every_request_answered:
  "\<exists>schedule served st' w'. length schedule \<le> 21 \<and> serve E decode schedule request st w = Some (served, st', w')"
proof -
  have model: "\<exists>schedule x. length schedule \<le> 21 \<and> model_action E schedule rest request st w = Some x" for rest
  proof (cases "read_model_request E rest request st")
    case (Inl a)
    then show ?thesis by (intro exI [of _ "[]"]) (simp add: model_action_phases split: prod.split)
  next
    case (Inr call)
    from forward_call_total [of E request call st w] obtain schedule x where
      "length schedule \<le> 21" "forward_call E schedule request call st w = Some x" by blast
    with Inr show ?thesis
      by (intro exI [of _ schedule]) (auto simp: model_action_phases split: prod.split)
  qed
  have images: "\<exists>x. image_generations_action E request st w = Some x"
    by (simp add: image_action_phases split: prod.split)
  have answers: "\<exists>a. serve_admin (gw_b64_decode E) r (rq_headers request) st = Some a"
    if "r \<in> {AdminRoot, AdminLogs, AdminApiLogs, AdminApiStats}" for r
    using that by (auto simp: serve_admin_def)
  have thesis_if: ?thesis if "length schedule \<le> 21" "serve E decode schedule request st w = Some x" for schedule x
    using that by (metis prod_cases3)
  have at_once: ?thesis if "\<exists>x. serve E decode [] request st w = Some x"
    using that thesis_if [of "[]"] by auto
  show ?thesis
  proof (cases "route_request decode (rq_method request) (rq_path request)")
    case (Handled r)
    consider (model) rest where "r = Model rest" | (images) "r = ImagesGenerations"
      | (admin) "r \<in> {AdminRoot, AdminLogs, AdminApiLogs, AdminApiStats}" by (cases r) auto
    then show ?thesis
    proof cases
      case model
      from \<open>\<And>rest. \<exists>schedule x. length schedule \<le> 21 \<and> model_action E schedule rest request st w = Some x\<close> [of rest]
      obtain schedule x where "length schedule \<le> 21" "model_action E schedule rest request st w = Some x" by blast
      with Handled model show ?thesis by (intro thesis_if [of schedule]) (simp_all add: serve_def)
    next
      case images
      then show ?thesis using Handled \<open>\<exists>x. image_generations_action E request st w = Some x\<close>
        by (intro at_once) (auto simp: serve_def)
    next
      case admin
      obtain a where "serve_admin (gw_b64_decode E) r (rq_headers request) st = Some a" using answers [OF admin] ..
      with Handled admin show ?thesis by (intro at_once) (auto simp: serve_def)
    qed
  qed (intro at_once, simp add: serve_def)+
qed

end
