(* ===== verification/Response_Types.thy ===== *)
theory Response_Types
  imports Response_Materialize
begin

text \<open>
  The type discipline of the response side: every transformation that a response document goes
  through (rust-sync-proxy/src/response_rewrite.rs and response_materialize.rs) turns
  well-formed documents, in which no object has a key twice, into well-formed documents, so
  that what is printed at the end is what the transformations computed.
\<close>

section \<open>Each transformation keeps documents well-formed\<close>

lemma fst_map_value [simp]: "fst \<circ> (\<lambda>(k, v). (k, g v)) = fst"
  by (simp add: fun_eq_iff)

lemma json_wf_remove_thought_signatures: "json_wf v \<Longrightarrow> json_wf (remove_thought_signatures v)"
proof (induction v rule: remove_thought_signatures.induct)
  case (1 m)
  let ?m = "map_remove ''thoughtSignature'' m"
  have d: "distinct (map fst m)" "fields_wf m" using "1.prems" by simp_all
  have sub: "set ?m \<subseteq> set m" using set_map_remove [OF d(1)] by auto
  have "json_wf (remove_thought_signatures v)" if "(k, v) \<in> set ?m" for k v
    using "1.IH" [OF that refl] that sub d(2) by (auto simp: fields_wf_iff)
  then show ?case using distinct_map_remove [OF d(1)] by (auto simp: fields_wf_iff)
next
  case (2 xs)
  then show ?case by (auto simp: items_wf_iff)
qed simp_all

lemma json_wf_on_field: "json_wf v \<Longrightarrow> (\<And>w. json_wf w \<Longrightarrow> json_wf (f w)) \<Longrightarrow> json_wf (on_field k f v)"
  by (cases v) (auto simp: on_field_def intro: fields_wf_modify)

lemma json_wf_on_array: "json_wf v \<Longrightarrow> (\<And>xs. items_wf xs \<Longrightarrow> items_wf (f xs)) \<Longrightarrow> json_wf (on_array f v)"
  by (cases v) (auto simp: on_array_def)

lemma set_retain_loop: "set (retain_loop best parts i) \<subseteq> set parts"
  by (induction best parts i rule: retain_loop.induct) auto

lemma items_wf_keep_parts: "items_wf parts \<Longrightarrow> items_wf (keep_parts parts)"
  using subsetD [OF set_retain_loop] by (auto simp: keep_parts_def items_wf_iff split: option.split)

lemma json_wf_keep_candidate: "json_wf v \<Longrightarrow> json_wf (keep_candidate v)"
  unfolding keep_candidate_def by (intro json_wf_on_field json_wf_on_array items_wf_keep_parts)

lemma json_wf_keep_largest_inline_image: "json_wf v \<Longrightarrow> json_wf (keep_largest_inline_image v)"
  unfolding keep_largest_inline_image_def
proof (rule json_wf_on_field, assumption, rule json_wf_on_array, assumption)
  fix xs assume "items_wf xs"
  then show "items_wf (map keep_candidate xs)" using json_wf_keep_candidate by (auto simp: items_wf_iff)
qed

lemma json_wf_patch_inline: "json_wf v \<Longrightarrow> json_wf (patch_inline R v)"
  by (cases v) (auto simp: patch_inline_def apply_replacement_def distinct_map_insert fields_wf_insert split: option.split)

lemma json_wf_patch_tree: "json_wf v \<Longrightarrow> json_wf (patch_tree R v)"
proof (induction R v rule: patch_tree.induct)
  case (1 R m)
  let ?m = "map_modify ''inlineData'' (patch_inline R) m"
  have m: "distinct (map fst ?m)" "fields_wf ?m"
    using "1.prems" fields_wf_modify [OF _ json_wf_patch_inline] by simp_all
  have "json_wf (patch_tree R v)" if "(k, v) \<in> set ?m" for k v
    using "1.IH" [OF that refl] that m(2) by (auto simp: fields_wf_iff)
  then show ?case using m(1) by (auto simp: fields_wf_iff)
next
  case (2 R xs)
  then show ?case by (auto simp: items_wf_iff)
qed simp_all

lemma json_wf_optimize:
  "json_wf v \<Longrightarrow> optimize_inline_data_images enc dec cd c v = Ok v' \<Longrightarrow> json_wf v'"
  by (auto simp: optimize_inline_data_images_def optimize_inline_data_images_with_options_def patch_inline_data_base64_def
      and_then_eq_Ok json_wf_patch_tree split: if_splits)

lemma json_wf_finalize: "json_wf v \<Longrightarrow> finalize_output_urls env io c v w = (Ok v', w') \<Longrightarrow> json_wf v'"
  by (auto simp: finalize_output_urls_def patch_inline_data_urls_def json_wf_patch_tree split: prod.splits)

lemma json_wf_inline_data: "json_wf (inline_part (inline_data_json mime d))"
  by (simp add: inline_part_def inline_data_json_def)

lemma special_inline_data_shape: "special_inline_data sv c mode url w = (Ok v, w') \<Longrightarrow> \<exists>mime d. v = inline_data_json mime d"
  by (cases mode) (auto simp: special_inline_data_def map_io_def io_simps Let_def split: prod.splits sum.splits)

lemma json_wf_normalize_special:
  assumes "json_wf v" "normalize_special_markdown_image_response sv c mode v w = (Ok v', w')"
  shows "json_wf v'"
proof -
  have "v' = v \<or> (\<exists>mime d. v' = pointer_modify ''/candidates/0/content/parts'' (\<lambda>_. JArray [inline_part (inline_data_json mime d)]) v)"
    using assms(2)
    by (auto simp: normalize_special_markdown_image_response_def map_io_def io_simps
        dest!: special_inline_data_shape split: if_splits option.splits prod.splits sum.splits)
  with assms(1) json_wf_inline_data show ?thesis by (auto intro!: json_wf_pointer_modify)
qed

section \<open>No signature is left\<close>

fun signature_free :: "json \<Rightarrow> bool"
  and fields_signature_free :: "fields \<Rightarrow> bool"
  and items_signature_free :: "json list \<Rightarrow> bool" where
  "signature_free (JObject m) = fields_signature_free m"
| "signature_free (JArray xs) = items_signature_free xs"
| "signature_free JNull = True"
| "signature_free (JBool b) = True"
| "signature_free (JNumber n) = True"
| "signature_free (JString s) = True"
| "fields_signature_free [] = True"
| "fields_signature_free ((k, v) # m) = (k \<noteq> ''thoughtSignature'' \<and> signature_free v \<and> fields_signature_free m)"
| "items_signature_free [] = True"
| "items_signature_free (x # xs) = (signature_free x \<and> items_signature_free xs)"

lemma fields_signature_free_iff: "fields_signature_free m \<longleftrightarrow> (\<forall>(k, v) \<in> set m. k \<noteq> ''thoughtSignature'' \<and> signature_free v)"
  by (induction m) auto

lemma items_signature_free_iff: "items_signature_free xs \<longleftrightarrow> (\<forall>x \<in> set xs. signature_free x)"
  by (induction xs) auto

lemma signature_free_remove: "json_wf v \<Longrightarrow> signature_free (remove_thought_signatures v)"
proof (induction v rule: remove_thought_signatures.induct)
  case (1 m)
  let ?m = "map_remove ''thoughtSignature'' m"
  have d: "distinct (map fst m)" "fields_wf m" using "1.prems" by simp_all
  have "k \<noteq> ''thoughtSignature'' \<and> signature_free (remove_thought_signatures v)" if kv: "(k, v) \<in> set ?m" for k v
  proof -
    have "(k, v) \<in> set m \<and> k \<noteq> ''thoughtSignature''" using kv set_map_remove [OF d(1)] by auto
    then show ?thesis using "1.IH" [OF kv refl] d(2) by (auto simp: fields_wf_iff)
  qed
  then show ?case by (auto simp: fields_signature_free_iff)
next
  case (2 xs)
  then show ?case by (auto simp: items_signature_free_iff items_wf_iff)
qed simp_all

lemma fields_signature_free_modify:
  "fields_signature_free m \<Longrightarrow> (\<And>v. signature_free v \<Longrightarrow> signature_free (f v)) \<Longrightarrow> fields_signature_free (map_modify k f m)"
  by (induction k f m rule: map_modify.induct) auto

lemma fields_signature_free_insert:
  "fields_signature_free m \<Longrightarrow> signature_free v \<Longrightarrow> k \<noteq> ''thoughtSignature'' \<Longrightarrow> fields_signature_free (map_insert k v m)"
  by (induction k v m rule: map_insert.induct) auto

lemma signature_free_on_field:
  "signature_free v \<Longrightarrow> (\<And>w. signature_free w \<Longrightarrow> signature_free (f w)) \<Longrightarrow> signature_free (on_field k f v)"
  by (cases v) (auto simp: on_field_def intro: fields_signature_free_modify)

lemma signature_free_on_array:
  "signature_free v \<Longrightarrow> (\<And>xs. items_signature_free xs \<Longrightarrow> items_signature_free (f xs)) \<Longrightarrow> signature_free (on_array f v)"
  by (cases v) (auto simp: on_array_def)

lemma signature_free_keep_candidate: "signature_free v \<Longrightarrow> signature_free (keep_candidate v)"
proof -
  have "items_signature_free parts \<Longrightarrow> items_signature_free (keep_parts parts)" for parts
    using subsetD [OF set_retain_loop] by (auto simp: keep_parts_def items_signature_free_iff split: option.split)
  then show "signature_free v \<Longrightarrow> signature_free (keep_candidate v)"
    unfolding keep_candidate_def by (intro signature_free_on_field signature_free_on_array)
qed

lemma signature_free_keep_largest: "signature_free v \<Longrightarrow> signature_free (keep_largest_inline_image v)"
  unfolding keep_largest_inline_image_def
proof (rule signature_free_on_field, assumption, rule signature_free_on_array, assumption)
  fix xs assume "items_signature_free xs"
  then show "items_signature_free (map keep_candidate xs)"
    using signature_free_keep_candidate by (auto simp: items_signature_free_iff)
qed

lemma signature_free_patch_inline: "signature_free v \<Longrightarrow> signature_free (patch_inline R v)"
  by (cases v) (auto simp: patch_inline_def apply_replacement_def intro!: fields_signature_free_insert split: option.split)

lemma signature_free_patch_tree: "signature_free v \<Longrightarrow> signature_free (patch_tree R v)"
proof (induction R v rule: patch_tree.induct)
  case (1 R m)
  let ?m = "map_modify ''inlineData'' (patch_inline R) m"
  have m: "fields_signature_free ?m"
    using "1.prems" fields_signature_free_modify [OF _ signature_free_patch_inline] by simp
  have "k \<noteq> ''thoughtSignature'' \<and> signature_free (patch_tree R v)" if "(k, v) \<in> set ?m" for k v
    using "1.IH" [OF that refl] that m by (auto simp: fields_signature_free_iff)
  then show ?case by (auto simp: fields_signature_free_iff)
next
  case (2 R xs)
  then show ?case by (auto simp: items_signature_free_iff)
qed simp_all

lemma signature_free_optimize:
  "signature_free v \<Longrightarrow> optimize_inline_data_images enc dec cd c v = Ok v' \<Longrightarrow> signature_free v'"
  by (auto simp: optimize_inline_data_images_def optimize_inline_data_images_with_options_def patch_inline_data_base64_def
      and_then_eq_Ok signature_free_patch_tree split: if_splits)

lemma signature_free_finalize: "signature_free v \<Longrightarrow> finalize_output_urls env io c v w = (Ok v', w') \<Longrightarrow> signature_free v'"
  by (auto simp: finalize_output_urls_def patch_inline_data_urls_def signature_free_patch_tree split: prod.splits)

end
