(* ===== verification/Gateway_Service.thy ===== *)
theory Gateway_Service
  imports Gateway_Effects Response_Types
begin

text \<open>
  The properties of the whole service (rust-sync-proxy/src/http/router.rs): every request is
  answered and leaves exactly one log entry that matches its answer; what is sent upstream
  and that the blobs of a request are gone afterwards; the invariant between requests; what
  an upstream answer becomes; and an entry that loses its cause.
\<close>

section \<open>A sample gateway\<close>

definition demo_task_world :: "unit task_world" where
  "demo_task_world =
     \<lparr>create_task = (\<lambda>_ _. lift_io (Err (Message ''no task''))), poll_world_of = (\<lambda>_. demo_poll 0), poll_start = (\<lambda>_. 0),
      after_polls = (\<lambda>_ w. w), task_services = demo_services, task_codec = demo_codec, task_decode = rfc_decode,
      task_to_vec = (\<lambda>_. Ok [])\<rparr>"

definition demo_gateway :: "unit gateway" where
  "demo_gateway =
     \<lparr>gw_urls = demo_upstream_ops, gw_texts = demo_texts,
      gw_json = \<lparr>parse_json = (\<lambda>_. Ok demo_request), print_json = (\<lambda>v. Ok (json_text (\<lambda>_. []) v)), print_pretty = (\<lambda>_. None)\<rparr>,
      gw_encoder = std_env (\<lambda>_. []) 1 Map.empty demo_image, gw_pipe_reads = (\<lambda>b. map Inr (cut 2 b)), gw_on_abort = id,
      gw_b64_decode = rfc_decode, gw_decode_error = (\<lambda>_. []), gw_query_encode = id, gw_codec = demo_codec, gw_work = demo_work,
      gw_images = (\<lambda>_. demo_http ''a.b''),
      gw_request_fetch = (\<lambda>_ u. if u = ''http://h/a''
        then Ok \<lparr>result_mime = ''image/png'', result_bytes = ''abcd'', from_cache = True\<rparr> else Err (Message ''no such image'')),
      gw_response_fetch = (\<lambda>_ u. lift_io (Err (Message ''no such image''))),
      gw_upload_env = demo_upload_env, gw_upload_io = (\<lambda>_. demo_upload_io), gw_tasks = (\<lambda>_. demo_task_world),
      gw_send = (\<lambda>_ rq w. (Ok \<lparr>reply_status = 200, reply_content_type = None, reply_body = Ok ''{}''\<rparr>, w)),
      gw_builder_error = (\<lambda>t. \<lparr>is_timeout = False, is_connect = False, is_body = False, is_decode = False, is_request = False, reqwest_text = t\<rparr>),
      gw_limit_error = ''length limit exceeded'', gw_unix_secs = (\<lambda>w. (7, w)),
      gw_clock = \<lparr>ck_created_at = ''2025-01-02T03:04:05Z'', ck_total = 9, ck_parse = 1, ck_forward_parse = 1, ck_prepare = 2,
        ck_materialize = 1, ck_encode = 1, ck_build = 2, ck_response = 3, ck_upload = 0\<rparr>\<rparr>"

definition demo_call :: http_request where
  "demo_call =
     \<lparr>rq_method = ''POST'', rq_path = ''/v1beta/models/m:generateContent'', rq_query = None,
      rq_headers = [(''x-goog-api-key'', ''client-key'')], rq_body = [Inr ''{}'']\<rparr>"

abbreviation demo_refs :: "request_image_ref list" where
  "demo_refs \<equiv> [\<lparr>json_pointer = ''/contents/0/inlineData'', ref_url = ''http://h/a''\<rparr>]"

text \<open>A single image is downloaded by the obvious schedule, whatever comes of it.\<close>

lemma one_image_runs:
  assumes "scan_request_image_urls request = Ok [\<lparr>json_pointer = p, ref_url = u\<rparr>]"
  shows "\<exists>x. materialize_request_images_with_services W svc [Acquire u, Work u, Join u] request s = Some x"
proof -
  obtain r told s' where f: "fetch_request_image W svc u s = (r, told, s')" by (metis prod.collapse)
  show ?thesis
  proof (cases r)
    case (Inr x)
    obtain u' fb d where "x = (u', fb, d)" by (metis prod.collapse)
    with Inr f assms show ?thesis
      by (simp add: materialize_request_images_with_services_def start_run_def MAX_CONCURRENT_REQUEST_IMAGE_FETCHES_def
          all_joined_def Let_def)
  qed (use f assms in \<open>simp add: materialize_request_images_with_services_def start_run_def
      MAX_CONCURRENT_REQUEST_IMAGE_FETCHES_def all_joined_def Let_def\<close>)
qed

lemma forward_standard_total:
  assumes "prepare_request E schedule body e (build_request_cache_tracking (map_option stats (app_admin st))) st = Some x"
  shows "\<exists>q st' w'. forward_standard E schedule resolved p request body mode e st w = Some (q, st', w')"
  using assms by (cases x) (auto simp: forward_standard_def split: sum.splits prod.splits)

lemma demo_state_more:
  "request_services demo_gateway demo_state True =
     \<lparr>request_materialize_services.image_client = demo_http ''a.b'', mat_max_image_bytes = REQUEST_MAX_IMAGE_BYTES,
      mat_allow_private_networks = False, enable_webp_optimization = False,
      mat_fetch_service = Some (\<lambda>u. if u = ''http://h/a''
        then Ok \<lparr>result_mime = ''image/png'', result_bytes = ''abcd'', from_cache = True\<rparr> else Err (Message ''no such image'')),
      cache_observer = True\<rparr>"
proof -
  have "(100 * 1024 * 1024 :: u64) \<noteq> 0" by simp
  then have "map_option (\<lambda>f. gw_request_fetch demo_gateway (fetcher_service f)) (request_fetcher demo_state)
      = Some (\<lambda>u. if u = ''http://h/a'' then Ok \<lparr>result_mime = ''image/png'', result_bytes = ''abcd'', from_cache = True\<rparr>
              else Err (Message ''no such image''))"
    by (simp add: demo_state_def build_router_def from_config_def from_config_with_png_optimization_def test_config_def
        demo_gateway_def Let_def)
  then show ?thesis by (simp add: request_services_def demo_state_sel test_config_def demo_gateway_def)
qed

abbreviation demo_gateway_services :: request_materialize_services where
  "demo_gateway_services \<equiv> request_services demo_gateway demo_state True"

lemma demo_gateway_obtained:
  "obtained demo_work demo_gateway_services u =
     (if u = ''http://h/a'' then Ok \<lparr>fetched_mime = ''image/png'', fetched_bytes = ''abcd''\<rparr> else Err (Message ''no such image''))"
  unfolding demo_state_more by (simp add: obtained_def)

lemma demo_gateway_sound: "sound_gateway demo_gateway demo_gateway_services rfc_decode (app_blobs demo_state)"
proof -
  have "images_fit demo_work demo_gateway_services"
    by (auto simp: images_fit_def demo_gateway_obtained fits_def split: if_splits)
  moreover have "fair_reads (16 * 1024) (\<lambda>b. map Inr (cut 2 b))" by (rule fair_cut) simp
  ultimately show ?thesis
    using writer.json_writer_axioms blob_inv_new
    by (simp add: sound_gateway_def demo_gateway_def demo_state_sel runtime_new_def)
qed

abbreviation demo_sent_body :: bytes where
  "demo_sent_body \<equiv> json_text (\<lambda>_. []) (inlined_document rfc_encode demo_work demo_gateway_services demo_refs demo_request)"

lemma demo_sent_length: "length demo_sent_body = 72"
proof -
  have "inlined_at rfc_encode demo_work demo_gateway_services demo_refs =
      (\<lambda>p. if p = ''/contents/0/inlineData'' then Some (image_value rfc_encode ''image/png'' ''abcd'') else None)"
    by (auto simp: fun_eq_iff inlined_at_def demo_gateway_obtained)
  moreover have "length (json_text (\<lambda>_. []) (patch (\<lambda>p. if p = ''/contents/0/inlineData'' then Some (image_value rfc_encode ''image/png'' ''abcd'') else None)
      [] (strip_output_from_value demo_request))) = 72"
    by code_simp
  ultimately show ?thesis by (simp add: inlined_document_def)
qed

lemma demo_call_facts:
  "ends_with ''m:generateContent'' generate_content"
  "to_bytes (gw_limit_error demo_gateway) MAX_REQUEST_BODY_BYTES (rq_body demo_call) = Ok ''{}''"
  "resolve_upstream_for_request_from_header_map (base_ops (gw_urls demo_gateway)) (text_header_map (rq_headers demo_call)) demo_request
     (upstream_base_url (app_config demo_state)) (upstream_api_key (app_config demo_state))
   = Ok \<lparr>base_url = ''https://magic666.top'', api_key = ''client-key''\<rparr>"
  "\<not> is_aiapidev_base_url (base_ops (gw_urls demo_gateway)) ''https://magic666.top''"
  "build_upstream_url (gw_urls demo_gateway) ''https://magic666.top'' (''/v1beta/models/'' @ ''m:generateContent'') (rq_query demo_call)
   = Ok ''https://r2.example/v1beta/models/m:generateContent''"
proof -
  show "ends_with ''m:generateContent'' generate_content" by code_simp
  show "to_bytes (gw_limit_error demo_gateway) MAX_REQUEST_BODY_BYTES (rq_body demo_call) = Ok ''{}''"
    by (simp add: demo_call_def MAX_REQUEST_BODY_BYTES_def)
  have urls: "base_ops (gw_urls demo_gateway) = up_urls demo_upload_env" by (simp add: demo_gateway_def demo_upstream_ops_def)
  have "resolve_upstream_for_request_from_header_map (up_urls demo_upload_env) (text_header_map [(''x-goog-api-key'', ''client-key'')]) demo_request
     ''https://magic666.top'' ''test-upstream-key'' = Ok \<lparr>base_url = ''https://magic666.top'', api_key = ''client-key''\<rparr>"
    unfolding demo_upload_env_def upload_env.select_convs by code_simp
  then show "resolve_upstream_for_request_from_header_map (base_ops (gw_urls demo_gateway)) (text_header_map (rq_headers demo_call)) demo_request
     (upstream_base_url (app_config demo_state)) (upstream_api_key (app_config demo_state))
   = Ok \<lparr>base_url = ''https://magic666.top'', api_key = ''client-key''\<rparr>"
    by (simp add: urls demo_call_def demo_state_sel test_config_def)
  have "\<not> is_aiapidev_base_url (up_urls demo_upload_env) ''https://magic666.top''"
    unfolding demo_upload_env_def upload_env.select_convs by code_simp
  then show "\<not> is_aiapidev_base_url (base_ops (gw_urls demo_gateway)) ''https://magic666.top''" by (simp add: urls)
  show "build_upstream_url (gw_urls demo_gateway) ''https://magic666.top'' (''/v1beta/models/'' @ ''m:generateContent'') (rq_query demo_call)
   = Ok ''https://r2.example/v1beta/models/m:generateContent''"
    by (simp add: build_upstream_url_def demo_gateway_def demo_upstream_ops_def demo_upload_env_def demo_endpoint_def anyhow_of_def
        demo_call_def filter_query_without_output_def)
qed

lemma demo_call_runs:
  "\<exists>r st'. model_action demo_gateway demo_schedule ''m:generateContent'' demo_call demo_state () = Some (r, st', ())"
proof -
  let ?rq = "demo_call\<lparr>rq_body := [Inr ''{}'']\<rparr>"
  have parse: "parse_json (gw_json demo_gateway) b = Ok demo_request" for b by (simp add: demo_gateway_def)
  have again: "to_bytes (gw_limit_error demo_gateway) MAX_REQUEST_BODY_BYTES [Inr ''{}''] = Ok ''{}''"
    by (simp add: MAX_REQUEST_BODY_BYTES_def)
  have "\<exists>x. prepare_request demo_gateway demo_schedule demo_request e t demo_state = Some x" for e t
    using one_image_runs [OF demo_request_scan(2), of "gw_work demo_gateway" "request_services demo_gateway demo_state (observing t)" "app_blobs demo_state"]
    by (auto simp: prepare_request_def split: prod.splits sum.splits)
  then have "\<exists>q st2 w2. forward_standard demo_gateway demo_schedule resolved p rq demo_request m e demo_state () = Some (q, st2, w2)"
    for resolved p rq m e
    by (metis (no_types, opaque_lifting) forward_standard_total)
  then show ?thesis
    using demo_call_facts parse again
    by (auto simp: model_action_def forward_gemini_request_def Let_def split: prod.splits option.splits)
qed

section \<open>Properties\<close>

text \<open>
  C3: Every request is accounted for exactly once.  An action answers with bytes, and when the
  admin log is on it adds one entry in front of the log, numbered next, which carries the
  request's method, path and query, the status of the answer and, sanitised, its very bytes;
  it counts one request, an error for a status of 400 or more, and as many cache hits as the
  entry lists.  Admin endpoints and unknown routes change nothing.
\<close>

theorem every_request_logged_once:
  assumes "serve E decode schedule request st w = Some (answer, st', w')"
  shows "(case answer of
      ServedAction r \<Rightarrow>
        (\<exists>b. down_body r = RawBytes b
          \<and> (case app_admin st of
               None \<Rightarrow> app_admin st' = None
             | Some a \<Rightarrow>
                 (\<exists>a' e. app_admin st' = Some a' \<and> password a' = password a
                    \<and> snapshot_logs a' = take 100 (e # snapshot_logs a) \<and> entry_id e = log_next_id (logs a) + 1
                    \<and> entry_method e = rq_method request \<and> entry_path e = rq_path request
                    \<and> entry_query e = unwrap_or [] (rq_query request)
                    \<and> entry_status_code e = of_nat (down_status r)
                    \<and> response_downstream e = (if b = [] then [] else pretty (sanitize_json_for_log (log_json (gw_json E)) b))
                    \<and> st_total_requests (stats a') = st_total_requests (stats a) + 1
                    \<and> st_error_requests (stats a') = st_error_requests (stats a) + (if entry_status_code e \<ge> 400 then 1 else 0)
                    \<and> st_cache_hits (stats a') = st_cache_hits (stats a) + of_nat (length (request_raw_image_cache_hits e)))))
    | _ \<Rightarrow> st' = st \<and> w' = w)"
proof (cases "\<exists>r. answer = ServedAction r")
  case False
  with assms show ?thesis
    by (cases answer) (auto simp: serve_def split: routed.splits route.splits option.splits)
next
  case True
  then obtain r where ans: "answer = ServedAction r" ..
  with assms have "ends E request st r st'" by (simp add: action_ends)
  then obtain ready hs st1 where fin: "finalize_admin_response (gw_json E) (fst ready) (snd ready) st1 = (r, st')"
      and out: "completes E request hs ready" and hs: "app_admin st = None \<longrightarrow> hs = []" and cnt: "counts st (length hs) st1"
    unfolding ends_def finish_def by (elim exE conjE) (rule that)
  note eff = finalize_effect [OF fin]
  obtain b where b: "down_body r = RawBytes b" using into_response_raw eff(1) by blast
  show ?thesis
  proof (cases "app_admin st")
    case None
    with cnt have "app_admin st1 = None" by (simp add: counts_def)
    with eff(4) b None show ?thesis by (simp add: ans)
  next
    case (Some a)
    with cnt have "app_admin st1 = Some (counted_hits (length hs) a)" by (simp add: counts_def)
    from eff(5) [OF this] obtain a' e where e: "app_admin st' = Some a'" "logs_one (counted_hits (length hs) a) e a'"
      "logged_as (gw_json E) r (snd ready) e" by blast
    have "request_raw_image_cache_hits e = hs"
      using out e(3) by (simp add: completes_def unanswered_def logged_as_def)
    with e out b show ?thesis
      unfolding ans Some
      by (auto simp: logs_one_def logged_as_def completes_def unanswered_def describes_def counted_hits_def
          intro!: exI [where x = a'] exI [where x = e])
  qed
qed

text \<open>
  C1: A Gemini request goes all the way.  For a well-formed document whose images can all be
  obtained, the one request sent to the resolved upstream has the client's path and query
  without the output setting, the announced length, the upstream's own key, and as body exactly
  the document with the output settings removed and every image URL replaced by its image.
  Afterwards the blobs are those from before, whatever the upstream answered.  The client gets
  what \<open>handle_non_stream_response\<close> makes of the answer, or the classified error.
\<close>

theorem gemini_request_end_to_end:
  assumes call: "model_action E schedule rest request st w = Some (r, st', w')"
    and name: "ends_with rest generate_content"
    and bytes: "to_bytes (gw_limit_error E) MAX_REQUEST_BODY_BYTES (rq_body request) = Ok b" "parse_json (gw_json E) b = Ok doc"
    and up: "resolve_upstream_for_request_from_header_map (base_ops (gw_urls E)) (text_header_map (rq_headers request)) doc
        (upstream_base_url (app_config st)) (upstream_api_key (app_config st)) = Ok resolved"
      "\<not> is_aiapidev_base_url (base_ops (gw_urls E)) (base_url resolved)"
      "build_upstream_url (gw_urls E) (base_url resolved) (''/v1beta/models/'' @ rest) (rq_query request) = Ok url"
    and svc: "svc = request_services E st (app_admin st \<noteq> None)" and sound: "sound_gateway E svc dec (app_blobs st)"
    and doc: "json_wf doc" "scan_request_image_urls doc = Ok refs" "all_obtained E svc refs"
    and body: "body = ser (gw_encoder E) (inlined_document (b64 (gw_encoder E)) (gw_work E) svc refs doc)" "fits body"
  shows "\<exists>answer w1. gw_send E (upstream_client st)
        \<lparr>sent_url = url,
         sent_headers = upstream_headers (map_of (rq_headers request) ''content-type'') (map_of (rq_headers request) ''accept'')
                          (of_nat (length body)) (api_key resolved),
         sent_body = body\<rparr> w = (answer, w1)
    \<and> blob_contents (app_blobs st') = blob_contents (app_blobs st) \<and> blob_inv (app_blobs st')
    \<and> (case answer of
         Inl err \<Rightarrow> r = into_response (gw_json E) (failure_response (gw_texts E) True (Reqwest err)) \<and> w' = w1
       | Inr reply \<Rightarrow>
           (\<exists>h. handle_non_stream_response E (response_services E st) (gw_upload_io E (upload_client st)) (app_config st)
                  (get_output_mode (gw_urls E) (rq_query request) doc) reply w1 = (h, w')
              \<and> r = into_response (gw_json E) (forwarded_response (gw_texts E) h)))"
proof -
  let ?t = "build_request_cache_tracking (map_option stats (app_admin st))"
  let ?snap = "from_request_body (gw_json E) b (app_admin st \<noteq> None)"
  let ?mode = "get_output_mode (gw_urls E) (rq_query request) doc"
  let ?e = "(base_entry ?snap)\<lparr>request_parse_ms := ck_forward_parse (gw_clock E), entry_output_mode := mode_name ?mode\<rparr>"
  let ?rq = "request\<lparr>rq_body := [Inr b]\<rparr>"
  have again: "to_bytes (gw_limit_error E) MAX_REQUEST_BODY_BYTES [Inr b] = Ok b" using to_bytes_within [OF bytes(1)] by simp
  have obs: "observing ?t = (app_admin st \<noteq> None)" by (simp add: build_request_cache_tracking_def)
  from call name bytes up(1,2) again obtain q st2 where
    fwd: "forward_standard E schedule resolved (models_prefix @ rest) ?rq doc ?mode ?e st w = Some (q, st2, w')"
    and fin: "finish E (answer_forwarded E request True q) st2 = (r, st')"
    by (auto simp: model_action_def forward_gemini_request_def Let_def split: option.splits prod.splits)
  have blobs: "app_blobs st' = app_blobs st2" and resp: "r = into_response (gw_json E) (fst (answer_forwarded E request True q))"
    using finalize_effect(1,2) [OF fin [unfolded finish_def]] by simp_all
  note unread = prepare_request_Ok [where t = ?t, OF _ svc [folded obs] sound doc body]
  from fwd show ?thesis
  proof (cases rule: forward_standard_cases)
    case (unprepared ff t)
    from unread [OF unprepared(1)] show ?thesis by simp
  next
    case (prepared encoded e1 t st1 p w2)
    from unread [OF prepared(1)] obtain h where h: "encoded = \<lparr>body_blob = h, content_length = of_nat (length body)\<rparr>"
        "h < length (heap (app_blobs st1))" "read_bytes h (app_blobs st1) = Ok body" "blob_inv (app_blobs st1)"
        "io_error (app_blobs st1) = Map.empty" "(blob_contents (app_blobs st1))(h := None) = blob_contents (app_blobs st)" by auto
    have c1: "counts st (length (hit_urls t)) st1" "unanswered [] e1"
      using prepare_request_effect [OF prepared(1)] unanswered_base(3) by (simp_all add: build_request_cache_tracking_def)
    have c2: "counts st1 0 st2" using send_prepared_effect [OF prepared(2) c1(2)] by simp
    have same: "response_services E st2 = response_services E st" "upload_client st2 = upload_client st"
      "app_config st2 = app_config st" "upstream_client st1 = upstream_client st"
      using c1(1) c2 by (simp_all add: counts_def response_services_def)
    from send_prepared_Ok [OF prepared(2) [unfolded h(1)] _ h(2-5)] up(3) obtain answer e' where
      sent: "gw_send E (upstream_client st)
          \<lparr>sent_url = url, sent_headers = upstream_headers (map_of (rq_headers request) ''content-type'')
             (map_of (rq_headers request) ''accept'') (of_nat (length body)) (api_key resolved), sent_body = body\<rparr> w = (answer, w2)"
        "blob_contents (app_blobs st2) = blob_contents (app_blobs st)" "blob_inv (app_blobs st2)"
        "p = (case answer of Inl err \<Rightarrow> Err (failing (Reqwest err) e') | Inr reply \<Rightarrow> Ok (reply, e'))"
      by (auto simp: models_prefix_def same(4) h(6))
    have "case answer of
         Inl err \<Rightarrow> r = into_response (gw_json E) (failure_response (gw_texts E) True (Reqwest err)) \<and> w' = w2
       | Inr reply \<Rightarrow>
           (\<exists>h. handle_non_stream_response E (response_services E st) (gw_upload_io E (upload_client st)) (app_config st)
                  ?mode reply w2 = (h, w') \<and> r = into_response (gw_json E) (forwarded_response (gw_texts E) h))"
      using prepared(3) sent(4)
      by (auto simp: resp answer_forwarded_def forwarded_response_def same split: sum.splits prod.splits)
    with sent(1-3) show ?thesis unfolding blobs by blast
  qed
qed

theorem gemini_request_end_to_end_witness:
  "\<exists>r st'. model_action demo_gateway demo_schedule ''m:generateContent'' demo_call demo_state () = Some (r, st', ())
     \<and> down_content_type r = application_json
     \<and> blob_contents (app_blobs st') = blob_contents (app_blobs demo_state)"
proof -
  from demo_call_runs obtain r st' where run:
    "model_action demo_gateway demo_schedule ''m:generateContent'' demo_call demo_state () = Some (r, st', ())" by blast
  have parse: "parse_json (gw_json demo_gateway) ''{}'' = Ok demo_request" by (simp add: demo_gateway_def)
  have svc: "demo_gateway_services = request_services demo_gateway demo_state (app_admin demo_state \<noteq> None)"
    by (simp add: demo_state_sel)
  have sel: "gw_work demo_gateway = demo_work" "gw_encoder demo_gateway = std_env (\<lambda>_. []) 1 Map.empty demo_image"
    by (simp_all add: demo_gateway_def)
  have got: "all_obtained demo_gateway demo_gateway_services demo_refs"
    unfolding sel by (simp add: demo_gateway_obtained)
  have body: "demo_sent_body = ser (gw_encoder demo_gateway)
      (inlined_document (b64 (gw_encoder demo_gateway)) (gw_work demo_gateway) demo_gateway_services demo_refs demo_request)"
    unfolding sel by (simp add: std_env_def)
  have fit: "fits demo_sent_body" by (simp add: fits_def demo_sent_length)
  have aiapidev: "\<not> is_aiapidev_base_url (base_ops (gw_urls demo_gateway))
      (base_url \<lparr>base_url = ''https://magic666.top'', api_key = ''client-key''\<rparr>)" using demo_call_facts(4) by simp
  have url: "build_upstream_url (gw_urls demo_gateway) (base_url \<lparr>base_url = ''https://magic666.top'', api_key = ''client-key''\<rparr>)
      (''/v1beta/models/'' @ ''m:generateContent'') (rq_query demo_call) = Ok ''https://r2.example/v1beta/models/m:generateContent''"
    using demo_call_facts(5) by simp
  note end_to_end = gemini_request_end_to_end [OF run demo_call_facts(1,2) parse demo_call_facts(3) aiapidev url svc
      demo_gateway_sound demo_request_scan got body fit]
  have wire: "gw_send demo_gateway client rq () = (Ok \<lparr>reply_status = 200, reply_content_type = None, reply_body = Ok ''{}''\<rparr>, ())"
    for client rq by (simp add: demo_gateway_def)
  have "down_content_type (into_response (gw_json demo_gateway) x) = application_json" if "down_content_type x = application_json" for x
    using that by (cases "down_body x") (simp_all add: into_response_def demo_gateway_def)
  moreover have "down_content_type (forwarded_response (gw_texts demo_gateway) h) = application_json"
    if "handle_non_stream_response demo_gateway sv io c m \<lparr>reply_status = 200, reply_content_type = None, reply_body = Ok ''{}''\<rparr> () = (h, ())"
    for sv io c m h
    using that
    by (auto simp: handle_non_stream_response_def is_success_def io_simps forwarded_response_def failure_response_def answer_failure_def
        build_structured_proxy_error_response_def proxy_error_response_def json_response_def short_error_def Let_def
        split: sum.splits prod.splits option.splits)
  ultimately have "down_content_type r = application_json \<and> blob_contents (app_blobs st') = blob_contents (app_blobs demo_state)"
    using end_to_end by (auto simp: wire)
  with run show ?thesis by blast
qed

theorem every_request_logged_once_witness:
  "\<exists>r st' a'. serve demo_gateway Some demo_schedule demo_call demo_state () = Some (ServedAction r, st', ())
     \<and> app_admin st' = Some a' \<and> st_total_requests (stats a') = 1 \<and> length (snapshot_logs a') = 1"
proof -
  from demo_call_runs obtain r st' where run:
    "model_action demo_gateway demo_schedule ''m:generateContent'' demo_call demo_state () = Some (r, st', ())" by blast
  have "route_request Some ''POST'' ''/v1beta/models/m:generateContent'' = Handled (Model ''m:generateContent'')" by code_simp
  with run have served: "serve demo_gateway Some demo_schedule demo_call demo_state () = Some (ServedAction r, st', ())"
    by (simp add: serve_def demo_call_def)
  have "snapshot_logs (admin_new ''pw'') = []" "st_total_requests (stats (admin_new ''pw'')) = 0"
    by (simp_all add: snapshot_logs_def admin_new_def zero_stats_def)
  with every_request_logged_once [OF served] served show ?thesis by (auto simp: demo_state_sel)
qed

text \<open>
  C6: The service keeps its invariant from start to end: after any sequence of requests the admin
  part exists exactly when a password is configured and holds that password and at most a
  hundred entries, the blob runtime is consistent and within its budget, and the
  configuration is the one it was started with.
\<close>

theorem service_invariant:
  assumes "(service_step P decode)\<^sup>*\<^sup>* (build_router H c, w) (st, w')"
  shows "app_inv st \<and> app_config st = c"
  using assms
proof (induction "(st, w')" arbitrary: st w' rule: rtranclp_induct)
  case base
  show ?case by (intro conjI app_inv_build)
next
  case (step y)
  obtain st1 w1 where y: "y = (st1, w1)" by (metis prod.collapse)
  from step(3) [OF y] have "app_inv st1" "app_config st1 = c" by simp_all
  with service_step_inv [OF step(2) [unfolded y]] show ?case by simp
qed

text \<open>A machine whose pipes carry less than \<open>2\<^sup>63\<close> bytes.\<close>

definition bounded_gateway :: "unit gateway" where
  "bounded_gateway = demo_gateway\<lparr>gw_pipe_reads := (\<lambda>b. if length b < 2 ^ 63 then [Inr b] else [Inl ''out of memory''])\<rparr>"

lemma bounded_gateway_benign: "benign bounded_gateway demo_state"
proof -
  have svc: "request_services bounded_gateway demo_state obs = request_services demo_gateway demo_state obs" for obs
    by (simp add: request_services_def bounded_gateway_def)
  have "obtained demo_work (request_services demo_gateway demo_state obs) u = obtained demo_work demo_gateway_services u" for obs u
    by (simp add: obtained_def request_services_def split: option.split)
  note got = this [unfolded demo_gateway_obtained]
  have "images_fit demo_work (request_services bounded_gateway demo_state obs)" for obs
    unfolding svc images_fit_def got by (auto simp: fits_def split: if_splits)
  moreover have "gw_work bounded_gateway = demo_work" "gw_on_abort bounded_gateway = id"
    "gw_pipe_reads bounded_gateway = (\<lambda>b. if length b < 2 ^ 63 then [Inr b] else [Inl ''out of memory''])"
    by (simp_all add: bounded_gateway_def demo_gateway_def)
  ultimately show ?thesis
    by (simp add: benign_def demo_state_sel runtime_new_def fits_def)
qed

theorem service_invariant_witness:
  "\<exists>st. service_step (\<lambda>_. True) Some (demo_state, ()) (st, ()) \<and> app_inv st"
proof -
  let ?call = "demo_call\<lparr>rq_path := ''/v1beta/models/m''\<rparr>"
  have route: "route_request Some ''POST'' ''/v1beta/models/m'' = Handled (Model ''m'')" by code_simp
  have name: "\<not> ends_with ''m'' generate_content" by code_simp
  obtain r st where "finish bounded_gateway (short_error 404 ''Not Found'', early_entry (gw_clock bounded_gateway) ?call 404) demo_state = (r, st)"
    by (metis prod.collapse)
  with route name have "serve bounded_gateway Some [] ?call demo_state () = Some (ServedAction r, st, ())"
    by (simp add: serve_def demo_call_def model_action_def)
  then have step: "service_step (\<lambda>_. True) Some (demo_state, ()) (st, ())"
    using bounded_gateway_benign by (intro service_step.intros [where E = bounded_gateway]) simp_all
  then have "(service_step (\<lambda>_. True) Some)\<^sup>*\<^sup>* (build_router demo_host (test_config\<lparr>admin_password := ''pw''\<rparr>), ()) (st, ())"
    by (simp add: demo_state_def)
  from service_invariant [OF this] step show ?thesis by blast
qed

text \<open>
  C39: An OpenAI request that is refused leaves an entry without its cause.  The handler gives the
  entry a source, a stage and a kind, but the answer has none of them, and the last step,
  which copies these fields from the answer, erases them.
\<close>

theorem refused_image_request_unexplained:
  assumes "image_generations_action E request st w = Some (r, st', w')" "app_admin st = Some a"
    and "to_bytes (gw_limit_error E) MAX_REQUEST_BODY_BYTES (rq_body request) = Ok b" "parse_json (gw_json E) b = Ok parsed"
    and "normalize_request_body (base_ops (gw_urls E)) parsed = Err err"
    and "v = JObject [(''error'', JObject [(''code'', JNumber (PosInt 400)), (''message'', JString (error_text (gw_texts E) err))])]"
    and "print_json (gw_json E) v = Ok t" "t \<noteq> []" "parse_json (gw_json E) t = Ok v"
  shows "\<exists>a' e es. app_admin st' = Some a' \<and> snapshot_logs a' = e # es \<and> entry_status_code e = 400
    \<and> error_source e = [] \<and> error_stage e = [] \<and> error_kind e = [] \<and> error_message e = error_text (gw_texts E) err"
proof -
  let ?m = "error_text (gw_texts E) err"
  let ?snap = "from_request_body (gw_json E) b (app_admin st \<noteq> None)"
  let ?e = "apply_to_entry ?snap (proxy_failure ''normalize_openai_image_request'' ''invalid_request'' ''invalid openai image request'' ?m
      (parsed_entry (gw_clock E) request 400))"
  from assms(1,3-5) have fin: "finalize_admin_response (gw_json E) (short_error 400 ?m) ?e st = (r, st')"
    by (auto simp: image_generations_action_def finish_def Let_def split: prod.splits)
  have bytes: "response_bytes (gw_json E) (short_error 400 ?m) = t" "down_status (into_response (gw_json E) (short_error 400 ?m)) = 400"
    using assms(6,7) by (simp_all add: response_bytes_def into_response_def short_error_def json_response_def)
  have get: "json_get v ''error'' = Some (JObject [(''code'', JNumber (PosInt 400)), (''message'', JString ?m)])"
    using assms(6) by (simp add: json_get_def)
  obtain a' where a': "app_admin st' = Some a'" "snapshot_logs a' =
      take 100 ((((log_response (gw_json E) 400 t ?e)\<lparr>entry_status_code := 400\<rparr>)\<lparr>entry_id := log_next_id (logs a) + 1\<rparr>) # snapshot_logs a)"
    using fin assms(2) by (auto simp: finalize_admin_response_def Let_def bytes admin_record_snapshot)
  have "error_source (log_response (gw_json E) 400 t ?e) = [] \<and> error_stage (log_response (gw_json E) 400 t ?e) = []
    \<and> error_kind (log_response (gw_json E) 400 t ?e) = [] \<and> error_message (log_response (gw_json E) 400 t ?e) = ?m"
    using assms(8,9) by (simp add: log_response_def apply_admin_error_fields_def get str_field_def Let_def)
  with a' show ?thesis
    by (intro exI [where x = a'] exI [where x = "hd (snapshot_logs a')"] exI [where x = "tl (snapshot_logs a')"]) simp
qed

lemma image_generations_action_total: "\<exists>r st' w'. image_generations_action E request st w = Some (r, st', w')"
  by (simp add: image_generations_action_def Let_def split: sum.split prod.split)

definition refusal_json :: json where
  "refusal_json = JObject [(''error'', JObject [(''code'', JNumber (PosInt 400)), (''message'', JString ''request body must be a json object'')])]"

definition refusing_gateway :: "unit gateway" where
  "refusing_gateway = demo_gateway\<lparr>gw_json :=
     \<lparr>parse_json = (\<lambda>b. Ok (if b = ''null'' then JNull else refusal_json)), print_json = (\<lambda>_. Ok ''{..}''), print_pretty = (\<lambda>_. None)\<rparr>\<rparr>"

theorem refused_image_request_unexplained_witness:
  "\<exists>r st' a' e. image_generations_action refusing_gateway (demo_call\<lparr>rq_body := [Inr ''null'']\<rparr>) demo_state () = Some (r, st', ())
     \<and> app_admin st' = Some a' \<and> e \<in> set (snapshot_logs a') \<and> error_source e = [] \<and> error_stage e = []
     \<and> error_message e = ''request body must be a json object''"
proof -
  let ?call = "demo_call\<lparr>rq_body := [Inr ''null'']\<rparr>" and ?E = refusing_gateway
  let ?err = "Message ''request body must be a json object''"
  have bytes: "to_bytes (gw_limit_error ?E) MAX_REQUEST_BODY_BYTES (rq_body ?call) = Ok ''null''"
    by (simp add: MAX_REQUEST_BODY_BYTES_def)
  have parse: "parse_json (gw_json ?E) ''null'' = Ok JNull" by (simp add: refusing_gateway_def)
  have norm: "normalize_request_body (base_ops (gw_urls ?E)) JNull = Err ?err" by (simp add: normalize_request_body_def)
  have v: "refusal_json = JObject [(''error'', JObject [(''code'', JNumber (PosInt 400)), (''message'', JString (error_text (gw_texts ?E) ?err))])]"
    by (simp add: refusal_json_def)
  have printed: "print_json (gw_json ?E) refusal_json = Ok ''{..}''" "''{..}'' \<noteq> []" "parse_json (gw_json ?E) ''{..}'' = Ok refusal_json"
    by (simp_all add: refusing_gateway_def)
  obtain r st' where run: "image_generations_action ?E ?call demo_state () = Some (r, st', ())"
    using image_generations_action_total [of ?E ?call demo_state "()"] by auto
  from refused_image_request_unexplained [OF run demo_state_sel(2) bytes parse norm v printed] run show ?thesis by auto
qed

text \<open>
  C12: A successful upstream document is answered by a document again: the JSON printed for the
  client is well-formed and holds no thought signature at any depth, and status and content
  type are the upstream's.
\<close>

theorem response_document_typed:
  assumes "handle_non_stream_response E sv io c mode reply w = (Ok (response, d), w')"
    and "reply_body reply = Ok b" "is_success (reply_status reply)" "parse_json (gw_json E) b = Ok doc" "json_wf doc"
  shows "\<exists>v t. json_wf v \<and> signature_free v \<and> print_json (gw_json E) v = Ok t
    \<and> response = \<lparr>down_status = reply_status reply,
                 down_content_type = unwrap_or application_json (reply_content_type reply), down_body = RawBytes t\<rparr>"
proof -
  from assms obtain j1 w1 j2 j3 t where steps:
      "normalize_special_markdown_image_response sv c mode doc w = (Ok j1, w1)"
      "optimize_inline_data_images (b64 (gw_encoder E)) (gw_b64_decode E) (gw_codec E) c
         (keep_largest_inline_image (remove_thought_signatures j1)) = Ok j2"
      "(if mode = ModeUrl then finalize_output_urls (gw_upload_env E) io c j2 else lift_io (Ok j2)) w1 = (Ok j3, w')"
      "print_json (gw_json E) j3 = Ok t"
      "response = \<lparr>down_status = reply_status reply,
         down_content_type = unwrap_or application_json (reply_content_type reply), down_body = RawBytes t\<rparr>"
    by (auto simp: handle_non_stream_response_def Let_def io_simps anyhow_of_def split: sum.splits prod.splits)
  let ?kept = "keep_largest_inline_image (remove_thought_signatures j1)"
  have j1: "json_wf j1" using json_wf_normalize_special [OF assms(5) steps(1)] .
  then have "json_wf ?kept" "signature_free ?kept"
    by (simp_all add: json_wf_keep_largest_inline_image json_wf_remove_thought_signatures signature_free_keep_largest signature_free_remove)
  then have j2: "json_wf j2" "signature_free j2" using json_wf_optimize signature_free_optimize steps(2) by blast+
  have "json_wf j3 \<and> signature_free j3"
  proof (cases "mode = ModeUrl")
    case True
    with steps(3) have fin: "finalize_output_urls (gw_upload_env E) io c j2 w1 = (Ok j3, w')" by simp
    show ?thesis using json_wf_finalize [OF j2(1) fin] signature_free_finalize [OF j2(2) fin] ..
  qed (use steps(3) j2 in \<open>simp add: lift_io_def\<close>)
  with steps(4,5) show ?thesis by blast
qed

theorem response_document_typed_witness:
  "\<exists>t d. handle_non_stream_response (demo_gateway\<lparr>gw_json := (gw_json demo_gateway)\<lparr>parse_json := \<lambda>_. Ok signed_document\<rparr>\<rparr>)
       demo_services demo_upload_io demo_legacy ModeBase64
       \<lparr>reply_status = 200, reply_content_type = None, reply_body = Ok ''{}''\<rparr> ()
     = (Ok (\<lparr>down_status = 200, down_content_type = application_json, down_body = RawBytes t\<rparr>, d), ())
   \<and> (\<exists>v. json_wf v \<and> signature_free v \<and> json_text (\<lambda>_. []) v = t)"
proof -
  let ?E = "demo_gateway\<lparr>gw_json := (gw_json demo_gateway)\<lparr>parse_json := \<lambda>_. Ok signed_document\<rparr>\<rparr>"
  let ?reply = "\<lparr>reply_status = 200, reply_content_type = None, reply_body = Ok ''{}''\<rparr> :: http_reply"
  have special: "normalize_special_markdown_image_response demo_services demo_legacy ModeBase64 signed_document () = (Ok signed_document, ())"
  proof -
    have "\<not> contains_inline_data signed_document" "pointer ''/candidates/0/content/parts'' signed_document = None" by code_simp+
    then show ?thesis by (simp add: normalize_special_markdown_image_response_def lift_io_def)
  qed
  have off: "\<not> enable_image_compression demo_legacy" by (simp add: demo_legacy_def demo_upload_config_def read_config_def Let_def parse_bool_def)
  obtain response d where run: "handle_non_stream_response ?E demo_services demo_upload_io demo_legacy ModeBase64 ?reply () = (Ok (response, d), ())"
    using special off
    by (simp add: handle_non_stream_response_def is_success_def io_simps optimize_inline_data_images_def
        optimize_inline_data_images_with_options_def demo_gateway_def anyhow_of_def Let_def)
  have "json_wf signed_document" by (simp add: signed_document_def)
  moreover have "reply_body ?reply = Ok ''{}''" "is_success (reply_status ?reply)" "parse_json (gw_json ?E) ''{}'' = Ok signed_document"
    by (simp_all add: is_success_def)
  ultimately have "\<exists>v t. json_wf v \<and> signature_free v \<and> print_json (gw_json ?E) v = Ok t
      \<and> response = \<lparr>down_status = reply_status ?reply,
                   down_content_type = unwrap_or application_json (reply_content_type ?reply), down_body = RawBytes t\<rparr>"
    using response_document_typed [OF run] by blast
  then obtain v t where v: "json_wf v" "signature_free v" "print_json (gw_json ?E) v = Ok t"
      "response = \<lparr>down_status = 200, down_content_type = application_json, down_body = RawBytes t\<rparr>"
    by auto
  then have "json_text (\<lambda>_. []) v = t" by (simp add: demo_gateway_def)
  with v run show ?thesis by blast
qed

definition failed_document :: json where
  "failed_document = JObject [(''error'', JObject [(''code'', JString ''x'')]), (''id'', JNull)]"



end
