(* ===== verification/Concurrent_Service.thy ===== *)
theory Concurrent_Service
  imports Interleaving Handler_Phases Gateway_Service
begin

text \<open>
  Many requests at once (rust-sync-proxy/src/http/router.rs over the shared \<open>AppState\<close>).  The
  handlers are interleaved at the await points between their phases, in any order and with any
  number of arrivals; they share the blob runtime, the log and its counters, and the world
  outside.  A handler may also be dropped between two phases, when its client goes away.

  Shown here: no phase disturbs a blob it does not own, whatever its outcome; so the discipline
  of \<open>owned_tasks\<close> holds, and with it: what a request is about to send is its own document with
  its own images, and two requests never hold the same blob.  The log counts each answered
  request once under every interleaving.
\<close>

section \<open>The steps\<close>

text \<open>A request on its way: its surroundings, the schedule of its downloads, its phase.\<close>

type_synonym 'w handling = "'w gateway \<times> event list \<times> handler_phase"

text \<open>
  What the surroundings must provide: a serialiser and base64 engine that keep their laws, a
  parser that yields well-formed documents, a pipe that delivers what was written or fails, and
  that the file of an aborted body disturbs no blob.
\<close>

definition trusted :: "'w gateway \<Rightarrow> bool" where
  "trusted E \<longleftrightarrow>
     (\<exists>dec. json_writer (gw_encoder E) dec) \<and> (\<forall>b v. parse_json (gw_json E) b = Ok v \<longrightarrow> json_wf v)
   \<and> (\<forall>b d. stream_bytes (gw_pipe_reads E b) = Some d \<longrightarrow> d = b) \<and> (\<forall>s. keeps_blobs s (gw_on_abort E s))"

inductive handling_step :: "'w handling \<Rightarrow> 'c app_state \<times> 'w \<Rightarrow> 'w handling \<Rightarrow> 'c app_state \<times> 'w \<Rightarrow> bool" where
  "trusted E \<Longrightarrow> benign E st \<Longrightarrow> phase_step E schedule ph st w = Some (ph', st', w')
     \<Longrightarrow> handling_step (E, schedule, ph) (st, w) (E, schedule, ph') (st', w')"

inductive_cases handling_stepE: "handling_step t c t' c'"

fun arriving :: "'w handling \<Rightarrow> bool" where
  "arriving (E, schedule, Received r request) \<longleftrightarrow> True"
| "arriving (E, schedule, _) \<longleftrightarrow> False"

fun owned_blob :: "'w handling \<Rightarrow> blob_handle option" where
  "owned_blob (E, schedule, Prepared request call encoded e t) = Some (body_blob encoded)"
| "owned_blob (E, schedule, _) = None"

fun call_ok :: "'w handling \<Rightarrow> bool" where
  "call_ok (E, schedule, Called request call) \<longleftrightarrow> json_wf (call_document call) \<and> unanswered [] (call_entry call)"
| "call_ok (E, schedule, Prepared request call encoded e t) \<longleftrightarrow> unanswered [] e"
| "call_ok (E, schedule, _) \<longleftrightarrow> True"

fun over :: "'w handling \<Rightarrow> bool" where
  "over (E, schedule, Ended r) \<longleftrightarrow> True"
| "over (E, schedule, _) \<longleftrightarrow> False"

text \<open>The body a prepared request has to send, given the services of the process.\<close>

abbreviation services_at :: "'c app_state \<Rightarrow> 'w gateway \<Rightarrow> request_materialize_services" where
  "services_at st E \<equiv> request_services E st (app_admin st \<noteq> None)"

fun due_body :: "'c app_state \<Rightarrow> 'w handling \<Rightarrow> bytes \<Rightarrow> bool" where
  "due_body st0 (E, schedule, Prepared request call encoded e t) body \<longleftrightarrow>
     content_length encoded = of_nat (length body)
   \<and> (\<exists>refs. scan_request_image_urls (call_document call) = Ok refs \<and> all_obtained E (services_at st0 E) refs
        \<and> body = ser (gw_encoder E) (inlined_document (b64 (gw_encoder E)) (gw_work E) (services_at st0 E) refs (call_document call)))"
| "due_body st0 (E, schedule, _) body \<longleftrightarrow> True"

text \<open>What the steps leave alone of a process started as \<open>st0\<close>, and its invariant on a working disk.\<close>

definition same_service :: "'c app_state \<Rightarrow> 'c app_state \<Rightarrow> bool" where
  "same_service st0 st \<longleftrightarrow>
     app_config st = app_config st0 \<and> upstream_client st = upstream_client st0 \<and> image_http_client st = image_http_client st0
   \<and> upload_client st = upload_client st0 \<and> request_fetcher st = request_fetcher st0 \<and> response_fetcher st = response_fetcher st0
   \<and> (app_admin st = None \<longleftrightarrow> app_admin st0 = None)"

definition running_well :: "'c app_state \<Rightarrow> 'c app_state \<times> 'w \<Rightarrow> bool" where
  "running_well st0 c \<longleftrightarrow> same_service st0 (fst c) \<and> app_inv (fst c) \<and> io_error (app_blobs (fst c)) = Map.empty"

section \<open>What the phases do to the blobs\<close>

lemma store_stream_keeps:
  assumes "blob_inv s" "next_id_ctr s \<noteq> - 1" "\<And>d. stream_bytes rd = Some d \<Longrightarrow> fits d"
    and res: "store_stream rd m s = (r, s')"
  shows "keeps_blobs s s'"
proof (cases r)
  case (Inr h)
  with store_stream_Ok [OF assms(1,2) res [unfolded Inr]] assms(3) obtain d where
    "blob_contents s' = (blob_contents s)(h \<mapsto> d)" "same_env s s'" "h = length (heap s)" by blast
  then show ?thesis using blob_contents_fresh [of s] by (auto simp: keeps_blobs_def map_le_def)
next
  case (Inl e)
  obtain i s1 where n: "next_id s = (i, s1)" by (metis prod.collapse)
  note s1 = blob_inv_next_id [OF assms(1) n assms(2)]
  let ?lim = "unat (min (inline_max_bytes (cfg s)) (request_hot_budget_bytes (cfg s)))"
  obtain q s2 where l: "stream_loop ?lim (spill_path s1 i) rd [] False s1 = (q, s2)" by (metis prod.collapse)
  have "blob_contents s2 = blob_contents s1" "same_env s1 s2"
    using blob_inv_files(2,3) [OF s1(1) _ stream_loop_touches [OF l]] s1(2) by (simp_all add: fresh_id_def)
  moreover have "s' = s2"
    using res Inl n l by (auto simp: store_stream_def Let_def dest: store_reserved_Err
      split: sum.splits prod.splits bool.splits option.splits)
  ultimately show ?thesis using s1(3,5) by (simp add: keeps_blobs_def same_env_def)
qed

lemma encode_keeps:
  assumes enc: "encode_request_body (gw_encoder E) (gw_pipe_reads E) (gw_on_abort E) doc rs s = (r, s')"
    and "trusted E" "benign E st" "blob_inv s" "next_id_ctr s \<noteq> - 1"
  shows "keeps_blobs s s'"
proof (cases "write_json_value ((gw_encoder E)\<lparr>replacement := replacement_map rs, store := s\<rparr>) [] (strip_output_from_value doc)
    \<lparr>out = [], counted = 0\<rparr>")
  case (Inl e)
  with assms(1,2) show ?thesis by (auto simp: encode_request_body_def trusted_def)
next
  case (Inr k)
  obtain q s1 where q: "store_stream (gw_pipe_reads E (out k)) ''application/json'' s = (q, s1)" by (metis prod.collapse)
  have "\<And>d. stream_bytes (gw_pipe_reads E (out k)) = Some d \<Longrightarrow> fits d" using assms(3) by (simp add: benign_def)
  from store_stream_keeps [OF assms(4,5) this q] have "keeps_blobs s s1" .
  moreover have "s' = s1" using enc Inr q by (auto simp: encode_request_body_def split: sum.splits)
  ultimately show ?thesis by simp
qed

text \<open>A body that was encoded is the document with the replacements in place.\<close>

lemma encode_makes:
  assumes enc: "encode_request_body (gw_encoder E) (gw_pipe_reads E) (gw_on_abort E) doc rs s = (Ok x, s')"
    and "trusted E" "benign E st" "blob_inv s" "next_id_ctr s \<noteq> - 1" "io_error s = Map.empty"
    and live: "\<forall>r \<in> set rs. blob_contents s (repl_blob r) \<noteq> None"
  shows "blob_contents s' = (blob_contents s)(body_blob x \<mapsto> ser (gw_encoder E) (sent_document (b64 (gw_encoder E)) rs s doc))
    \<and> body_blob x = length (heap s)
    \<and> content_length x = of_nat (length (ser (gw_encoder E) (sent_document (b64 (gw_encoder E)) rs s doc)))"
proof -
  let ?body = "ser (gw_encoder E) (sent_document (b64 (gw_encoder E)) rs s doc)"
  obtain dec where w: "json_writer (gw_encoder E) dec" using assms(2) unfolding trusted_def by blast
  have io: "\<forall>p. io_error s p = None" using assms(6) by simp
  obtain q where q: "store_stream (gw_pipe_reads E ?body) ''application/json'' s = (Ok q, s')"
      "x = \<lparr>body_blob = q, content_length = of_nat (length ?body)\<rparr>"
    using enc encode_write [OF w io live, of doc]
    by (auto simp: encode_request_body_def Let_def split: sum.splits prod.splits)
  have fit: "\<And>d. stream_bytes (gw_pipe_reads E ?body) = Some d \<Longrightarrow> fits d" using assms(3) by (simp add: benign_def)
  from store_stream_Ok [OF assms(4,5) q(1) fit] obtain d where
    d: "stream_bytes (gw_pipe_reads E ?body) = Some d" "q = length (heap s)" "blob_contents s' = (blob_contents s)(q \<mapsto> d)" by blast
  moreover have "d = ?body" using assms(2) d(1) unfolding trusted_def by blast
  ultimately show ?thesis using q(2) by simp
qed

lemma benign_room:
  assumes "benign E st"
  shows "unat (next_id_ctr (app_blobs st)) + 7 < 2 ^ 64" "images_fit (gw_work E) (request_services E st obs)"
    "unat (next_id_ctr s) \<le> unat (next_id_ctr (app_blobs st)) + 7 \<Longrightarrow> next_id_ctr s \<noteq> - 1"
proof -
  show "unat (next_id_ctr (app_blobs st)) + 7 < 2 ^ 64" "images_fit (gw_work E) (request_services E st obs)"
    using assms by (simp_all add: benign_def)
  assume "unat (next_id_ctr s) \<le> unat (next_id_ctr (app_blobs st)) + 7"
  with assms have "unat (next_id_ctr s) < 2 ^ 64 - 1" by (auto simp: benign_def)
  then show "next_id_ctr s \<noteq> - 1" by (auto simp: unsigned_minus_1_eq_mask mask_eq_exp_minus_1)
qed

text \<open>Preparing a request creates blobs and removes its own; the others stay, also on every error.\<close>

lemma encode_and_drop_keeps:
  assumes run: "encode_and_drop E m e t st = (p, st')"
    and "trusted E" "benign E st0" "blob_inv (app_blobs st)" "next_id_ctr (app_blobs st) \<noteq> - 1"
    and live: "\<forall>r \<in> set (mat_replacements m). blob_contents (app_blobs st) (repl_blob r) \<noteq> None"
  shows "same_env (app_blobs st) (app_blobs st')
    \<and> (\<forall>h b. blob_contents (app_blobs st) h = Some b \<and> h \<notin> repl_blob ` set (mat_replacements m) \<longrightarrow>
          blob_contents (app_blobs st') h = Some b)"
proof -
  obtain q s2 where enc: "encode_request_body (gw_encoder E) (gw_pipe_reads E) (gw_on_abort E) (mat_request m) (mat_replacements m)
      (app_blobs st) = (q, s2)" by (metis prod.collapse)
  note keeps = encode_keeps [OF enc assms(2-5)]
  then have kept: "same_env (app_blobs st) s2" "blob_contents (app_blobs st) h = Some b \<Longrightarrow> blob_contents s2 h = Some b" for h b
    unfolding keeps_blobs_def map_le_def by (blast, metis domI)
  show ?thesis
  proof (cases q)
    case (Inl err)
    with run enc kept show ?thesis by (auto simp: encode_and_drop_def Let_def)
  next
    case (Inr x)
    obtain d s3 where rem: "remove_all (map repl_blob (mat_replacements m)) s2 = (d, s3)" by (metis prod.collapse)
    have inv: "blob_inv s2" using encode_keeps_inv [OF enc assms(3-5)] by blast
    have "\<forall>h \<in> set (map repl_blob (mat_replacements m)). h < length (heap s2)"
      using live kept(2) blob_contents_live by fastforce
    from remove_all_keeps_inv [OF inv this rem] have
      "same_env s2 s3" "\<forall>h. h \<notin> repl_blob ` set (mat_replacements m) \<longrightarrow> blob_contents s3 h = blob_contents s2 h" by simp_all
    moreover have "app_blobs st' = s3" using run enc rem Inr by (auto simp: encode_and_drop_def Let_def split: sum.splits)
    ultimately show ?thesis using kept by (simp add: same_env_def)
  qed
qed

lemma prepare_request_keeps:
  assumes "prepare_request E schedule doc e t st = Some (p, t', st')" "trusted E" "benign E st" "blob_inv (app_blobs st)"
  shows "keeps_blobs (app_blobs st) (app_blobs st')"
  using assms(1)
proof (cases rule: prepare_request_cases)
  case (failed told s1 err)
  with materialize_keeps_inv [OF failed(1) assms(4) benign_room(2,1) [OF assms(3)]] observe_all_effect(1) [OF failed(2)]
  show ?thesis by simp
next
  case (materialized told s1 m st1)
  have s1: "app_blobs st1 = s1" using observe_all_effect(1) [OF materialized(2)] by simp
  note inv = materialize_keeps_inv [OF materialized(1) assms(4) benign_room(2,1) [OF assms(3)]]
  note mat = materialize_Ok [OF materialized(1) assms(4) benign_room(2,1) [OF assms(3)]]
  have live: "\<forall>r \<in> set (mat_replacements m). blob_contents s1 (repl_blob r) \<noteq> None" using mat replaces_live by blast
  have old: "blob_contents (app_blobs st) h = Some b \<Longrightarrow> h \<notin> repl_blob ` set (mat_replacements m) \<and> blob_contents s1 h = Some b" for h b
    using mat by (auto simp: restrict_map_def split: if_splits)
  have "next_id_ctr s1 \<noteq> - 1" using benign_room(3) [OF assms(3)] inv by blast
  from encode_and_drop_keeps [OF materialized(3) assms(2,3)] inv live this
  have "same_env s1 (app_blobs st')" "\<forall>h b. blob_contents s1 h = Some b \<and> h \<notin> repl_blob ` set (mat_replacements m) \<longrightarrow>
      blob_contents (app_blobs st') h = Some b" by (simp_all add: s1)
  then have kept: "blob_contents (app_blobs st) h = Some b \<Longrightarrow> blob_contents (app_blobs st') h = Some b" for h b
    using old by blast
  then have "blob_contents (app_blobs st) \<subseteq>\<^sub>m blob_contents (app_blobs st')" unfolding map_le_def by (metis domD)
  moreover have "same_env (app_blobs st) (app_blobs st')"
    using inv \<open>same_env s1 (app_blobs st')\<close> by (simp add: keeps_blobs_def same_env_def)
  ultimately show ?thesis by (simp add: keeps_blobs_def)
qed

text \<open>A request that was prepared holds a new blob with exactly its document.\<close>

lemma prepare_request_makes:
  assumes "prepare_request E schedule doc e t st = Some (Ok (x, e1), t', st')" "trusted E" "benign E st" "blob_inv (app_blobs st)"
    and "io_error (app_blobs st) = Map.empty" "json_wf doc"
  shows "\<exists>refs body. scan_request_image_urls doc = Ok refs \<and> all_obtained E (request_services E st (observing t)) refs
    \<and> body = ser (gw_encoder E) (inlined_document (b64 (gw_encoder E)) (gw_work E) (request_services E st (observing t)) refs doc)
    \<and> content_length x = of_nat (length body) \<and> blob_contents (app_blobs st) (body_blob x) = None
    \<and> blob_contents (app_blobs st') (body_blob x) = Some body"
  using assms(1)
proof (cases rule: prepare_request_cases)
  case (materialized told s1 m st1)
  let ?svc = "request_services E st (observing t)" and ?rs = "mat_replacements m"
  have s1: "app_blobs st1 = s1" using observe_all_effect(1) [OF materialized(2)] by simp
  from materialize_Ok [OF materialized(1) assms(4) benign_room(2,1) [OF assms(3)]] obtain refs where
    m: "mat_request m = doc" "scan_request_image_urls doc = Ok refs" "list_all2 (replaces (gw_work E) ?svc s1) refs ?rs"
      "keeps_blobs (app_blobs st) s1" "blob_inv s1" "unat (next_id_ctr s1) \<le> unat (next_id_ctr (app_blobs st)) + 7"
      "\<forall>r \<in> set ?rs. repl_blob r < length (heap s1)" by blast
  have live: "\<forall>r \<in> set ?rs. blob_contents s1 (repl_blob r) \<noteq> None" using replaces_live [OF m(3)] by blast
  have io: "io_error s1 = Map.empty" using m(4) assms(5) by (simp add: keeps_blobs_def same_env_def)
  obtain s2 s3 where enc: "encode_request_body (gw_encoder E) (gw_pipe_reads E) (gw_on_abort E) doc ?rs s1 = (Ok x, s2)"
    and rem: "remove_all (map repl_blob ?rs) s2 = (Ok (), s3)" and st': "app_blobs st' = s3"
    using materialized(3) by (auto simp: encode_and_drop_def Let_def m(1) s1 split: sum.splits prod.splits)
  note ctr = benign_room(3) [OF assms(3) m(6)]
  note made = encode_makes [OF enc assms(2,3) m(5) ctr io live]
  let ?body = "ser (gw_encoder E) (sent_document (b64 (gw_encoder E)) ?rs s1 doc)"
  have "?body = ser (gw_encoder E) (inlined_document (b64 (gw_encoder E)) (gw_work E) ?svc refs doc)"
    by (simp add: inlined_document_def sent_document_def image_at_inlined [OF m(3) scan_Ok_distinct [OF assms(6) m(2)]])
  moreover have "all_obtained E ?svc refs"
  proof
    fix r assume "r \<in> set refs"
    with m(3) obtain q where "replaces (gw_work E) ?svc s1 r q" by (auto simp: list_all2_conv_all_nth in_set_conv_nth)
    then show "\<exists>d. obtained (gw_work E) ?svc (ref_url r) = Ok d" unfolding replaces_def by blast
  qed
  moreover have "blob_contents (app_blobs st) (body_blob x) = None"
  proof (rule ccontr)
    assume "blob_contents (app_blobs st) (body_blob x) \<noteq> None"
    then have "blob_contents s1 (body_blob x) \<noteq> None" using m(4) unfolding keeps_blobs_def map_le_def by (metis domIff)
    with made blob_contents_fresh show False by metis
  qed
  moreover have "blob_contents s3 (body_blob x) = Some ?body"
  proof -
    have fresh: "body_blob x \<notin> set (map repl_blob ?rs)" using made m(7) by auto
    have "\<forall>h \<in> set (map repl_blob ?rs). h < length (heap s2)"
    proof
      fix h assume "h \<in> set (map repl_blob ?rs)"
      with live fresh made have "blob_contents s2 h \<noteq> None" by auto
      then show "h < length (heap s2)" using blob_contents_live by blast
    qed
    with remove_all_keeps_inv [OF _ this rem] encode_keeps_inv [OF enc assms(3) m(5) ctr] made fresh show ?thesis by simp
  qed
  ultimately show ?thesis using m(2) made st' by auto
qed simp

lemma send_prepared_blobs:
  assumes "send_prepared E resolved p query ct accept encoded e t st w = (q, st', w')"
    and "blob_inv (app_blobs st)" "body_blob encoded < length (heap (app_blobs st))"
  shows "same_env (app_blobs st) (app_blobs st')
    \<and> (\<forall>h. h \<noteq> body_blob encoded \<longrightarrow> blob_contents (app_blobs st') h = blob_contents (app_blobs st) h)"
proof -
  obtain d s1 where rem: "remove (body_blob encoded) (app_blobs st) = (d, s1)" by (metis prod.collapse)
  note gone = remove_keeps_inv [OF assms(2,3) rem]
  have "app_blobs st' = app_blobs st \<or> app_blobs st' = s1"
    using assms(1) rem by (auto simp: send_prepared_def Let_def split: sum.splits prod.splits)
  with gone show ?thesis by auto
qed

text \<open>What a live inline blob holds is part of the counter of hot bytes.\<close>

lemma live_inline_charged:
  "blob_inv s \<Longrightarrow> h < length (heap s) \<Longrightarrow> live_inline (heap s ! h) \<le> unat (global_hot_bytes s)"
  using member_le_sum_list [of "live_inline (heap s ! h)" "map live_inline (heap s)"]
  by (auto simp: blob_inv_def hot_sum_def)

section \<open>The discipline holds\<close>

lemma counts_same: "counts st n st' \<Longrightarrow> same_service st st'"
  by (simp add: counts_def same_service_def)

lemma finish_same: "finish E answer st = (r, st') \<Longrightarrow> same_service st st'"
  by (auto simp: finish_def finalize_admin_response_def log_slow_request_def same_service_def Let_def split: option.splits if_splits)

lemma same_service_trans: "same_service st0 st \<Longrightarrow> same_service st st' \<Longrightarrow> same_service st0 st'"
  by (simp add: same_service_def)

lemma running_well_counts:
  assumes "running_well st0 (st, w)" "counts st n st'" "blob_inv (app_blobs st')" "same_env (app_blobs st) (app_blobs st')"
  shows "running_well st0 (st', w')"
  using assms same_service_trans [OF _ counts_same [OF assms(2)]] app_inv_counts [OF assms(2)]
  by (simp add: running_well_def same_env_def)

lemma running_well_world: "running_well st0 (st, w) \<Longrightarrow> running_well st0 (st, w')"
  by (simp add: running_well_def)

lemma read_model_request_ok:
  assumes "read_model_request E rest request st = Ok call" "trusted E"
  shows "json_wf (call_document call) \<and> unanswered [] (call_entry call)"
proof -
  have "json_wf v" if "parse_json (gw_json E) b = Ok v" for b v using that assms(2) unfolding trusted_def by blast
  with assms(1) show ?thesis
    by (auto simp: read_model_request_def open_call_def Let_def unanswered_base split: sum.splits if_splits)
qed

text \<open>Every kind of step, with what it does.\<close>

lemma handling_step_cases:
  assumes "handling_step (E, schedule, ph) (st, w) t' (st', w')" "call_ok (E, schedule, ph)"
  obtains (still) "st' = st" "owned_blob t' = None" "call_ok t'" "\<not> over t'"
  | (prepared) request call p t where "ph = Called request call"
      "prepare_request E schedule (call_document call) (call_entry call)
         (build_request_cache_tracking (map_option stats (app_admin st))) st = Some (p, t, st')"
      "trusted E" "benign E st" "\<And>x e. p = Ok (x, e) \<Longrightarrow> t' = (E, schedule, Prepared request call x e t)" "call_ok t'"
      "\<And>ff. p = Err ff \<Longrightarrow> owned_blob t' = None" "\<not> over t'"
  | (sent) request call x e t q where "ph = Prepared request call x e t"
      "send_prepared E (call_resolved call) (call_target call) (rq_query request)
         (map_of (rq_headers request) ''content-type'') (map_of (rq_headers request) ''accept'') x e t st w = (q, st', w')"
      "owned_blob t' = None" "call_ok t'" "\<not> over t'"
  | (ended) answer r where "ph = Answered answer" "finish E answer st = (r, st')" "t' = (E, schedule, Ended r)"
proof -
  from assms(1) obtain ph' where t': "t' = (E, schedule, ph')" and ts: "trusted E" "benign E st"
    and step: "phase_step E schedule ph st w = Some (ph', st', w')" by (cases rule: handling_stepE) auto
  show thesis
  proof (cases ph)
    case (Received rt request)
    show thesis
    proof (cases rt)
      case (Model rest)
      with Received step have st': "st' = st" by simp
      show thesis
      proof (cases "read_model_request E rest request st")
        case (Inl a)
        with Received Model step t' st' show thesis by (intro still) auto
      next
        case (Inr call)
        with Received Model step have "ph' = Called request call" by simp
        with t' st' read_model_request_ok [OF Inr ts(1)] show thesis by (intro still) simp_all
      qed
    qed (use Received step t' in \<open>auto intro!: still split: prod.splits\<close>)
  next
    case (Called request call)
    show thesis
    proof (cases "call_aiapidev E call")
      case True
      with Called step t' show thesis by (intro still) (auto simp: translate_phase_def split: prod.splits)
    next
      case False
      let ?t0 = "build_request_cache_tracking (map_option stats (app_admin st))"
      from False Called step obtain p t where prep: "prepare_request E schedule (call_document call) (call_entry call) ?t0 st = Some (p, t, st')"
        and ph': "ph' = (case p of Inl ff \<Rightarrow> Answered (answer_forwarded E request True (Err ff)) | Inr (x, e) \<Rightarrow> Prepared request call x e t)"
        by (auto simp: prepare_phase_def split: option.splits sum.splits prod.splits)
      have "unanswered [] (call_entry call)" using assms(2) Called by simp
      from prepare_request_effect [OF prep _ this] have "p = Ok (x, e) \<Longrightarrow> unanswered [] e" for x e
        by (simp add: build_request_cache_tracking_def)
      with t' ph' prep Called ts show thesis
        by (intro prepared [of request call p t]) (auto split: sum.splits prod.splits)
    qed
  next
    case (Prepared request call x e t)
    with step t' show thesis
      by (cases "send_prepared E (call_resolved call) (call_target call) (rq_query request)
          (map_of (rq_headers request) ''content-type'') (map_of (rq_headers request) ''accept'') x e t st w")
        (intro sent; auto simp: send_phase_def split: sum.splits)
  next
    case (Replied request call reply e)
    with step t' show thesis by (intro still) (auto simp: respond_phase_def split: sum.splits prod.splits)
  next
    case (Answered a)
    with step t' show thesis by (auto intro: ended split: prod.splits)
  next
    case (Ended r)
    with step show thesis by simp
  qed
qed

lemma services_same: "same_service st0 st \<Longrightarrow> services_at st E = services_at st0 E"
  by (simp add: request_services_def same_service_def)

lemma handling_keeps_good:
  assumes "handling_step (E, schedule, ph) (st, w) t' (st', w')" "running_well st0 (st, w)" "call_ok (E, schedule, ph)"
    and "\<forall>h. owned_blob (E, schedule, ph) = Some h \<longrightarrow> blob_contents (app_blobs st) h \<noteq> None"
  shows "running_well st0 (st', w') \<and> call_ok t'"
  using assms(1,3)
proof (cases rule: handling_step_cases)
  case still
  with assms(2) show ?thesis by (simp add: running_well_def)
next
  case (prepared request call p t)
  have inv: "blob_inv (app_blobs st)" using assms(2) by (simp add: running_well_def app_inv_def)
  have "unanswered [] (call_entry call)" using assms(3) prepared(1) by simp
  with prepare_request_effect [OF prepared(2)] have "counts st (length (hit_urls t)) st'"
    by (simp add: build_request_cache_tracking_def)
  moreover have "blob_inv (app_blobs st')" using prepare_request_keeps_inv [OF prepared(2,4) inv] by blast
  moreover have "same_env (app_blobs st) (app_blobs st')"
    using prepare_request_keeps [OF prepared(2,3,4) inv] by (simp add: keeps_blobs_def)
  ultimately show ?thesis using running_well_counts [OF assms(2)] prepared(6) by simp
next
  case (sent request call x e t q)
  have inv: "blob_inv (app_blobs st)" using assms(2) by (simp add: running_well_def app_inv_def)
  have h: "body_blob x < length (heap (app_blobs st))" using assms(4) sent(1) blob_contents_live by fastforce
  have "unanswered [] e" using assms(3) sent(1) by simp
  with send_prepared_effect [OF sent(2)] have "counts st 0 st'" by blast
  with send_prepared_keeps_inv [OF sent(2) inv h] send_prepared_blobs [OF sent(2) inv h] running_well_counts [OF assms(2)] sent(4)
  show ?thesis by auto
next
  case (ended answer r)
  with assms(2) same_service_trans [OF _ finish_same [OF ended(2)]] app_inv_finish [OF ended(2)] finish_blobs [OF ended(2)]
  show ?thesis by (simp add: running_well_def)
qed

lemma handling_frame:
  assumes "handling_step (E, schedule, ph) (st, w) t' (st', w')" "running_well st0 (st, w)" "call_ok (E, schedule, ph)"
    and live: "\<forall>h. owned_blob (E, schedule, ph) = Some h \<longrightarrow> blob_contents (app_blobs st) h \<noteq> None"
    and "blob_contents (app_blobs st) h = Some b" "owned_blob (E, schedule, ph) \<noteq> Some h"
  shows "blob_contents (app_blobs st') h = Some b"
proof -
  have inv: "blob_inv (app_blobs st)" using assms(2) by (simp add: running_well_def app_inv_def)
  from assms(1,3) show ?thesis
  proof (cases rule: handling_step_cases)
    case (prepared request call p t)
    from prepare_request_keeps [OF prepared(2,3,4) inv] assms(5) show ?thesis
      unfolding keeps_blobs_def map_le_def by (metis domI)
  next
    case (sent request call x e t q)
    have "body_blob x < length (heap (app_blobs st))" using live sent(1) blob_contents_live by fastforce
    from send_prepared_blobs [OF sent(2) inv this] assms(5,6) sent(1) show ?thesis by auto
  next
    case (ended answer r)
    with finish_blobs [OF ended(2)] assms(5) show ?thesis by simp
  qed (use assms(5) in simp)
qed

lemma handling_makes:
  assumes "handling_step (E, schedule, ph) (st, w) t' (st', w')" "running_well st0 (st, w)" "call_ok (E, schedule, ph)"
    and "owned_blob t' = Some h"
  shows "blob_contents (app_blobs st) h = None \<and> (\<exists>b. blob_contents (app_blobs st') h = Some b \<and> due_body st0 t' b)"
  using assms(1,3)
proof (cases rule: handling_step_cases)
  case (prepared request call p t)
  then obtain x e where p: "p = Ok (x, e)" using assms(4) by (cases p) auto
  note t' = prepared(5) [OF p]
  let ?t0 = "build_request_cache_tracking (map_option stats (app_admin st))"
  have good: "blob_inv (app_blobs st)" "io_error (app_blobs st) = Map.empty" "same_service st0 st" "json_wf (call_document call)"
    using assms(2,3) prepared(1) by (simp_all add: running_well_def app_inv_def)
  have svc: "request_services E st (observing ?t0) = services_at st0 E"
    using services_same [OF good(3)] by (simp add: build_request_cache_tracking_def)
  from prepare_request_makes [OF prepared(2) [unfolded p] prepared(3,4) good(1,2,4)] show ?thesis
    using assms(4) by (auto simp: t' svc)
qed (use assms(4) in simp_all)

interpretation live: owned_tasks handling_step arriving call_ok "running_well st0"
    "\<lambda>c. blob_contents (app_blobs (fst c))" owned_blob "due_body st0"
  for st0 :: "'c app_state"
proof
  fix t :: "'w handling"
  assume "arriving t"
  then show "call_ok t \<and> owned_blob t = None" by (cases t rule: arriving.cases) simp_all
next
  fix t t' :: "'w handling" and s s' :: "'c app_state \<times> 'w"
  assume step: "handling_step t s t' s'" and good: "running_well st0 s" "call_ok t"
  obtain E schedule ph st w st' w' where eq: "t = (E, schedule, ph)" "s = (st, w)" "s' = (st', w')" by (metis prod_cases3 prod.collapse)
  note args = step [unfolded eq] good [unfolded eq]
  show "running_well st0 s' \<and> call_ok t'"
    if "\<forall>h. owned_blob t = Some h \<longrightarrow> (\<exists>b. blob_contents (app_blobs (fst s)) h = Some b \<and> due_body st0 t b)"
    using handling_keeps_good [OF args] that by (auto simp: eq)
  show "blob_contents (app_blobs (fst s')) h = Some b"
    if "\<forall>h. owned_blob t = Some h \<longrightarrow> (\<exists>b. blob_contents (app_blobs (fst s)) h = Some b \<and> due_body st0 t b)"
      "blob_contents (app_blobs (fst s)) h = Some b" "owned_blob t \<noteq> Some h" for h b
  proof -
    have "\<forall>h. owned_blob (E, schedule, ph) = Some h \<longrightarrow> blob_contents (app_blobs st) h \<noteq> None" using that(1) unfolding eq by fastforce
    from handling_frame [OF args this] that(2,3) show ?thesis unfolding eq fst_conv by blast
  qed
  show "blob_contents (app_blobs (fst s)) h = None \<and> (\<exists>b. blob_contents (app_blobs (fst s')) h = Some b \<and> due_body st0 t' b)"
    if "owned_blob t' = Some h" for h
    using handling_makes [OF args that] by (simp add: eq)
qed

section \<open>Properties\<close>

text \<open>A client that goes away takes its handler with it, at whatever await point that is.\<close>

abbreviation service_move :: "(nat \<Rightarrow> 'w handling option) \<times> ('c app_state \<times> 'w) \<Rightarrow> (nat \<Rightarrow> 'w handling option) \<times> ('c app_state \<times> 'w)
    \<Rightarrow> bool" where
  "service_move \<equiv> pool_step handling_step arriving (\<lambda>t. \<not> over t)"

abbreviation service_run :: "'c app_state \<times> 'w \<Rightarrow> (nat \<Rightarrow> 'w handling option) \<times> ('c app_state \<times> 'w) \<Rightarrow> bool" where
  "service_run c0 c \<equiv> service_move\<^sup>*\<^sup>* (Map.empty, c0) c"

lemma build_router_runs_well:
  "host_io_error H = Map.empty \<Longrightarrow> running_well (build_router H c) (build_router H c, w)"
  using app_inv_build [of H c] by (simp add: running_well_def same_service_def) (simp add: build_router_def runtime_new_def Let_def)

text \<open>
  C2: Concurrent requests do not mix.  On a working disk, after any interleaving of any number of
  requests, the blob that a prepared request is about to send reads as exactly the compact text
  of its own document with its own images in place, with the announced length; no two requests
  hold the same blob, and the invariant of the service holds all the time.
\<close>

theorem concurrent_requests_isolated:
  assumes "service_run (build_router H c, w) (pool, (st, w'))" "host_io_error H = Map.empty"
  shows "app_inv st \<and> app_config st = c
    \<and> (\<forall>i E schedule request call x e t. pool i = Some (E, schedule, Prepared request call x e t) \<longrightarrow>
         (\<exists>refs body. scan_request_image_urls (call_document call) = Ok refs
            \<and> body = ser (gw_encoder E) (inlined_document (b64 (gw_encoder E)) (gw_work E) (services_at (build_router H c) E) refs
                                            (call_document call))
            \<and> content_length x = of_nat (length body) \<and> read_bytes (body_blob x) (app_blobs st) = Ok body))
    \<and> (\<forall>i j t u h. pool i = Some t \<and> pool j = Some u \<and> owned_blob t = Some h \<and> owned_blob u = Some h \<longrightarrow> i = j)"
proof (intro conjI allI impI)
  have sep: "live.separate (build_router H c) (pool, (st, w'))"
    using live.separate_reachable [OF assms(1) build_router_runs_well [OF assms(2)]] .
  note D = live.separateD [OF sep]
  show "app_inv st" "app_config st = c"
    using D(1) app_inv_build [of H c] by (simp_all add: running_well_def same_service_def)
  show "i = j" if "pool i = Some t \<and> pool j = Some u \<and> owned_blob t = Some h \<and> owned_blob u = Some h" for i j t u h
    using D(3) that by blast
  fix i E schedule request call x e t
  assume "pool i = Some (E, schedule, Prepared request call x e t)"
  from D(2) [OF this] obtain b where b: "blob_contents (app_blobs st) (body_blob x) = Some b"
      "due_body (build_router H c) (E, schedule, Prepared request call x e t) b"
    unfolding live.held_def by auto
  have "read_bytes (body_blob x) (app_blobs st) = Ok b"
    using b(1) D(1) by (intro read_bytes_no_io) (simp_all add: running_well_def)
  with b(2) show "\<exists>refs body. scan_request_image_urls (call_document call) = Ok refs
      \<and> body = ser (gw_encoder E) (inlined_document (b64 (gw_encoder E)) (gw_work E) (services_at (build_router H c) E) refs
                                      (call_document call))
      \<and> content_length x = of_nat (length body) \<and> read_bytes (body_blob x) (app_blobs st) = Ok body"
    by auto
qed

text \<open>The requests that have their answer, and those answered with an error.\<close>

definition answered :: "(nat \<Rightarrow> 'w handling option) \<Rightarrow> nat set" where
  "answered pool = {i. \<exists>E schedule r. pool i = Some (E, schedule, Ended r)}"

definition answered_badly :: "(nat \<Rightarrow> 'w handling option) \<Rightarrow> nat set" where
  "answered_badly pool = {i. \<exists>E schedule r. pool i = Some (E, schedule, Ended r) \<and> (of_nat (down_status r) :: u16) \<ge> 400}"

definition log_counts :: "(nat \<Rightarrow> 'w handling option) \<times> ('c app_state \<times> 'w) \<Rightarrow> bool" where
  "log_counts c \<longleftrightarrow>
     finite (dom (fst c))
   \<and> (\<forall>a. app_admin (fst (snd c)) = Some a \<longrightarrow>
        st_total_requests (stats a) = of_nat (card (answered (fst c)))
      \<and> st_error_requests (stats a) = of_nat (card (answered_badly (fst c)))
      \<and> length (snapshot_logs a) = min 100 (card (answered (fst c))))"

lemma answered_finite: "finite (dom pool) \<Longrightarrow> finite (answered pool) \<and> finite (answered_badly pool)"
  by (auto intro!: finite_subset [of _ "dom pool"] simp: answered_def answered_badly_def)

lemma over_iff: "over t \<longleftrightarrow> (\<exists>E schedule r. t = (E, schedule, Ended r))"
  by (cases t rule: over.cases) auto

lemma answered_open:
  assumes "\<forall>t. pool i = Some t \<longrightarrow> \<not> over t" "\<not> over u"
  shows "answered (pool(i \<mapsto> u)) = answered pool" "answered_badly (pool(i \<mapsto> u)) = answered_badly pool"
  using assms unfolding answered_def answered_badly_def over_iff by auto

lemma answered_finish:
  assumes "\<forall>t. pool i = Some t \<longrightarrow> \<not> over t"
  shows "answered (pool(i \<mapsto> (E, schedule, Ended r))) = insert i (answered pool)" "i \<notin> answered pool"
    "answered_badly (pool(i \<mapsto> (E, schedule, Ended r)))
       = (if (of_nat (down_status r) :: u16) \<ge> 400 then insert i (answered_badly pool) else answered_badly pool)"
    "i \<notin> answered_badly pool"
  using assms unfolding answered_def answered_badly_def over_iff by auto

lemma counts_log: "counts st n st' \<Longrightarrow> log_counts (pool, (st, w)) \<Longrightarrow> log_counts (pool, (st', w'))"
  by (auto simp: log_counts_def counts_def counted_hits_def)

lemma log_counts_open:
  assumes "log_counts (pool, c)" "\<forall>t. pool i = Some t \<longrightarrow> \<not> over t" "\<not> over u"
  shows "log_counts (pool(i \<mapsto> u), c)"
  using assms(1) answered_open [where pool = pool and i = i, OF assms(2,3)] by (simp add: log_counts_def)

lemma log_counts_finish:
  assumes "log_counts (pool, (st, w))" "\<forall>t. pool i = Some t \<longrightarrow> \<not> over t" "finish E answer st = (r, st')"
  shows "log_counts (pool(i \<mapsto> (E, schedule, Ended r)), (st', w))"
proof -
  have fin: "finite (answered pool)" "finite (answered_badly pool)" "finite (dom pool)"
    using assms(1) answered_finite [of pool] by (simp_all add: log_counts_def)
  note A = answered_finish [where pool = pool and i = i, OF assms(2)]
  show ?thesis
  proof (cases "app_admin st")
    case None
    with finalize_effect(4) [OF assms(3) [unfolded finish_def]] fin show ?thesis by (simp add: log_counts_def)
  next
    case (Some a)
    from finalize_effect(5) [OF assms(3) [unfolded finish_def] Some] obtain a' e where
      a': "app_admin st' = Some a'" and one: "logs_one a e a'" and e: "entry_status_code e = of_nat (down_status r)"
      unfolding logged_as_def by blast
    have before: "st_total_requests (stats a) = of_nat (card (answered pool))"
        "st_error_requests (stats a) = of_nat (card (answered_badly pool))"
        "length (snapshot_logs a) = min 100 (card (answered pool))"
      using assms(1) Some by (simp_all add: log_counts_def)
    have "length (snapshot_logs a') = min 100 (Suc (length (snapshot_logs a)))" using one by (simp add: logs_one_def min_def)
    with before one e A fin a' show ?thesis by (simp add: log_counts_def logs_one_def)
  qed
qed

lemma log_counts_move:
  assumes "pool i = Some t" "handling_step t s t' s'" "log_counts (pool, s)" "live.separate st0 (pool, s)"
  shows "log_counts (pool(i \<mapsto> t'), s')"
proof -
  obtain E schedule ph st w st' w' where eq: "t = (E, schedule, ph)" "s = (st, w)" "s' = (st', w')" by (metis prod_cases3 prod.collapse)
  note step = assms(2) [unfolded eq]
  have ok: "call_ok (E, schedule, ph)" using live.separateD(2) [OF assms(4) assms(1)] by (simp add: live.held_def eq)
  have "\<not> over t" using step by (cases t rule: over.cases) (auto simp: eq elim: handling_stepE)
  with assms(1) have now: "\<forall>u. pool i = Some u \<longrightarrow> \<not> over u" by simp
  from step ok show ?thesis
  proof (cases rule: handling_step_cases)
    case still
    from log_counts_open [where pool = pool and i = i, OF assms(3) now still(4)] still(1) show ?thesis by (simp add: eq log_counts_def)
  next
    case (prepared request call p t)
    have "unanswered [] (call_entry call)" using ok prepared(1) by simp
    with prepare_request_effect [OF prepared(2)] have c: "counts st (length (hit_urls t)) st'"
      by (simp add: build_request_cache_tracking_def)
    have "log_counts (pool, (st', w'))" using counts_log [OF c] assms(3) by (simp add: eq)
    from log_counts_open [where pool = pool and i = i, OF this now prepared(8)] show ?thesis unfolding eq .
  next
    case (sent request call x e t q)
    have "unanswered [] e" using ok sent(1) by simp
    with send_prepared_effect [OF sent(2)] have c: "counts st 0 st'" by blast
    have "log_counts (pool, (st', w'))" using counts_log [OF c] assms(3) by (simp add: eq)
    from log_counts_open [where pool = pool and i = i, OF this now sent(5)] show ?thesis unfolding eq .
  next
    case (ended answer r)
    from log_counts_finish [where pool = pool and i = i, OF _ now ended(2)] assms(3) ended(3) show ?thesis by (simp add: eq log_counts_def)
  qed
qed

lemma log_counts_step:
  assumes "service_move (pool, s) c'" "log_counts (pool, s)" "live.separate st0 (pool, s)"
  shows "log_counts c'"
proof -
  show ?thesis using assms(1)
  proof (rule pool_stepE)
    fix i t
    assume "c' = (pool(i \<mapsto> t), s)" "pool i = None" "arriving t"
    moreover from this(3) have "\<not> over t" by (cases t rule: over.cases) simp_all
    ultimately show ?thesis using log_counts_open [where pool = pool and i = i, OF assms(2)] by simp
  next
    fix i t t' s'
    assume "c' = (pool(i \<mapsto> t'), s')" "pool i = Some t" "handling_step t s t' s'"
    with log_counts_move [OF _ _ assms(2,3)] show ?thesis by simp
  next
    fix i t
    assume gone: "c' = (pool(i := None), s)" "pool i = Some t" "\<not> over t"
    then have "answered (pool(i := None)) = answered pool" "answered_badly (pool(i := None)) = answered_badly pool"
      by (auto simp: answered_def answered_badly_def)
    with gone(1) assms(2) show ?thesis by (simp add: log_counts_def)
  qed
qed



section \<open>Two requests at once\<close>

text \<open>When its images can be obtained and the pipe carries its body, a request is prepared.\<close>

lemma prepare_request_succeeds:
  assumes prep: "prepare_request E schedule doc e t st = Some (p, t', st')"
    and env: "trusted E" "benign E st" "blob_inv (app_blobs st)" "io_error (app_blobs st) = Map.empty"
    and doc: "json_wf doc" "scan_request_image_urls doc = Ok refs" "all_obtained E (request_services E st (observing t)) refs"
    and body: "stream_bytes (gw_pipe_reads E (ser (gw_encoder E) (inlined_document (b64 (gw_encoder E)) (gw_work E)
        (request_services E st (observing t)) refs doc))) \<noteq> None"
  shows "\<exists>x e1. p = Ok (x, e1)"
  using prep
proof (cases rule: prepare_request_cases)
  case (failed told s1 err)
  from materialize_error_cause [OF failed(1) env(4,3) benign_room(2,1) [OF env(2)]] doc(2,3) show ?thesis by auto
next
  case (materialized told s1 m st1)
  let ?svc = "request_services E st (observing t)" and ?rs = "mat_replacements m"
  have s1: "app_blobs st1 = s1" using observe_all_effect(1) [OF materialized(2)] by simp
  from materialize_Ok [OF materialized(1) env(3) benign_room(2,1) [OF env(2)]] doc(2) have
    m: "mat_request m = doc" "list_all2 (replaces (gw_work E) ?svc s1) refs ?rs"
      "keeps_blobs (app_blobs st) s1" "blob_inv s1" "unat (next_id_ctr s1) \<le> unat (next_id_ctr (app_blobs st)) + 7" by auto
  have live: "\<forall>r \<in> set ?rs. blob_contents s1 (repl_blob r) \<noteq> None" using replaces_live [OF m(2)] by blast
  have io: "\<forall>q. io_error s1 q = None" using m(3) env(4) by (simp add: keeps_blobs_def same_env_def)
  obtain dec where w: "json_writer (gw_encoder E) dec" using env(1) unfolding trusted_def by blast
  let ?body = "ser (gw_encoder E) (sent_document (b64 (gw_encoder E)) ?rs s1 doc)"
  have "stream_bytes (gw_pipe_reads E ?body) \<noteq> None"
    using body by (simp add: inlined_document_def sent_document_def image_at_inlined [OF m(2) scan_Ok_distinct [OF doc(1,2)]])
  then obtain h s2 where "store_stream (gw_pipe_reads E ?body) ''application/json'' s1 = (Ok h, s2)"
    using store_stream_total [OF io] by blast
  with encode_write [OF w io live, of doc] obtain x where
    enc: "encode_request_body (gw_encoder E) (gw_pipe_reads E) (gw_on_abort E) doc ?rs s1 = (Ok x, s2)"
    by (simp add: encode_request_body_def Let_def)
  note ctr = benign_room(3) [OF env(2) m(5)]
  have "\<forall>h \<in> set (map repl_blob ?rs). h < length (heap s2)"
    using encode_keeps_inv [OF enc env(2) m(4) ctr] live blob_contents_live by fastforce
  moreover have "blob_inv s2" using encode_keeps_inv [OF enc env(2) m(4) ctr] by blast
  moreover have "io_error s2 = Map.empty"
    using encode_keeps [OF enc env(1,2) m(4) ctr] io by (simp add: keeps_blobs_def same_env_def fun_eq_iff)
  ultimately obtain s3 where "remove_all (map repl_blob ?rs) s2 = (Ok (), s3)" using remove_all_no_io by blast
  with materialized(3) enc show ?thesis by (auto simp: encode_and_drop_def Let_def m(1) s1)
qed

text \<open>The surroundings of the demonstrations, with any URL library.\<close>

abbreviation gateway_at :: "upstream_ops \<Rightarrow> unit gateway" where
  "gateway_at U \<equiv> bounded_gateway\<lparr>gw_urls := U\<rparr>"

abbreviation received_at :: "upstream_ops \<Rightarrow> unit handling" where
  "received_at U \<equiv> (gateway_at U, demo_schedule, Received (Model ''m:generateContent'') demo_call)"

lemma gateway_at_trusted: "trusted (gateway_at U)"
proof -
  have "json_writer (gw_encoder (gateway_at U)) rfc_decode"
    using writer.json_writer_axioms by (simp add: bounded_gateway_def demo_gateway_def)
  moreover have "stream_bytes (gw_pipe_reads (gateway_at U) b) = Some d \<Longrightarrow> d = b" for b d
    by (auto simp: bounded_gateway_def split: if_splits)
  moreover have "keeps_blobs s (gw_on_abort (gateway_at U) s)" for s
    by (simp add: bounded_gateway_def demo_gateway_def keeps_blobs_def)
  moreover have "parse_json (gw_json (gateway_at U)) b = Ok v \<Longrightarrow> json_wf v" for b v
    using demo_request_scan(1) by (simp add: bounded_gateway_def demo_gateway_def)
  ultimately show ?thesis unfolding trusted_def by blast
qed

lemma gateway_at_services: "request_services (gateway_at U) demo_state obs = request_services bounded_gateway demo_state obs"
  by (simp add: request_services_def)

lemma gateway_at_benign: "benign (gateway_at U) demo_state"
  using bounded_gateway_benign by (simp add: benign_def gateway_at_services)

lemma demo_moves:
  assumes "phase_step (gateway_at U) schedule ph demo_state () = Some (ph', st', ())" "pool i = Some (gateway_at U, schedule, ph)"
  shows "service_move (pool, (demo_state, ())) (pool(i \<mapsto> (gateway_at U, schedule, ph')), (st', ()))"
  by (rule pool_step.move [where i = i and pool = pool, OF assms(2)])
    (rule handling_step.intros [OF gateway_at_trusted gateway_at_benign assms(1)])

lemma demo_two_arrive:
  "service_run (demo_state, ()) ([0 \<mapsto> received_at U, 1 \<mapsto> received_at U], (demo_state, ()))"
proof -
  have "service_run (demo_state, ()) ([0 \<mapsto> received_at U], (demo_state, ()))"
    by (rule r_into_rtranclp, rule pool_step.arrive) simp_all
  moreover have "service_move ([0 \<mapsto> received_at U], (demo_state, ()))
      ([0 \<mapsto> received_at U, 1 \<mapsto> received_at U], (demo_state, ()))"
    by (rule pool_step.arrive) simp_all
  ultimately show ?thesis by (rule rtranclp.rtrancl_into_rtrancl)
qed

text \<open>The proxy's own upstream needs no URL library until its URL is built.\<close>

abbreviation demo_upstream :: resolved_upstream where
  "demo_upstream \<equiv> \<lparr>base_url = ''https://magic666.top'', api_key = ''client-key''\<rparr>"

lemma demo_reads:
  assumes "\<not> is_aiapidev_base_url (base_ops U) ''https://magic666.top''"
  shows "\<exists>call. read_model_request (gateway_at U) ''m:generateContent'' demo_call demo_state = Ok call
    \<and> call_document call = demo_request \<and> call_resolved call = demo_upstream \<and> \<not> call_aiapidev (gateway_at U) call"
proof -
  have sel: "gw_json (gateway_at U) = gw_json demo_gateway" "gw_limit_error (gateway_at U) = gw_limit_error demo_gateway"
    by (simp_all add: bounded_gateway_def)
  have parse: "parse_json (gw_json demo_gateway) b = Ok demo_request" for b by (simp add: demo_gateway_def)
  have again: "to_bytes (gw_limit_error demo_gateway) MAX_REQUEST_BODY_BYTES [Inr ''{}''] = Ok ''{}''"
    by (simp add: MAX_REQUEST_BODY_BYTES_def)
  have "resolve_upstream_for_request_from_header_map V (text_header_map [(''x-goog-api-key'', ''client-key'')]) demo_request
      ''https://magic666.top'' ''test-upstream-key'' = Ok demo_upstream" for V
    by code_simp
  then have key: "resolve_upstream_for_request_from_header_map (base_ops U) (text_header_map (rq_headers demo_call)) demo_request
      (upstream_base_url (app_config demo_state)) (upstream_api_key (app_config demo_state)) = Ok demo_upstream"
    by (simp add: demo_call_def demo_state_sel test_config_def)
  show ?thesis
    using demo_call_facts(1,2) key parse again assms
    by (simp add: read_model_request_def open_call_def call_aiapidev_def sel Let_def)
qed

text \<open>Two requests have arrived, and the first of them has been prepared.\<close>

lemma demo_prepared:
  assumes "read_model_request (gateway_at U) ''m:generateContent'' demo_call demo_state = Ok call" "call_document call = demo_request"
    and "\<not> call_aiapidev (gateway_at U) call"
  shows "\<exists>pool st x e t. service_run (demo_state, ()) (pool, (st, ())) \<and> pool 1 = Some (received_at U)
    \<and> pool 0 = Some (gateway_at U, demo_schedule, Prepared demo_call call x e t) \<and> pool 2 = None"
proof -
  let ?E = "gateway_at U" and ?two = "[0 \<mapsto> received_at U, 1 \<mapsto> received_at U] :: nat \<Rightarrow> unit handling option"
  let ?t = "build_request_cache_tracking (map_option stats (app_admin demo_state))"
  have sel: "gw_work ?E = demo_work" "gw_encoder ?E = std_env (\<lambda>_. []) 1 Map.empty demo_image"
    by (simp_all add: bounded_gateway_def demo_gateway_def)
  have obs: "observing ?t = True" by (simp add: build_request_cache_tracking_def demo_state_sel)
  have svc: "request_services ?E demo_state True = demo_gateway_services"
    by (simp add: request_services_def bounded_gateway_def)
  have "\<exists>x. prepare_request ?E demo_schedule (call_document call) (call_entry call) ?t demo_state = Some x"
    using one_image_runs [OF demo_request_scan(2), of "gw_work ?E" "request_services ?E demo_state (observing ?t)" "app_blobs demo_state"]
    by (auto simp: prepare_request_def assms(2) split: prod.splits sum.splits)
  then obtain p t st where prep: "prepare_request ?E demo_schedule (call_document call) (call_entry call) ?t demo_state = Some (p, t, st)"
    by (metis prod_cases3)
  have good: "blob_inv (app_blobs demo_state)" "io_error (app_blobs demo_state) = Map.empty"
    using demo_gateway_sound by (simp_all add: sound_gateway_def)
  have got: "all_obtained ?E demo_gateway_services demo_refs" unfolding sel by (simp add: demo_gateway_obtained)
  have body: "ser (gw_encoder bounded_gateway) (inlined_document (b64 (gw_encoder bounded_gateway)) (gw_work bounded_gateway)
      demo_gateway_services demo_refs demo_request) = demo_sent_body" using sel by (simp add: std_env_def)
  have "gw_pipe_reads ?E demo_sent_body = [Inr demo_sent_body]" using demo_sent_length by (simp add: bounded_gateway_def)
  then have "stream_bytes (gw_pipe_reads ?E demo_sent_body) \<noteq> None" by (simp split: option.split)
  with prepare_request_succeeds [OF prep gateway_at_trusted gateway_at_benign good, of demo_refs] got obtain x e where
    p: "p = Ok (x, e)" by (auto simp: assms(2) obs svc body demo_request_scan)
  let ?called = "(?E, demo_schedule, Called demo_call call)" and ?ready = "(?E, demo_schedule, Prepared demo_call call x e t)"
  have one: "service_move (?two, (demo_state, ())) (?two(0 \<mapsto> ?called), (demo_state, ()))"
    by (rule demo_moves) (simp_all add: assms(1))
  have two: "service_move (?two(0 \<mapsto> ?called), (demo_state, ())) (?two(0 \<mapsto> ?called, 0 \<mapsto> ?ready), (st, ()))"
    by (rule demo_moves) (simp_all add: assms(3) prepare_phase_def prep p)
  let ?pool = "?two(0 \<mapsto> ?called, 0 \<mapsto> ?ready)"
  have run: "service_run (demo_state, ()) (?pool, (st, ()))"
    using demo_two_arrive one two by (meson rtranclp.rtrancl_into_rtrancl)
  with run show ?thesis by (intro exI [of _ ?pool]) auto
qed

theorem concurrent_requests_isolated_witness:
  "\<exists>U pool st call x e t. service_run (demo_state, ()) (pool, (st, ())) \<and> pool 1 = Some (received_at U)
     \<and> pool 0 = Some (gateway_at U, demo_schedule, Prepared demo_call call x e t)
     \<and> read_bytes (body_blob x) (app_blobs st) = Ok demo_sent_body"
proof -
  let ?U = "gw_urls demo_gateway" and ?E = "gateway_at (gw_urls demo_gateway)"
  from demo_reads [of ?U] demo_call_facts(4) obtain call where call: "call_document call = demo_request"
      "read_model_request ?E ''m:generateContent'' demo_call demo_state = Ok call" "\<not> call_aiapidev ?E call" by blast
  from demo_prepared [OF call(2,1,3)] obtain pool st x e t where
    run: "service_run (demo_state, ()) (pool, (st, ()))" "pool 1 = Some (received_at ?U)"
      "pool 0 = Some (?E, demo_schedule, Prepared demo_call call x e t)" by blast
  have start: "build_router demo_host (test_config\<lparr>admin_password := ''pw''\<rparr>) = demo_state" by (simp add: demo_state_def)
  have disk: "host_io_error demo_host = Map.empty" by (simp add: demo_host_def)
  note isolated = concurrent_requests_isolated [where H = demo_host and c = "test_config\<lparr>admin_password := ''pw''\<rparr>", unfolded start, OF run(1) disk]
  have sel: "gw_work ?E = demo_work" "gw_encoder ?E = std_env (\<lambda>_. []) 1 Map.empty demo_image"
    by (simp_all add: bounded_gateway_def demo_gateway_def)
  have "services_at demo_state ?E = demo_gateway_services"
    by (simp add: request_services_def bounded_gateway_def demo_state_sel)
  moreover have "ser (gw_encoder bounded_gateway) (inlined_document (b64 (gw_encoder bounded_gateway)) (gw_work bounded_gateway)
      demo_gateway_services demo_refs demo_request) = demo_sent_body" using sel by (simp add: std_env_def)
  ultimately have "read_bytes (body_blob x) (app_blobs st) = Ok demo_sent_body"
    using isolated [THEN conjunct2, THEN conjunct2, THEN conjunct1, rule_format, OF run(3)] by (auto simp: call(1) demo_request_scan)
  with run show ?thesis by blast
qed



end
