(* ===== verification/Server_Main.thy ===== *)
theory Server_Main
  imports App_State
begin

text \<open>
  The process (rust-sync-proxy/src/main.rs and rust-sync-proxy/src/allocator.rs): \<open>main\<close> reads
  the configuration, binds its port and serves until \<open>shutdown_signal\<close> resolves.

  A future of the runtime is the moment at which it resolves, with its value, or \<open>None\<close> when it
  never does; binding a port, serving and listening for signals are parameters.

  Shown here: what ends the wait for a shutdown, and that the two listeners treat a failure
  differently.
\<close>

section \<open>Waiting for a signal\<close>

type_synonym 'a future = "(nat \<times> 'a) option"

text \<open>
  \<open>ctrl_c_future\<close> resolves with the result of listening; \<open>terminate_listener\<close> is what
  registering for SIGTERM gives, on a system that has it (\<open>on_unix\<close>).
\<close>

record signals =
  ctrl_c_future :: "(string + unit) future"
  on_unix :: bool
  terminate_listener :: "string + unit option future"

definition ctrl_c_branch :: "signals \<Rightarrow> unit future" where
  "ctrl_c_branch S = map_option (\<lambda>(t, r). (t, ())) (ctrl_c_future S)"

definition terminate_branch :: "signals \<Rightarrow> unit future" where
  "terminate_branch S =
     (if on_unix S then
        (case terminate_listener S of
           Inl error \<Rightarrow> None
         | Inr recv \<Rightarrow> map_option (\<lambda>(t, r). (t, ())) recv)
      else None)"

text \<open>\<open>tokio::select!\<close> resolves with the first of its branches.\<close>

fun select_first :: "unit future \<Rightarrow> unit future \<Rightarrow> unit future" where
  "select_first None g = g"
| "select_first f None = f"
| "select_first (Some (t, _)) (Some (u, _)) = Some (min t u, ())"

definition shutdown_signal :: "signals \<Rightarrow> unit future" where
  "shutdown_signal S = select_first (ctrl_c_branch S) (terminate_branch S)"

section \<open>The process\<close>

definition compiled_allocator_name :: "bool \<Rightarrow> string" where
  "compiled_allocator_name linux_gnu = (if linux_gnu then ''jemalloc'' else ''system'')"

record ('c, 'l) process =
  process_urls :: url_ops
  process_env :: env_map
  process_host :: "'c host"
  bind_listener :: "string \<Rightarrow> string + 'l"
  serve_until :: "'l \<Rightarrow> 'c app_state \<Rightarrow> unit future \<Rightarrow> string + unit"
  process_signals :: signals

definition run_server :: "('c, 'l) process \<Rightarrow> 'l \<Rightarrow> config \<Rightarrow> unit future \<Rightarrow> string + unit" where
  "run_server P listener c shutdown = serve_until P listener (build_router (process_host P) c) shutdown"

definition listen_address :: "config \<Rightarrow> string" where
  "listen_address c = ''0.0.0.0:'' @ show_nat (unat (cfg_port c))"

definition main_process :: "('c, 'l) process \<Rightarrow> string + unit" where
  "main_process P =
     and_then (from_env_map (process_urls P) (process_env P)) (\<lambda>c.
     and_then (bind_listener P (listen_address c)) (\<lambda>listener.
     run_server P listener c (shutdown_signal (process_signals P))))"

section \<open>Properties\<close>

text \<open>
  C40: The wait ends at the first moment at which either a SIGTERM arrives on a registered listener
  or listening for ctrl-c has a result, and never before; and that result need not be a signal:
  when listening for ctrl-c fails, the failure itself ends the wait and the server shuts down
  although nobody asked it to, whereas a failure to listen for SIGTERM leaves the server running
  until a ctrl-c.
\<close>

theorem shutdown_without_signal:
  "(shutdown_signal S = Some (t, ()) \<longleftrightarrow>
      (t \<in> fst ` set_option (ctrl_c_branch S) \<union> fst ` set_option (terminate_branch S)
     \<and> (\<forall>u \<in> fst ` set_option (ctrl_c_branch S) \<union> fst ` set_option (terminate_branch S). t \<le> u)))
   \<and> (\<forall>t e. ctrl_c_future S = Some (t, Err e) \<and> (\<forall>u. terminate_branch S = Some u \<longrightarrow> t \<le> fst u) \<longrightarrow>
        shutdown_signal S = Some (t, ()))
   \<and> (\<forall>e. on_unix S \<and> terminate_listener S = Err e \<longrightarrow> shutdown_signal S = ctrl_c_branch S)"
proof (intro conjI allI impI)
  show "shutdown_signal S = Some (t, ()) \<longleftrightarrow>
      (t \<in> fst ` set_option (ctrl_c_branch S) \<union> fst ` set_option (terminate_branch S)
     \<and> (\<forall>u \<in> fst ` set_option (ctrl_c_branch S) \<union> fst ` set_option (terminate_branch S). t \<le> u))"
    by (cases "ctrl_c_branch S"; cases "terminate_branch S") (auto simp: shutdown_signal_def min_def)
next
  fix t e
  assume "ctrl_c_future S = Some (t, Err e) \<and> (\<forall>u. terminate_branch S = Some u \<longrightarrow> t \<le> fst u)"
  then show "shutdown_signal S = Some (t, ())"
    by (cases "terminate_branch S") (auto simp: shutdown_signal_def ctrl_c_branch_def min_def)
next
  fix e
  assume "on_unix S \<and> terminate_listener S = Err e"
  then have "terminate_branch S = None" by (simp add: terminate_branch_def)
  then show "shutdown_signal S = ctrl_c_branch S"
    by (cases "ctrl_c_branch S") (simp_all add: shutdown_signal_def)
qed

text \<open>A server that nobody stops, on a system where ctrl-c cannot be listened for.\<close>

definition detached :: signals where
  "detached = \<lparr>ctrl_c_future = Some (0, Err ''no console''), on_unix = True, terminate_listener = Ok None\<rparr>"

theorem shutdown_without_signal_witness:
  "shutdown_signal detached = Some (0, ())
   \<and> shutdown_signal (detached\<lparr>ctrl_c_future := None, terminate_listener := Err ''no handler''\<rparr>) = None"
proof -
  have "terminate_branch detached = None" "ctrl_c_future detached = Some (0, Err ''no console'')"
    by (simp_all add: detached_def terminate_branch_def)
  with shutdown_without_signal [of detached 0] have "shutdown_signal detached = Some (0, ())" by auto
  moreover have "ctrl_c_branch (detached\<lparr>ctrl_c_future := None, terminate_listener := Err ''no handler''\<rparr>) = None"
    by (simp add: ctrl_c_branch_def)
  ultimately show ?thesis
    using shutdown_without_signal [of "detached\<lparr>ctrl_c_future := None, terminate_listener := Err ''no handler''\<rparr>" 0]
    by (auto simp: detached_def)
qed

end
