(* ===== verification/Spec2Isabelle.thy ===== *)
theory Spec2Isabelle
  imports Concurrent_Service Server_Main
begin

text \<open>
  A verification development for the image proxy \<^verbatim>\<open>rust-sync-proxy\<close>.  File names below are
  relative to \<^verbatim>\<open>rust-sync-proxy/src\<close>.

  \<^bold>\<open>The program.\<close>  The proxy accepts Gemini \<^verbatim>\<open>generateContent\<close> requests and OpenAI image requests.  A
  Gemini request for a standard upstream is scanned for image URLs, the images are downloaded
  (through a memory and a disk cache, at most four at a time), the document is written with the
  images as base64 into a blob, and the blob is streamed to the upstream.  A request for an
  aiapidev upstream is translated into that service's dialect instead, posted as a task and
  polled until the task ends.  The answer is cleaned up (thought signatures, all but the largest
  image), its images are recompressed and, in URL mode, uploaded to an image host.  Every
  answered request leaves one entry in a bounded log, which the admin endpoints show.

  All requests share one \<open>app_state\<close>: the configuration, the clients, the two fetch services, the
  blob runtime with its budget of bytes kept in memory, and the admin state.  Everything outside
  the process is the world \<open>'w\<close>, passed from step to step, or a field of the record \<open>gateway\<close>.
\<close>

text \<open>
  \<^bold>\<open>The theories.\<close>  Definitions have the names of the code; a name that HOL has taken carries a
  suffix.

  \<^item> \<^verbatim>\<open>Proxy_Prelude\<close>: machine integers, results (\<open>Ok\<close>, \<open>Err\<close>), the error values callers tell
    apart (\<open>anyhow\<close>), Rust's string operations on bytes, decimal numbers.
  \<^item> \<^verbatim>\<open>Json_Value\<close>, \<^verbatim>\<open>Json_Text\<close>: \<open>serde_json::Value\<close> with ordered objects, pointers, paths; compact
    text as the contract \<open>json_compact\<close>.
  \<^item> \<^verbatim>\<open>Base64_Engine\<close>: base64 as the contract \<open>base64_engine\<close>, satisfied by the RFC's alphabet.
  \<^item> \<^verbatim>\<open>Env_Config\<close> (config.rs): every setting with its parser, default and cross-checks.
  \<^item> \<^verbatim>\<open>Upstream\<close> (upstream.rs): tokens, precedence, path rewriting.
  \<^item> \<^verbatim>\<open>Blob_Runtime\<close> (blob_runtime.rs): an arena of blobs with a file system; the compare-exchange
    loop also as an interleaved step relation.
  \<^item> \<^verbatim>\<open>Image_Io\<close> (image_io.rs): download guard, size limits, MIME types, PNG decisions.
  \<^item> \<^verbatim>\<open>Memory_Cache\<close>, \<^verbatim>\<open>Disk_Cache\<close>, \<^verbatim>\<open>Fetch_Service\<close> (cache.rs): the two caches, and the in-flight
    table as a state machine over tasks and waiters.
  \<^item> \<^verbatim>\<open>Request_Scan\<close>, \<^verbatim>\<open>Request_Materialize\<close>, \<^verbatim>\<open>Request_Encode\<close>, \<^verbatim>\<open>Request_Rewrite\<close> (the files of the
    same names): the way of a request's images and body.
  \<^item> \<^verbatim>\<open>Response_Rewrite\<close>, \<^verbatim>\<open>Response_Materialize\<close> (same names), \<^verbatim>\<open>Response_Types\<close>: the way of a response.
  \<^item> \<^verbatim>\<open>Base64_Stream\<close>, \<^verbatim>\<open>Uploads\<close> (upload.rs): the streaming base64 body and the image hosts.
  \<^item> \<^verbatim>\<open>Openai_Image\<close> (openai_image.rs and its part of http/router.rs).
  \<^item> \<^verbatim>\<open>Admin_Log\<close> (admin.rs): log, counters, password check, redaction.
  \<^item> \<^verbatim>\<open>Proxy_Replies\<close>, \<^verbatim>\<open>Aiapidev_Tasks\<close>, \<^verbatim>\<open>App_State\<close>, \<^verbatim>\<open>Gateway\<close> (http/router.rs): structured errors,
    task polling, \<open>AppState\<close> with routing and the admin endpoints, the two handlers.
  \<^item> \<^verbatim>\<open>Gateway_Effects\<close>, \<^verbatim>\<open>Gateway_Service\<close>: what the handlers do to the shared state, and the
    properties of a service that handles one request after the other.
  \<^item> \<^verbatim>\<open>Interleaving\<close>, \<^verbatim>\<open>Handler_Phases\<close>, \<^verbatim>\<open>Concurrent_Service\<close>: the handlers cut at their await points,
    and any interleaving of any number of them, with clients that go away in between.
  \<^item> \<^verbatim>\<open>Server_Main\<close> (main.rs, allocator.rs): start, serving, shutdown.
  \<^item> this theory: the composition of scan, download and encoding.
\<close>

text \<open>
  \<^bold>\<open>Interfaces.\<close>  Where a component relies on another through a contract, the contract is a locale
  with its laws, interpreted on the model's own definitions: \<open>string_map\<close> (JSON objects),
  \<open>json_compact\<close> and \<open>json_writer\<close> (the serialiser the encoder needs), \<open>base64_engine\<close>, \<open>blob_store\<close> (once
  per storing operation), \<open>lru\<close> (the map of the \<^verbatim>\<open>lru\<close> crate, interpreted on a list),
  \<open>disk_world\<close>, and \<open>owned_tasks\<close> (the discipline under which interleaved tasks do not disturb each
  other, interpreted on the handlers).

  \<^bold>\<open>What is shown.\<close>  For the whole service: what is sent upstream is the client's document with its
  images in place, announced with its length; every request is answered, under some schedule of
  its downloads, and logged and counted exactly once; the invariants of log and blobs hold
  between requests; a response is a well-formed document without signatures; without the
  password nothing of the log is visible.  For concurrent requests: the phases of a handler, run
  alone, are the handler; under every interleaving a request sends its own document with its own
  images, no two requests hold the same blob, and the log counts each answer once.  For the
  components: exactness of the scan, the encoder, the cache, the readers and the rewriting;
  single flight and the bounds on downloads under every interleaving; the budget of hot bytes
  under every interleaving of the compare-exchange loop; refinement of the log to the full
  history, and of streamed uploads to plain ones.  Some theorems state where the code falls short
  of its purpose (\<^verbatim>\<open>single_flight_race\<close>, \<^verbatim>\<open>ipv6_literal_admitted\<close>, \<^verbatim>\<open>signed_path_requested\<close>,
  \<^verbatim>\<open>inner_padding_accepted\<close>, \<^verbatim>\<open>error_abandons_blobs\<close>, \<^verbatim>\<open>unsent_body_abandoned\<close>,
  \<^verbatim>\<open>refused_image_request_unexplained\<close>, \<^verbatim>\<open>shutdown_without_signal\<close>).

  \<^bold>\<open>Bounds.\<close>  There is no fuel in the handlers: the download of a request runs along an explicit
  list of events and is \<open>None\<close> for a list that is no complete run; a scan admits at most seven
  references, and \<^verbatim>\<open>every_request_answered\<close> shows that a schedule of at most 21 events always
  completes.  Polling is a total function and ends within 451 attempts (450 seconds at one
  attempt a second, and the first one).  A handler has at most five phases, so \<open>run_phases\<close> with
  fuel five is the whole handler (\<^verbatim>\<open>phases_alone\<close>).  Counters of 64 bits wrap around as in the code;
  theorems that need room in the identifiers of blobs say so.
\<close>

text \<open>
  \<^bold>\<open>Parameters.\<close>  Code that is not part of the repository is an argument of the definitions that use
  it: the URL type, form encoding, JSON parser and printers, base64, image codecs, the LRU map, the
  hash functions, the HTTP clients and what they answer, the clock, the file system's errors.
  Hypotheses about them are named (\<open>trusted\<close>, \<open>benign\<close>, \<open>sound_gateway\<close>, the locales) and each
  property that has one comes with a witness on concrete surroundings.

  \<^bold>\<open>Not modelled.\<close>  The admin HTML page, a constant of 1,200 lines with a vendored chart library;
  the tests and \<^verbatim>\<open>test_blob_runtime\<close>; the transport (axum, hyper, tokio's scheduler, TLS); log lines,
  but for the slow-request warning; \<^verbatim>\<open>_is_subpath\<close>, which nothing calls; the programs in other
  languages in the repository.  The evolution of the fetch caches is modelled in \<^verbatim>\<open>Fetch_Service\<close>,
  but within a handler what a fetch service answers is a function of the URL.  Between requests,
  the downloads of one request count as one phase: a client that goes away in the middle of them
  is not modelled (one that goes away before or after them is).
\<close>

section \<open>From the client's request to the body sent upstream\<close>

text \<open>
  C5: Downloading and encoding together do what the proxy is for: after a successful download
  the encoder stores a body that is exactly the compact text of the client's document with
  the output settings removed and every \<open>inlineData\<close> URL replaced by the type and the base64
  of the bytes that URL delivered, whatever the schedule of the downloads, the place where
  each blob is kept and the sizes of the reads; and the announced length is that of the body.
\<close>

theorem sent_body_inlines_images:
  assumes "json_wf request" "scan_request_image_urls request = Ok refs"
    and "materialize_request_images_with_services W svc schedule request s = Some (Ok m, told, s1)"
    and "json_writer env dec" "fair_reads (16 * 1024) pipe_reads"
    and "blob_inv s" "io_error s = Map.empty" "images_fit W svc" "unat (next_id_ctr s) + 8 < 2 ^ 64"
    and "body = ser env (inlined_document (b64 env) W svc refs request)" "fits body"
  shows "\<exists>h s2. encode_request_body env pipe_reads on_abort (mat_request m) (mat_replacements m) s1
      = (Ok \<lparr>body_blob = h, content_length = of_nat (length body)\<rparr>, s2)
    \<and> unat (of_nat (length body) :: u64) = length body \<and> read_bytes h s2 = Ok body"
  using encode_materialized [OF assms, of on_abort] by blast

theorem sent_body_inlines_images_witness:
  "\<exists>m s1 h s2. materialize_request_images_with_services demo_work demo_mat demo_schedule demo_request demo_runtime
       = Some (Ok m, [(''http://h/a'', False)], s1)
   \<and> encode_request_body (std_env (\<lambda>_. []) 1 Map.empty demo_image) (\<lambda>b. map Inr (cut 2 b)) id (mat_request m) (mat_replacements m) s1
       = (Ok \<lparr>body_blob = h, content_length = 72\<rparr>, s2)"
proof -
  let ?env = "std_env (\<lambda>_. []) 1 Map.empty demo_image"
  let ?refs = "[\<lparr>json_pointer = ''/contents/0/inlineData'', ref_url = ''http://h/a''\<rparr>]"
  let ?body = "ser ?env (inlined_document (b64 ?env) demo_work demo_mat ?refs demo_request)"
  from demo_materialize obtain m s1 where run:
    "materialize_request_images_with_services demo_work demo_mat demo_schedule demo_request demo_runtime
       = Some (Ok m, [(''http://h/a'', False)], s1)" by blast
  have at: "inlined_at rfc_encode demo_work demo_mat ?refs =
      (\<lambda>p. if p = ''/contents/0/inlineData'' then Some (image_value rfc_encode ''image/png'' ''abcd'') else None)"
    by (auto simp: fun_eq_iff inlined_at_def obtained_def demo_mat_def)
  have "?body = json_text (\<lambda>_. []) (patch (\<lambda>p. if p = ''/contents/0/inlineData'' then Some (image_value rfc_encode ''image/png'' ''abcd'') else None)
      [] (strip_output_from_value demo_request))"
    by (simp add: inlined_document_def std_env_def at)
  moreover have "length (json_text (\<lambda>_. []) (patch (\<lambda>p. if p = ''/contents/0/inlineData'' then Some (image_value rfc_encode ''image/png'' ''abcd'') else None)
      [] (strip_output_from_value demo_request))) = 72"
    by code_simp
  ultimately have len: "length ?body = 72" by simp
  have fair: "fair_reads (16 * 1024) (\<lambda>b. map Inr (cut 2 b))" by (rule fair_cut) simp
  have room: "unat (next_id_ctr demo_runtime) + 8 < 2 ^ 64" by (simp add: demo_runtime_def runtime_new_def)
  have "fits ?body" using len by (simp add: fits_def)
  from sent_body_inlines_images [where on_abort = id, OF demo_request_scan run writer.json_writer_axioms fair
      demo_runtime_ready(1,3) demo_images_fit room refl this] len run
  show ?thesis by auto
qed

end
